(* ===== verification/Prelude.thy ===== *)
theory Prelude
  imports Main "HOL-Library.Word" "HOL-Library.Finite_Map"
begin

text \<open>
  Shared vocabulary of the development: the fixed-width integers of the Rust sources, big-endian
  byte strings, the length of a hash map, and the ordered-set operations of
  \<^verbatim>\<open>std::collections::BTreeSet\<close>.

  Conventions used by every component theory.
  \<^item> \<open>u8\<close> \dots \<open>u64\<close> and \<open>U256\<close> are words of that width; \<open>+\<close>, \<open>-\<close> and \<open>*\<close> wrap, as they do in
    the release profile the server is built with. Where the source panics on an overflow (every
    operator of \<open>U256\<close>) or saturates, the definition says so.
  \<^item> \<open>usize\<close> lengths and indices of in-memory collections are \<open>nat\<close>.
  \<^item> A panic (\<^verbatim>\<open>panic!\<close>, \<^verbatim>\<open>assert!\<close>, \<^verbatim>\<open>expect\<close>, \<^verbatim>\<open>unwrap\<close>, an index out of range) is the result
    \<open>None\<close> of an \<open>option\<close>; an \<^verbatim>\<open>Err\<close> is an \<open>Inl\<close> of a sum with the source's error enum.
  \<^item> A \<^verbatim>\<open>HashMap\<close> is a finite map \<open>('k, 'v) fmap\<close>: it has no iteration order, and neither has the
    source's map.
\<close>

section \<open>Machine integers\<close>

type_synonym u8 = "8 word"
type_synonym u16 = "16 word"
type_synonym u32 = "32 word"
type_synonym u64 = "64 word"
type_synonym u256 = "256 word"
type_synonym address = "160 word"
type_synonym h256 = "256 word"

named_theorems byte_simps \<open>big-endian byte strings\<close>
named_theorems ordset_simps \<open>ordered sets as strictly sorted lists\<close>

section \<open>Big-endian byte strings\<close>

fun be_bytes :: "nat \<Rightarrow> nat \<Rightarrow> u8 list" where
  "be_bytes 0 x = []"
| "be_bytes (Suc n) x = be_bytes n (x div 256) @ [word_of_nat x]"

definition from_be :: "u8 list \<Rightarrow> nat" where
  "from_be bs = foldl (\<lambda>acc b. acc * 256 + unat b) 0 bs"

text \<open>The bytes of a word, most significant first, and the word of a byte string.\<close>

definition word_be :: "'a::len word \<Rightarrow> u8 list" where
  "word_be w = be_bytes (LENGTH('a) div 8) (unat w)"

definition word_from_be :: "u8 list \<Rightarrow> 'a::len word" where
  "word_from_be bs = word_of_nat (from_be bs)"

text \<open>\<^verbatim>\<open>slice::chunks\<close>: pieces of \<open>k\<close> elements, the last one shorter when \<open>k\<close> does not divide the length.\<close>

fun chunks :: "nat \<Rightarrow> 'a list \<Rightarrow> 'a list list" where
  "chunks k xs = (if k = 0 \<or> xs = [] then [] else take k xs # chunks k (drop k xs))"

declare chunks.simps [simp del]

text \<open>\<open>U256::bits\<close>: the position of the highest set bit, plus one.\<close>

fun nat_bits :: "nat \<Rightarrow> nat" where
  "nat_bits n = (if n = 0 then 0 else Suc (nat_bits (n div 2)))"

declare nat_bits.simps [simp del]

section \<open>Hash maps\<close>

definition fmlen :: "('k, 'v) fmap \<Rightarrow> nat" where
  "fmlen m = card (fmdom' m)"

section \<open>Ordered sets: a strictly sorted list, with the comparison key of the element type\<close>

fun bts_insert :: "('a \<Rightarrow> 'k::linorder) \<Rightarrow> 'a \<Rightarrow> 'a list \<Rightarrow> 'a list" where
  "bts_insert key x [] = [x]"
| "bts_insert key x (y # ys) =
     (if key x < key y then x # y # ys
      else if key x = key y then y # ys
      else y # bts_insert key x ys)"

definition bts_remove :: "('a \<Rightarrow> 'k::linorder) \<Rightarrow> 'a \<Rightarrow> 'a list \<Rightarrow> 'a list" where
  "bts_remove key x ys = filter (\<lambda>y. key y \<noteq> key x) ys"

definition bts_split_off :: "('a \<Rightarrow> 'k::linorder) \<Rightarrow> 'a \<Rightarrow> 'a list \<Rightarrow> 'a list \<times> 'a list" where
  "bts_split_off key x ys = (filter (\<lambda>y. key y < key x) ys, filter (\<lambda>y. key x \<le> key y) ys)"

definition bts_rfind :: "('a \<Rightarrow> bool) \<Rightarrow> 'a list \<Rightarrow> 'a option" where
  "bts_rfind p ys = find p (rev ys)"

definition bts_wf :: "('a \<Rightarrow> 'k::linorder) \<Rightarrow> 'a list \<Rightarrow> bool" where
  "bts_wf key ys = sorted_wrt (<) (map key ys)"

section \<open>Lemmas on byte strings\<close>

lemma length_be_bytes [simp]: "length (be_bytes n x) = n"
  by (induction n arbitrary: x) auto

lemma from_be_Nil [simp]: "from_be [] = 0"
  by (simp add: from_be_def)

lemma from_be_snoc [byte_simps]: "from_be (bs @ [b]) = from_be bs * 256 + unat b"
  by (simp add: from_be_def)

lemma from_be_append [byte_simps]: "from_be (xs @ ys) = from_be xs * 256 ^ length ys + from_be ys"
proof (induction ys rule: rev_induct)
  case Nil
  then show ?case by simp
next
  case (snoc y ys)
  have "from_be (xs @ ys @ [y]) = from_be (xs @ ys) * 256 + unat y"
    using from_be_snoc [of "xs @ ys" y] by simp
  with snoc show ?case by (simp add: from_be_snoc algebra_simps)
qed

lemma unat_word8_of_nat: "unat (word_of_nat x :: u8) = x mod 256"
  by (simp add: unsigned_of_nat take_bit_eq_mod)

lemma from_be_be_bytes [byte_simps]: "from_be (be_bytes n x) = x mod 256 ^ n"
proof (induction n arbitrary: x)
  case 0
  then show ?case by simp
next
  case (Suc n)
  have "from_be (be_bytes (Suc n) x) = (x div 256) mod 256 ^ n * 256 + x mod 256"
    by (simp add: from_be_snoc Suc unat_word8_of_nat)
  also have "\<dots> = x mod (256 * 256 ^ n)"
    by (simp add: mod_mult2_eq)
  finally show ?case by simp
qed

lemma from_be_less: "from_be bs < 256 ^ length bs"
proof (induction bs rule: rev_induct)
  case Nil
  then show ?case by simp
next
  case (snoc b bs)
  have "unat b < 256" using unsigned_less [of b] by simp
  moreover have "from_be bs + 1 \<le> 256 ^ length bs" using snoc by simp
  then have "(from_be bs + 1) * 256 \<le> 256 ^ length bs * 256" by (rule mult_le_mono1)
  ultimately show ?case by (simp add: from_be_snoc algebra_simps)
qed

lemma be_bytes_from_be [byte_simps]: "be_bytes (length bs) (from_be bs) = bs"
proof (induction bs rule: rev_induct)
  case Nil
  then show ?case by simp
next
  case (snoc b bs)
  have b: "unat b < 256" using unsigned_less [of b] by simp
  have w: "(word_of_nat (from_be bs * 256 + unat b) :: u8) = b"
  proof (rule word_unat_eq_iff [THEN iffD2])
    show "unat (word_of_nat (from_be bs * 256 + unat b) :: u8) = unat b"
      using b unat_word8_of_nat [of "from_be bs * 256 + unat b"] by (simp only: mod_mult_self3 mod_less)
  qed
  from b have "(from_be bs * 256 + unat b) div 256 = from_be bs" by simp
  with snoc w show ?case by (simp add: from_be_snoc)
qed

lemma be_bytes_inject:
  "x < 256 ^ n \<Longrightarrow> y < 256 ^ n \<Longrightarrow> be_bytes n x = be_bytes n y \<longleftrightarrow> x = y"
proof
  assume "x < 256 ^ n" "y < 256 ^ n" "be_bytes n x = be_bytes n y"
  then have "from_be (be_bytes n x) = from_be (be_bytes n y)" "x mod 256 ^ n = x" "y mod 256 ^ n = y"
    by simp_all
  then show "x = y" by (simp only: from_be_be_bytes)
qed simp

lemma length_word_be [simp]: "length (word_be (w :: 'a::len word)) = LENGTH('a) div 8"
  by (simp add: word_be_def)

lemma pow256_div8: "8 dvd n \<Longrightarrow> (256::nat) ^ (n div 8) = 2 ^ n"
  by (elim dvdE) (simp add: power_mult)

lemma word_from_be_word_be:
  assumes "8 dvd LENGTH('a::len)"
  shows "word_from_be (word_be (w :: 'a word)) = w"
proof -
  have "(256::nat) ^ (LENGTH('a) div 8) = 2 ^ LENGTH('a)"
    using assms by (simp add: pow256_div8)
  then have "unat w mod 256 ^ (LENGTH('a) div 8) = unat w"
    using unsigned_less [of w] by simp
  then show ?thesis by (simp add: word_from_be_def word_be_def from_be_be_bytes)
qed

lemma word_be_word_from_be:
  assumes "8 dvd LENGTH('a::len)" and "length bs = LENGTH('a) div 8"
  shows "word_be (word_from_be bs :: 'a word) = bs"
proof -
  have "(256::nat) ^ (LENGTH('a) div 8) = 2 ^ LENGTH('a)"
    using assms by (simp add: pow256_div8)
  then have "unat (word_of_nat (from_be bs) :: 'a word) = from_be bs"
    using from_be_less [of bs] assms(2) by (simp add: unsigned_of_nat take_bit_eq_mod)
  then show ?thesis
    using be_bytes_from_be [of bs] assms(2) by (simp add: word_from_be_def word_be_def)
qed

lemma word_be_inject:
  assumes "8 dvd LENGTH('a::len)"
  shows "word_be (v :: 'a word) = word_be w \<longleftrightarrow> v = w"
proof
  assume "word_be v = word_be w"
  then have "word_from_be (word_be v) = (word_from_be (word_be w) :: 'a word)" by simp
  then show "v = w" by (simp only: word_from_be_word_be [OF assms])
qed simp

lemma chunks_Nil [simp]: "chunks k [] = []"
  by (simp add: chunks.simps)

lemma chunks_append:
  "length xs = k \<Longrightarrow> 0 < k \<Longrightarrow> chunks k (xs @ ys) = xs # chunks k ys"
  by (subst chunks.simps) auto

lemma concat_chunks [simp]: "0 < k \<Longrightarrow> concat (chunks k xs) = xs"
proof (induction k xs rule: chunks.induct)
  case (1 k xs)
  then show ?case by (cases "xs = []") (simp_all add: chunks.simps [of k xs])
qed

lemma chunks_lengths:
  "0 < k \<Longrightarrow> k dvd length xs \<Longrightarrow> list_all (\<lambda>c. length c = k) (chunks k xs)"
proof (induction k xs rule: chunks.induct)
  case (1 k xs)
  show ?case
  proof (cases "xs = []")
    case True
    then show ?thesis by simp
  next
    case False
    then have le: "k \<le> length xs" using "1.prems" by (simp add: dvd_imp_le)
    have "list_all (\<lambda>c. length c = k) (chunks k (drop k xs))"
      using "1.IH" "1.prems" False by (simp add: dvd_diff_nat)
    moreover have "chunks k xs = take k xs # chunks k (drop k xs)"
      using False "1.prems" by (simp add: chunks.simps [of k xs])
    ultimately show ?thesis using le by simp
  qed
qed

lemma length_chunks: "0 < k \<Longrightarrow> k dvd length xs \<Longrightarrow> length (chunks k xs) = length xs div k"
proof (induction k xs rule: chunks.induct)
  case (1 k xs)
  show ?case
  proof (cases "xs = []")
    case True
    then show ?thesis by simp
  next
    case False
    then have le: "k \<le> length xs" using "1.prems" by (simp add: dvd_imp_le)
    have "length (chunks k (drop k xs)) = (length xs - k) div k"
      using "1.IH" "1.prems" False by (simp add: dvd_diff_nat)
    moreover have "chunks k xs = take k xs # chunks k (drop k xs)"
      using False "1.prems" by (simp add: chunks.simps [of k xs])
    ultimately show ?thesis using le "1.prems" by (simp add: le_div_geq)
  qed
qed

lemma nat_bits_0 [simp]: "nat_bits 0 = 0"
  by (simp add: nat_bits.simps)

lemma nat_bits_le_iff: "nat_bits n \<le> k \<longleftrightarrow> n < 2 ^ k"
proof (induction n arbitrary: k rule: nat_bits.induct)
  case (1 n)
  show ?case
  proof (cases "n = 0")
    case True
    then show ?thesis by simp
  next
    case False
    show ?thesis
    proof (cases k)
      case 0
      with False show ?thesis by (simp add: nat_bits.simps [of n])
    next
      case (Suc j)
      have "nat_bits n \<le> Suc j \<longleftrightarrow> nat_bits (n div 2) \<le> j"
        using False by (simp add: nat_bits.simps [of n])
      also have "\<dots> \<longleftrightarrow> n div 2 < 2 ^ j" using "1" False by simp
      also have "\<dots> \<longleftrightarrow> n < 2 ^ Suc j" by auto
      finally show ?thesis using Suc by simp
    qed
  qed
qed

lemma nat_bits_mono: "m \<le> n \<Longrightarrow> nat_bits m \<le> nat_bits n"
  by (metis nat_bits_le_iff le_refl le_less_trans)

section \<open>Lemmas on ordered sets\<close>

lemma bts_wf_Nil [simp]: "bts_wf key []"
  by (simp add: bts_wf_def)

lemma bts_wf_Cons [ordset_simps]: "bts_wf key (y # ys) \<longleftrightarrow> (\<forall>z \<in> set ys. key y < key z) \<and> bts_wf key ys"
  by (auto simp: bts_wf_def)

lemma bts_wf_append [ordset_simps]:
  "bts_wf key (xs @ ys) \<longleftrightarrow> bts_wf key xs \<and> bts_wf key ys \<and> (\<forall>x \<in> set xs. \<forall>y \<in> set ys. key x < key y)"
  by (auto simp: bts_wf_def sorted_wrt_append)

lemma bts_wf_filter: "bts_wf key ys \<Longrightarrow> bts_wf key (filter p ys)"
  by (induction ys) (auto simp: bts_wf_Cons)

lemma bts_wf_inj_on: "bts_wf key ys \<Longrightarrow> distinct ys \<and> inj_on key (set ys)"
  by (simp add: bts_wf_def strict_sorted_iff distinct_map)

lemma bts_wf_key_inj: "bts_wf key ys \<Longrightarrow> x \<in> set ys \<Longrightarrow> y \<in> set ys \<Longrightarrow> key x = key y \<Longrightarrow> x = y"
  by (drule bts_wf_inj_on) (blast dest: inj_onD)

lemma bts_insert_set:
  "bts_wf key ys \<Longrightarrow>
   set (bts_insert key x ys) = (if key x \<in> key ` set ys then set ys else insert x (set ys))"
  by (induction ys) (auto simp: bts_wf_Cons split: if_splits)

lemma bts_insert_wf: "bts_wf key ys \<Longrightarrow> bts_wf key (bts_insert key x ys)"
proof (induction ys)
  case Nil
  then show ?case by (simp add: bts_wf_Cons)
next
  case (Cons y ys)
  then show ?case by (auto simp: bts_wf_Cons bts_insert_set [of key ys x])
qed

lemma bts_remove_set [ordset_simps]: "set (bts_remove key x ys) = {y \<in> set ys. key y \<noteq> key x}"
  by (auto simp: bts_remove_def)

lemma bts_remove_wf: "bts_wf key ys \<Longrightarrow> bts_wf key (bts_remove key x ys)"
  by (simp add: bts_remove_def bts_wf_filter)

lemma bts_rfind_Some:
  assumes "bts_wf key ys" and "bts_rfind p ys = Some x"
  shows "x \<in> set ys \<and> p x \<and> (\<forall>y \<in> set ys. p y \<longrightarrow> key y \<le> key x)"
proof -
  from assms(2) obtain i where i: "i < length ys" "p (rev ys ! i)" "x = rev ys ! i"
    and before: "\<forall>j < i. \<not> p (rev ys ! j)"
    by (auto simp: bts_rfind_def find_Some_iff)
  define n where "n = length ys - Suc i"
  have n: "n < length ys" "x = ys ! n" using i by (auto simp: n_def rev_nth)
  have "key y \<le> key x" if "y \<in> set ys" "p y" for y
  proof -
    from that obtain m where m: "m < length ys" "y = ys ! m" by (auto simp: in_set_conv_nth)
    have "\<not> n < m"
    proof
      assume "n < m"
      then have "length ys - Suc m < i" using m n by (auto simp: n_def)
      moreover have "rev ys ! (length ys - Suc m) = y" using m by (simp add: rev_nth)
      ultimately show False using before that(2) by auto
    qed
    then show ?thesis
      using assms(1) m n by (cases "m = n") (auto simp: bts_wf_def sorted_wrt_iff_nth_less intro: less_imp_le)
  qed
  moreover have "x \<in> set ys" using n by simp
  ultimately show ?thesis using i by blast
qed

lemma bts_rfind_None [ordset_simps]: "bts_rfind p ys = None \<longleftrightarrow> (\<forall>y \<in> set ys. \<not> p y)"
  by (auto simp: bts_rfind_def find_None_iff)

text \<open>The part split off starts with the element itself: what follows is strictly above it.\<close>

lemma bts_split_off_tail:
  assumes "bts_wf key ys" and "x \<in> set ys"
  shows "snd (bts_split_off key x ys) = x # filter (\<lambda>y. key x < key y) ys"
  using assms
proof (induction ys)
  case Nil
  then show ?case by simp
next
  case (Cons y ys)
  show ?case
  proof (cases "x = y")
    case True
    have "filter (\<lambda>z. key x \<le> key z) ys = ys" "filter (\<lambda>z. key x < key z) ys = ys"
      using Cons.prems(1) True by (auto simp: bts_wf_Cons filter_id_conv)
    with True show ?thesis by (simp add: bts_split_off_def)
  next
    case False
    with Cons.prems have "key y < key x" and "x \<in> set ys" and "bts_wf key ys" by (auto simp: bts_wf_Cons)
    with Cons.IH show ?thesis by (auto simp: bts_split_off_def)
  qed
qed

section \<open>Lemmas on hash maps\<close>

lemma finite_fmdom' [simp]: "finite (fmdom' m)"
  by (simp add: fmdom'_alt_def)

lemma fmlen_empty [simp]: "fmlen fmempty = 0"
  by (simp add: fmlen_def)

lemma fmlen_upd: "fmlen (fmupd k v m) = (if fmlookup m k = None then Suc (fmlen m) else fmlen m)"
  by (auto simp: fmlen_def card_insert_if fmlookup_dom'_iff)

lemma fmlen_drop: "fmlookup m k \<noteq> None \<Longrightarrow> Suc (fmlen (fmdrop k m)) = fmlen m"
proof -
  assume "fmlookup m k \<noteq> None"
  then have "k \<in> fmdom' m" by (auto simp: fmlookup_dom'_iff)
  then show ?thesis
    unfolding fmlen_def fmdom'_drop by (rule card_Suc_Diff1 [OF finite_fmdom'])
qed

lemma fmdrop_fmupd_same_none: "fmlookup m k = None \<Longrightarrow> fmdrop k (fmupd k v m) = m"
  by (rule fmap_ext) auto

lemma fmupd_fmdrop_same: "fmlookup m k = Some v \<Longrightarrow> fmupd k v (fmdrop k m) = m"
  by (rule fmap_ext) auto

lemma fmupd_fmupd_restore: "fmlookup m k = Some v \<Longrightarrow> fmupd k v (fmupd k w m) = m"
  by (rule fmap_ext) auto

lemma fmupd_same: "fmlookup m k = Some v \<Longrightarrow> fmupd k v m = m"
  by (rule fmap_ext) auto

lemma fmdrop_none: "fmlookup m k = None \<Longrightarrow> fmdrop k m = m"
  by (rule fmap_ext) auto

lemmas fmap_restore = fmdrop_none fmupd_same fmupd_fmdrop_same fmupd_fmupd_restore fmdrop_fmupd_same_none

end
