(* ===== verification/Utils.thy ===== *)
theory Utils
  imports Prelude "HOL-Library.Monad_Syntax"
begin

text \<open>
  The shared helper crate \<^verbatim>\<open>core/lib/utils\<close>: rounding-up division and memory expansion
  (\<^verbatim>\<open>misc.rs\<close>), conversions between byte strings, \<open>H256\<close>, \<open>U256\<close> and addresses
  (\<^verbatim>\<open>convert.rs\<close>), and the well-formedness rules of zkEVM bytecode (\<^verbatim>\<open>bytecode.rs\<close>).

  An \<open>H256\<close> (an array of 32 bytes) and an address (20 bytes) are the numbers whose big-endian
  bytes they are; \<open>as_bytes\<close> of the source is \<open>word_be\<close>. The Keccak hash and the versioned
  bytecode hash come from other crates and are parameters.
\<close>

section \<open>misc.rs\<close>

text \<open>Integer division panics on a zero divisor; \<open>ceil_div\<close> does not divide when \<open>a = 0\<close>.\<close>

definition ceil_div :: "u64 \<Rightarrow> u64 \<Rightarrow> u64 option" where
  "ceil_div a b =
     (if a = 0 then Some a
      else if b = 0 then None
      else Some ((a - 1) div b + 1))"

text \<open>The operators of \<open>U256\<close> panic on overflow, on underflow and on division by zero, and so
  does \<open>as_u64\<close> on a value that does not fit.\<close>

definition u256_add :: "u256 \<Rightarrow> u256 \<Rightarrow> u256 option" where
  "u256_add a b = (if unat a + unat b < 2 ^ 256 then Some (a + b) else None)"

definition u256_sub :: "u256 \<Rightarrow> u256 \<Rightarrow> u256 option" where
  "u256_sub a b = (if b \<le> a then Some (a - b) else None)"

definition u256_mul :: "u256 \<Rightarrow> u256 \<Rightarrow> u256 option" where
  "u256_mul a b = (if unat a * unat b < 2 ^ 256 then Some (a * b) else None)"

definition u256_div :: "u256 \<Rightarrow> u256 \<Rightarrow> u256 option" where
  "u256_div a b = (if b = 0 then None else Some (a div b))"

definition u256_as_u64 :: "u256 \<Rightarrow> u64 option" where
  "u256_as_u64 a = (if unat a < 2 ^ 64 then Some (ucast a) else None)"

definition ceil_div_u256 :: "u256 \<Rightarrow> u256 \<Rightarrow> u256 option" where
  "ceil_div_u256 a b =
     do { s \<leftarrow> u256_add a b; t \<leftarrow> u256_sub s 1; u256_div t b }"

definition concat_and_hash :: "(u8 list \<Rightarrow> h256) \<Rightarrow> h256 \<Rightarrow> h256 \<Rightarrow> h256" where
  "concat_and_hash keccak256 hash1 hash2 = keccak256 (word_be hash1 @ word_be hash2)"

text \<open>Writing a 32-byte word at a byte offset; a slice that leaves the buffer panics.\<close>

definition write_slice :: "u8 list \<Rightarrow> nat \<Rightarrow> u8 list \<Rightarrow> u8 list option" where
  "write_slice buf off bs =
     (if off + length bs \<le> length buf
      then Some (take off buf @ bs @ drop (off + length bs) buf) else None)"

fun expand_memory_loop :: "(nat \<times> u256) list \<Rightarrow> u8 list \<Rightarrow> u8 list option" where
  "expand_memory_loop [] result = Some result"
| "expand_memory_loop ((offset, v) # packed) result =
     (case write_slice result (offset * 32) (word_be v) of
        None \<Rightarrow> None
      | Some result' \<Rightarrow> expand_memory_loop packed result')"

definition expand_memory_contents :: "(nat \<times> u256) list \<Rightarrow> nat \<Rightarrow> u8 list option" where
  "expand_memory_contents packed memory_size_bytes =
     expand_memory_loop packed (replicate memory_size_bytes 0)"

section \<open>convert.rs\<close>

definition ensure_chunkable :: "u8 list \<Rightarrow> bool" where
  "ensure_chunkable bytes = (length bytes mod 32 = 0)"

abbreviation (input) h256_to_u256 :: "h256 \<Rightarrow> u256" where
  "h256_to_u256 num \<equiv> word_from_be (word_be num)"

definition u256_to_h256 :: "u256 \<Rightarrow> h256" where
  "u256_to_h256 num = word_from_be (word_be num)"

definition address_to_h256 :: "address \<Rightarrow> h256" where
  "address_to_h256 addr = word_from_be (replicate 12 0 @ word_be addr)"

abbreviation (input) address_to_u256 :: "address \<Rightarrow> u256" where
  "address_to_u256 addr \<equiv> h256_to_u256 (address_to_h256 addr)"

definition bytes_to_chunks :: "u8 list \<Rightarrow> u8 list list option" where
  "bytes_to_chunks bytes = (if ensure_chunkable bytes then Some (chunks 32 bytes) else None)"

abbreviation (input) be_chunks_to_h256_words :: "u8 list list \<Rightarrow> h256 list" where
  "be_chunks_to_h256_words cs \<equiv> map word_from_be cs"

definition bytes_to_be_words :: "u8 list \<Rightarrow> u256 list option" where
  "bytes_to_be_words vec = (if ensure_chunkable vec then Some (map word_from_be (chunks 32 vec)) else None)"

definition be_words_to_bytes :: "u256 list \<Rightarrow> u8 list" where
  "be_words_to_bytes words = concat (map word_be words)"

definition u256_to_account_address :: "u256 \<Rightarrow> address" where
  "u256_to_account_address v = word_from_be (drop 12 (word_be v))"

abbreviation (input) h256_to_account_address :: "h256 \<Rightarrow> address" where
  "h256_to_account_address v \<equiv> word_from_be (drop 12 (word_be v))"

definition be_bytes_to_safe_address :: "u8 list \<Rightarrow> address option" where
  "be_bytes_to_safe_address bytes =
     (if length bytes < 20 then None
      else (let zero_bytes = take (length bytes - 20) bytes;
                address_bytes = drop (length bytes - 20) bytes
            in if list_ex (\<lambda>b. b \<noteq> 0) zero_bytes then None else Some (word_from_be address_bytes)))"

definition h256_to_u32 :: "h256 \<Rightarrow> u32" where
  "h256_to_u32 v = word_from_be (drop 28 (word_be v))"

definition u32_to_h256 :: "u32 \<Rightarrow> h256" where
  "u32_to_h256 v = word_from_be (replicate 28 0 @ word_be v)"

definition u256_to_bytes_be :: "u256 \<Rightarrow> u8 list" where
  "u256_to_bytes_be v = word_be v"

section \<open>bytecode.rs\<close>

abbreviation (input) MAX_BYTECODE_LENGTH_IN_WORDS :: nat where
  "MAX_BYTECODE_LENGTH_IN_WORDS \<equiv> 2 ^ 16 - 1"

abbreviation (input) MAX_BYTECODE_LENGTH_BYTES :: nat where
  "MAX_BYTECODE_LENGTH_BYTES \<equiv> MAX_BYTECODE_LENGTH_IN_WORDS * 32"

datatype InvalidBytecodeError =
    BytecodeTooLong nat nat
  | BytecodeLengthInWordsIsEven
  | BytecodeLengthIsNotDivisibleBy32

definition validate_bytecode :: "u8 list \<Rightarrow> InvalidBytecodeError + unit" where
  "validate_bytecode code =
     (let bytecode_len = length code in
      if bytecode_len > MAX_BYTECODE_LENGTH_BYTES
      then Inl (BytecodeTooLong bytecode_len MAX_BYTECODE_LENGTH_BYTES)
      else if bytecode_len mod 32 \<noteq> 0 then Inl BytecodeLengthIsNotDivisibleBy32
      else if (bytecode_len div 32) mod 2 = 0 then Inl BytecodeLengthInWordsIsEven
      else Inr ())"

text \<open>\<open>code_hash\<close> stands for \<^verbatim>\<open>zkevm_opcode_defs::utils::bytecode_to_code_hash\<close>, an error of which panics here.\<close>

definition hash_bytecode :: "(u8 list list \<Rightarrow> h256 option) \<Rightarrow> u8 list \<Rightarrow> h256 option" where
  "hash_bytecode code_hash code =
     (case bytes_to_chunks code of None \<Rightarrow> None | Some chunked_code \<Rightarrow> code_hash chunked_code)"

definition bytecode_len_in_words :: "h256 \<Rightarrow> u16" where
  "bytecode_len_in_words bytecodehash =
     word_from_be [word_be bytecodehash ! 2, word_be bytecodehash ! 3]"

definition bytecode_len_in_bytes :: "h256 \<Rightarrow> nat" where
  "bytecode_len_in_bytes bytecodehash = unat (bytecode_len_in_words bytecodehash) * 32"

section \<open>Widening and narrowing\<close>

lemma unat_ucast_64_256: "unat (ucast (w :: u64) :: u256) = unat w"
  using unsigned_less [of w, where 'a = nat] by (simp add: unsigned_ucast_eq take_bit_nat_eq_self)

lemma unat_ucast_256_64: "unat (a :: u256) < 2 ^ 64 \<Longrightarrow> unat (ucast a :: u64) = unat a"
  by (simp add: unsigned_ucast_eq take_bit_nat_eq_self)

section \<open>Rounding-up division\<close>

lemma word_minus_one_div_bound:
  fixes a b :: "'a::len word"
  assumes "a \<noteq> 0" and "b \<noteq> 0"
  shows "unat ((a - 1) div b + 1) = (unat a - 1) div unat b + 1"
proof -
  have a: "unat (a - 1) = unat a - 1" using assms(1) by (simp add: unat_minus_one)
  have pos: "0 < unat a" using assms(1) by (simp add: unat_gt_0)
  have "(unat a - 1) div unat b + 1 \<le> unat a"
    using pos div_le_dividend [of "unat a - 1" "unat b"] by linarith
  also have "unat a < 2 ^ LENGTH('a)" by (rule unsigned_less)
  finally have "unat ((a - 1) div b) + unat (1 :: 'a word) < 2 ^ LENGTH('a)"
    by (simp add: unat_div a)
  then show ?thesis by (simp add: unat_add_lem [THEN iffD1] unat_div a)
qed

lemma nat_ceil_div_Suc: "0 < (a::nat) \<Longrightarrow> 0 < b \<Longrightarrow> (a + b - 1) div b = (a - 1) div b + 1"
proof -
  assume "0 < a" "0 < b"
  then have "a + b - 1 = (a - 1) + b" by simp
  with \<open>0 < b\<close> show ?thesis by (simp only: div_add_self2)
qed

lemma ceil_div_value:
  assumes "b \<noteq> 0"
  obtains r where "ceil_div a b = Some r" and "unat r = (unat a + unat b - 1) div unat b"
proof (cases "a = 0")
  case True
  have "unat b - 1 < unat b" using assms by (simp add: unat_gt_0)
  with True show ?thesis using that [of 0] by (simp add: ceil_div_def)
next
  case False
  then have "(unat a + unat b - 1) div unat b = (unat a - 1) div unat b + 1"
    using assms by (intro nat_ceil_div_Suc) (simp_all add: unat_gt_0)
  with assms False show ?thesis
    using word_minus_one_div_bound [of a b] that by (simp add: ceil_div_def)
qed

lemma nat_ceil_le_iff: "0 < (b::nat) \<Longrightarrow> (a + b - 1) div b \<le> k \<longleftrightarrow> a \<le> k * b"
proof -
  assume b: "0 < b"
  have "(a + b - 1) div b \<le> k \<longleftrightarrow> (a + b - 1) div b < Suc k" by auto
  also have "\<dots> \<longleftrightarrow> a + b - 1 < Suc k * b" using b by (simp add: div_less_iff_less_mult)
  also have "\<dots> \<longleftrightarrow> a \<le> k * b" using b by auto
  finally show ?thesis .
qed

lemmas nat_ceil_le_iff_Suc = nat_ceil_le_iff [unfolded One_nat_def]

section \<open>Byte conversions\<close>

lemma word_be_from_be_256 [simp]: "length bs = 32 \<Longrightarrow> word_be (word_from_be bs :: u256) = bs"
  by (simp add: word_be_word_from_be)

lemma word_be_from_be_160 [simp]: "length bs = 20 \<Longrightarrow> word_be (word_from_be bs :: address) = bs"
  by (simp add: word_be_word_from_be)

lemma word_be_from_be_32 [simp]: "length bs = 4 \<Longrightarrow> word_be (word_from_be bs :: u32) = bs"
  by (simp add: word_be_word_from_be)

lemma word_be_from_be_64 [simp]: "length bs = 8 \<Longrightarrow> word_be (word_from_be bs :: u64) = bs"
  by (simp add: word_be_word_from_be)

lemma word_from_be_be_256 [simp]: "word_from_be (word_be (w :: u256)) = w"
  by (simp add: word_from_be_word_be)

lemma word_from_be_be_160 [simp]: "word_from_be (word_be (w :: address)) = w"
  by (simp add: word_from_be_word_be)

lemma word_from_be_be_64 [simp]: "word_from_be (word_be (w :: u64)) = w"
  by (simp add: word_from_be_word_be)

lemma word_from_be_be_32 [simp]: "word_from_be (word_be (w :: u32)) = w"
  by (simp add: word_from_be_word_be)

lemma word_from_be_be_16 [simp]: "word_from_be (word_be (w :: u16)) = w"
  by (simp add: word_from_be_word_be)

lemma h256_to_u256_id [simp]: "h256_to_u256 h = h"
  by simp

lemma u256_to_h256_id [simp]: "u256_to_h256 h = h"
  by (simp add: u256_to_h256_def)

lemma address_u256_roundtrip [simp]: "u256_to_account_address (address_to_u256 a) = a"
  by (simp add: u256_to_account_address_def address_to_h256_def)

lemma h256_to_u32_u32_to_h256 [simp]: "h256_to_u32 (u32_to_h256 v) = v"
  by (simp add: h256_to_u32_def u32_to_h256_def)

lemma list_ex_nonzero_iff: "\<not> list_ex (\<lambda>b. b \<noteq> 0) xs \<longleftrightarrow> xs = replicate (length xs) (0 :: u8)"
  by (auto simp: list_ex_iff replicate_length_same [symmetric] intro: replicate_eqI) (metis in_set_replicate)

lemma safe_address_iff:
  "be_bytes_to_safe_address (word_be (v :: u256)) = Some a \<longleftrightarrow> v = address_to_u256 a"
proof
  assume "be_bytes_to_safe_address (word_be v) = Some a"
  then have z: "take 12 (word_be v) = replicate 12 0" and a: "a = word_from_be (drop 12 (word_be v))"
    using list_ex_nonzero_iff [of "take 12 (word_be v)"]
    by (auto simp: be_bytes_to_safe_address_def Let_def split: if_splits)
  from a have "word_be a = drop 12 (word_be v)" by simp
  with z have "replicate 12 0 @ word_be a = word_be v" by (metis append_take_drop_id)
  then show "v = address_to_u256 a" by (simp add: address_to_h256_def)
next
  assume "v = address_to_u256 a"
  then show "be_bytes_to_safe_address (word_be v) = Some a"
    by (simp add: be_bytes_to_safe_address_def address_to_h256_def list_ex_iff)
qed

lemma chunks_be_words: "chunks 32 (be_words_to_bytes ws) = map word_be ws"
  by (induction ws) (simp_all add: be_words_to_bytes_def chunks_append)

lemma length_be_words_to_bytes: "length (be_words_to_bytes ws) = 32 * length ws"
  by (induction ws) (simp_all add: be_words_to_bytes_def)

lemma be_words_of_chunks:
  assumes "length bs mod 32 = 0"
  shows "be_words_to_bytes (map word_from_be (chunks 32 bs)) = bs"
proof -
  have "list_all (\<lambda>c. length c = 32) (chunks 32 bs)"
    using assms chunks_lengths [of 32 bs] by (simp add: dvd_eq_mod_eq_0)
  then have "map (word_be \<circ> (word_from_be :: u8 list \<Rightarrow> u256)) (chunks 32 bs) = chunks 32 bs"
    by (intro map_idI) (simp add: list_all_iff)
  then show ?thesis by (simp add: be_words_to_bytes_def concat_chunks)
qed

section \<open>Properties\<close>

text \<open>Splitting a byte string into big-endian words and joining words into bytes are inverse to
  each other: the words of a byte string exist exactly when its length is a multiple of 32, and then
  joining them gives the string back.\<close>

theorem bytes_words_roundtrip:
  "bytes_to_be_words bs = Some ws \<longleftrightarrow> bs = be_words_to_bytes ws"
proof
  assume "bytes_to_be_words bs = Some ws"
  then have "length bs mod 32 = 0" "ws = map word_from_be (chunks 32 bs)"
    by (simp_all add: bytes_to_be_words_def ensure_chunkable_def split: if_splits)
  then show "bs = be_words_to_bytes ws" by (simp add: be_words_of_chunks)
next
  assume "bs = be_words_to_bytes ws"
  then show "bytes_to_be_words bs = Some ws"
    by (simp add: bytes_to_be_words_def ensure_chunkable_def chunks_be_words
        length_be_words_to_bytes comp_def)
qed

end
