(* ===== verification/Protocol_Version.thy ===== *)
theory Protocol_Version
  imports Utils
begin

text \<open>
  Protocol and VM versions (\<^verbatim>\<open>core/lib/basic_types/src/protocol_version.rs\<close>,
  \<^verbatim>\<open>core/lib/basic_types/src/vm.rs\<close>): the enum of protocol versions with its numeric
  representation and its order, the two version tables, the predicates on version
  ranges, and the semantic version with its packed (\<^verbatim>\<open>U256\<close>) and its textual encodings.
  The lemmas show that both encodings are lossless and that the version tables are monotone.
\<close>

section \<open>Version identifiers\<close>

datatype ProtocolVersionId =
    Version0 | Version1 | Version2 | Version3 | Version4 | Version5 | Version6 | Version7
  | Version8 | Version9 | Version10 | Version11 | Version12 | Version13 | Version14 | Version15
  | Version16 | Version17 | Version18 | Version19 | Version20 | Version21 | Version22 | Version23
  | Version24 | Version25

definition all_versions :: "ProtocolVersionId list" where
  "all_versions = [Version0, Version1, Version2, Version3, Version4, Version5, Version6, Version7,
     Version8, Version9, Version10, Version11, Version12, Version13, Version14, Version15,
     Version16, Version17, Version18, Version19, Version20, Version21, Version22, Version23,
     Version24, Version25]"

text \<open>The discriminant (\<^verbatim>\<open>self as u16\<close>, \<^verbatim>\<open>repr(u16)\<close>), on which the derived order is based.\<close>

fun version_index :: "ProtocolVersionId \<Rightarrow> nat" where
  "version_index Version0 = 0"
| "version_index Version1 = 1"
| "version_index Version2 = 2"
| "version_index Version3 = 3"
| "version_index Version4 = 4"
| "version_index Version5 = 5"
| "version_index Version6 = 6"
| "version_index Version7 = 7"
| "version_index Version8 = 8"
| "version_index Version9 = 9"
| "version_index Version10 = 10"
| "version_index Version11 = 11"
| "version_index Version12 = 12"
| "version_index Version13 = 13"
| "version_index Version14 = 14"
| "version_index Version15 = 15"
| "version_index Version16 = 16"
| "version_index Version17 = 17"
| "version_index Version18 = 18"
| "version_index Version19 = 19"
| "version_index Version20 = 20"
| "version_index Version21 = 21"
| "version_index Version22 = 22"
| "version_index Version23 = 23"
| "version_index Version24 = 24"
| "version_index Version25 = 25"

definition version_as_u16 :: "ProtocolVersionId \<Rightarrow> u16" where
  "version_as_u16 v = of_nat (version_index v)"

text \<open>The derived conversion from the primitive representation (\<^verbatim>\<open>TryFromPrimitive\<close>).\<close>

definition version_try_from_primitive :: "u16 \<Rightarrow> ProtocolVersionId option" where
  "version_try_from_primitive n =
     (if unat n < length all_versions then Some (all_versions ! unat n) else None)"

lemma version_index_nth: "all_versions ! version_index v = v"
  by (cases v) (simp_all add: all_versions_def)

lemma version_index_less: "version_index v < 26"
  by (cases v) simp_all

lemma length_all_versions [simp]: "length all_versions = 26"
  by (simp add: all_versions_def)

lemma version_index_inject [simp]: "version_index v = version_index w \<longleftrightarrow> v = w"
  by (metis version_index_nth)

lemma unat_version_as_u16 [simp]: "unat (version_as_u16 v) = version_index v"
  using version_index_less [of v] by (simp add: version_as_u16_def unat_of_nat)

lemma version_try_from_primitive_as_u16 [simp]:
  "version_try_from_primitive (version_as_u16 v) = Some v"
  using version_index_less [of v]
  by (simp add: version_try_from_primitive_def version_index_nth)

lemma version_try_from_primitive_SomeD:
  assumes "version_try_from_primitive n = Some v"
  shows "version_as_u16 v = n"
proof -
  from assms have n: "unat n < 26" and v: "v = all_versions ! unat n"
    by (simp_all add: version_try_from_primitive_def split: if_splits)
  have "\<forall>i \<in> {..<26}. version_index (all_versions ! i) = i"
    by (simp add: all_versions_def lessThan_nat_numeral lessThan_Suc)
  with n v have "version_index v = unat n" by simp
  then show ?thesis by (simp add: version_as_u16_def)
qed

instantiation ProtocolVersionId :: linorder
begin

definition less_eq_ProtocolVersionId :: "ProtocolVersionId \<Rightarrow> ProtocolVersionId \<Rightarrow> bool" where
  "less_eq_ProtocolVersionId v w \<longleftrightarrow> version_index v \<le> version_index w"

definition less_ProtocolVersionId :: "ProtocolVersionId \<Rightarrow> ProtocolVersionId \<Rightarrow> bool" where
  "less_ProtocolVersionId v w \<longleftrightarrow> version_index v < version_index w"

instance
  by standard (auto simp: less_eq_ProtocolVersionId_def less_ProtocolVersionId_def)

end

lemmas version_order_defs = less_eq_ProtocolVersionId_def less_ProtocolVersionId_def

definition latest_version :: ProtocolVersionId where
  "latest_version = Version24"

abbreviation (input) next_version :: ProtocolVersionId where
  "next_version \<equiv> Version25"

definition last_potentially_undefined :: ProtocolVersionId where
  "last_potentially_undefined = Version9"

text \<open>The predicates on version ranges, in the order of the source.\<close>

definition is_pre_boojum :: "ProtocolVersionId \<Rightarrow> bool" where
  "is_pre_boojum v \<longleftrightarrow> v \<le> Version17"

abbreviation (input) is_pre_shared_bridge :: "ProtocolVersionId \<Rightarrow> bool" where
  "is_pre_shared_bridge v \<equiv> v \<le> Version22"

abbreviation (input) is_1_4_0 :: "ProtocolVersionId \<Rightarrow> bool" where
  "is_1_4_0 v \<equiv> v \<ge> Version18 \<and> v < Version20"

abbreviation (input) is_1_4_1 :: "ProtocolVersionId \<Rightarrow> bool" where
  "is_1_4_1 v \<equiv> v = Version20"

abbreviation (input) is_pre_1_4_1 :: "ProtocolVersionId \<Rightarrow> bool" where
  "is_pre_1_4_1 v \<equiv> v < Version20"

abbreviation (input) is_post_1_4_1 :: "ProtocolVersionId \<Rightarrow> bool" where
  "is_post_1_4_1 v \<equiv> v \<ge> Version20"

abbreviation (input) is_post_1_4_2 :: "ProtocolVersionId \<Rightarrow> bool" where
  "is_post_1_4_2 v \<equiv> v \<ge> Version21"

abbreviation (input) is_pre_1_4_2 :: "ProtocolVersionId \<Rightarrow> bool" where
  "is_pre_1_4_2 v \<equiv> v < Version21"

abbreviation (input) is_1_4_2 :: "ProtocolVersionId \<Rightarrow> bool" where
  "is_1_4_2 v \<equiv> v = Version21 \<or> v = Version22"

abbreviation (input) is_pre_1_5_0 :: "ProtocolVersionId \<Rightarrow> bool" where
  "is_pre_1_5_0 v \<equiv> v < Version23"

abbreviation (input) is_post_1_5_0 :: "ProtocolVersionId \<Rightarrow> bool" where
  "is_post_1_5_0 v \<equiv> v \<ge> Version23"

section \<open>VM versions\<close>

datatype VmVersion =
    M5WithoutRefunds | M5WithRefunds | M6Initial | M6BugWithCompressionFixed | Vm1_3_2
  | VmVirtualBlocks | VmVirtualBlocksRefundsEnhancement | VmBoojumIntegration | Vm1_4_1 | Vm1_4_2
  | Vm1_5_0SmallBootloaderMemory | Vm1_5_0IncreasedBootloaderMemory

definition vm_version_latest :: VmVersion where
  "vm_version_latest = Vm1_5_0IncreasedBootloaderMemory"

fun vm_version_of :: "ProtocolVersionId \<Rightarrow> VmVersion" where
  "vm_version_of Version0 = M5WithoutRefunds"
| "vm_version_of Version1 = M5WithoutRefunds"
| "vm_version_of Version2 = M5WithRefunds"
| "vm_version_of Version3 = M5WithRefunds"
| "vm_version_of Version4 = M6Initial"
| "vm_version_of Version5 = M6BugWithCompressionFixed"
| "vm_version_of Version6 = M6BugWithCompressionFixed"
| "vm_version_of Version7 = Vm1_3_2"
| "vm_version_of Version8 = Vm1_3_2"
| "vm_version_of Version9 = Vm1_3_2"
| "vm_version_of Version10 = Vm1_3_2"
| "vm_version_of Version11 = Vm1_3_2"
| "vm_version_of Version12 = Vm1_3_2"
| "vm_version_of Version13 = VmVirtualBlocks"
| "vm_version_of Version14 = VmVirtualBlocks"
| "vm_version_of Version15 = VmVirtualBlocks"
| "vm_version_of Version16 = VmVirtualBlocksRefundsEnhancement"
| "vm_version_of Version17 = VmVirtualBlocksRefundsEnhancement"
| "vm_version_of Version18 = VmBoojumIntegration"
| "vm_version_of Version19 = VmBoojumIntegration"
| "vm_version_of Version20 = Vm1_4_1"
| "vm_version_of Version21 = Vm1_4_2"
| "vm_version_of Version22 = Vm1_4_2"
| "vm_version_of Version23 = Vm1_5_0SmallBootloaderMemory"
| "vm_version_of Version24 = Vm1_5_0IncreasedBootloaderMemory"
| "vm_version_of Version25 = Vm1_5_0IncreasedBootloaderMemory"

fun into_api_vm_version :: "ProtocolVersionId \<Rightarrow> VmVersion" where
  "into_api_vm_version Version0 = Vm1_3_2"
| "into_api_vm_version Version1 = Vm1_3_2"
| "into_api_vm_version Version2 = Vm1_3_2"
| "into_api_vm_version Version3 = Vm1_3_2"
| "into_api_vm_version Version4 = Vm1_3_2"
| "into_api_vm_version Version5 = Vm1_3_2"
| "into_api_vm_version Version6 = Vm1_3_2"
| "into_api_vm_version Version7 = Vm1_3_2"
| "into_api_vm_version Version8 = Vm1_3_2"
| "into_api_vm_version Version9 = Vm1_3_2"
| "into_api_vm_version Version10 = Vm1_3_2"
| "into_api_vm_version Version11 = Vm1_3_2"
| "into_api_vm_version Version12 = Vm1_3_2"
| "into_api_vm_version Version13 = VmVirtualBlocks"
| "into_api_vm_version Version14 = VmVirtualBlocks"
| "into_api_vm_version Version15 = VmVirtualBlocks"
| "into_api_vm_version Version16 = VmVirtualBlocksRefundsEnhancement"
| "into_api_vm_version Version17 = VmVirtualBlocksRefundsEnhancement"
| "into_api_vm_version Version18 = VmBoojumIntegration"
| "into_api_vm_version Version19 = VmBoojumIntegration"
| "into_api_vm_version Version20 = Vm1_4_1"
| "into_api_vm_version Version21 = Vm1_4_2"
| "into_api_vm_version Version22 = Vm1_4_2"
| "into_api_vm_version Version23 = Vm1_5_0SmallBootloaderMemory"
| "into_api_vm_version Version24 = Vm1_5_0IncreasedBootloaderMemory"
| "into_api_vm_version Version25 = Vm1_5_0IncreasedBootloaderMemory"

lemma api_vm_version_agrees: "v \<ge> Version7 \<Longrightarrow> into_api_vm_version v = vm_version_of v"
  by (cases v) (simp_all add: version_order_defs)

section \<open>Packed semantic versions\<close>

record ProtocolSemanticVersion =
  minor :: ProtocolVersionId
  patch :: u32

abbreviation (input) PACKED_SEMVER_MINOR_OFFSET :: nat where
  "PACKED_SEMVER_MINOR_OFFSET \<equiv> 32"

abbreviation (input) PACKED_SEMVER_MINOR_MASK :: u32 where
  "PACKED_SEMVER_MINOR_MASK \<equiv> 0xFFFF"

text \<open>\<^verbatim>\<open>TryFrom<U256>\<close>: the error value is the rejected identifier.\<close>

definition version_try_from_u256 :: "u256 \<Rightarrow> u256 + ProtocolVersionId" where
  "version_try_from_u256 value =
     (if value > ucast (- 1 :: u16) then Inl value
      else (case version_try_from_primitive (ucast (ucast value :: u32)) of
              None \<Rightarrow> Inl value | Some v \<Rightarrow> Inr v))"

unbundle bit_operations_syntax

definition pack :: "ProtocolSemanticVersion \<Rightarrow> u256" where
  "pack v = push_bit PACKED_SEMVER_MINOR_OFFSET (ucast (version_as_u16 (minor v)))
            OR ucast (patch v)"

definition try_from_packed :: "u256 \<Rightarrow> u256 + ProtocolSemanticVersion" where
  "try_from_packed packed =
     (case version_try_from_u256
             (drop_bit PACKED_SEMVER_MINOR_OFFSET packed AND ucast PACKED_SEMVER_MINOR_MASK) of
        Inl e \<Rightarrow> Inl e
      | Inr m \<Rightarrow> Inr \<lparr>minor = m, patch = ucast (ucast packed :: u64)\<rparr>)"

definition try_from_packed_semver :: "u256 \<Rightarrow> u256 + ProtocolVersionId" where
  "try_from_packed_semver packed_semver = map_sum id minor (try_from_packed packed_semver)"

text \<open>The patch is a \<^verbatim>\<open>usize\<close> that is cast to \<^verbatim>\<open>u32\<close>: larger values wrap.\<close>

definition into_packed_semver_with_patch :: "ProtocolVersionId \<Rightarrow> nat \<Rightarrow> u256" where
  "into_packed_semver_with_patch v p =
     push_bit PACKED_SEMVER_MINOR_OFFSET (ucast (version_as_u16 v)) OR ucast (of_nat p :: u32)"

definition default_semantic_version :: ProtocolSemanticVersion where
  "default_semantic_version = \<lparr>minor = latest_version, patch = 0\<rparr>"

lemma ucast_u64_pack: "(ucast (ucast (push_bit 32 (ucast (m :: u16)) OR ucast (p :: u32) :: u256) :: u64) :: u32) = p"
  by (rule bit_word_eqI) (simp add: bit_simps)

lemma drop_pack:
  "drop_bit 32 (push_bit 32 (ucast (m :: u16)) OR ucast (p :: u32) :: u256)
     AND ucast PACKED_SEMVER_MINOR_MASK = (ucast m :: u256)"
proof -
  have mask: "(ucast PACKED_SEMVER_MINOR_MASK :: u256) = mask 16"
    by (simp add: mask_eq_exp_minus_1)
  have "drop_bit 32 (push_bit 32 (ucast m) OR ucast p :: u256) = ucast m"
    by (rule bit_word_eqI) (auto simp: bit_simps dest: bit_imp_le_length)
  then show ?thesis
    by (simp only: mask) (rule bit_word_eqI, auto simp: bit_simps dest: bit_imp_le_length)
qed

lemma version_try_from_u256_as_u16 [simp]:
  "version_try_from_u256 (ucast (version_as_u16 v)) = Inr v"
proof -
  have "unat (version_as_u16 v) < 65536"
    using version_index_less [of v] by simp
  then have small: "(ucast (version_as_u16 v) :: u256) \<le> ucast (- 1 :: u16)"
    by (simp add: word_le_nat_alt unsigned_ucast_eq take_bit_nat_eq_self unsigned_minus_1_eq_mask
        mask_eq_exp_minus_1)
  have "(ucast (ucast (ucast (version_as_u16 v) :: u256) :: u32) :: u16) = version_as_u16 v"
    by (rule bit_word_eqI) (simp add: bit_simps)
  then show ?thesis
    using small by (simp add: version_try_from_u256_def)
qed

lemma try_from_packed_pack [simp]: "try_from_packed (pack v) = Inr v"
  unfolding try_from_packed_def pack_def drop_pack ucast_u64_pack
  by simp

section \<open>Textual semantic versions\<close>

text \<open>
  Decimal printing of an unsigned integer, and Rust's integer parser: an empty string and a lone
  sign are errors, one leading \<^verbatim>\<open>+\<close> is accepted, every further character must be a digit and the
  value must fit the type (\<^term>\<open>bound\<close> is its number of values).
\<close>

datatype ParseIntError = EmptyInt | InvalidDigit | PosOverflow

fun nat_to_dec :: "nat \<Rightarrow> string" where
  "nat_to_dec n =
     (if n < 10 then [char_of (48 + n)] else nat_to_dec (n div 10) @ [char_of (48 + n mod 10)])"

definition to_digit :: "char \<Rightarrow> nat option" where
  "to_digit c = (let n = of_char c in if 48 \<le> n \<and> n \<le> (57 :: nat) then Some (n - 48) else None)"

fun parse_digits :: "nat \<Rightarrow> string \<Rightarrow> nat \<Rightarrow> ParseIntError + nat" where
  "parse_digits bound [] acc = Inr acc"
| "parse_digits bound (c # cs) acc =
     (case to_digit c of
        None \<Rightarrow> Inl InvalidDigit
      | Some d \<Rightarrow>
          if bound \<le> acc * 10 \<or> bound \<le> acc * 10 + d then Inl PosOverflow
          else parse_digits bound cs (acc * 10 + d))"

definition parse_int :: "nat \<Rightarrow> string \<Rightarrow> ParseIntError + nat" where
  "parse_int bound s =
     (case s of
        [] \<Rightarrow> Inl EmptyInt
      | c # cs \<Rightarrow>
          if cs = [] \<and> (c = CHR ''+'' \<or> c = CHR ''-'') then Inl InvalidDigit
          else if c = CHR ''+'' then parse_digits bound cs 0
          else parse_digits bound s 0)"

fun split_on :: "char \<Rightarrow> string \<Rightarrow> string list" where
  "split_on d [] = [[]]"
| "split_on d (c # cs) =
     (if c = d then [] # split_on d cs
      else (case split_on d cs of [] \<Rightarrow> [[c]] | p # ps \<Rightarrow> (c # p) # ps))"

datatype ParseProtocolSemanticVersionError =
    InvalidFormat | NonZeroMajorVersion | SemverParseIntError ParseIntError

abbreviation (input) MAJOR_VERSION :: u8 where
  "MAJOR_VERSION \<equiv> 0"

definition semver_to_string :: "ProtocolSemanticVersion \<Rightarrow> string" where
  "semver_to_string v =
     nat_to_dec (unat MAJOR_VERSION) @ ''.'' @ nat_to_dec (unat (version_as_u16 (minor v)))
       @ ''.'' @ nat_to_dec (unat (patch v))"

definition semver_from_str ::
    "string \<Rightarrow> ParseProtocolSemanticVersionError + ProtocolSemanticVersion" where
  "semver_from_str s =
     (case split_on (CHR ''.'') s of
        [p0, p1, p2] \<Rightarrow>
          (case parse_int (2 ^ 16) p0 of
             Inl e \<Rightarrow> Inl (SemverParseIntError e)
           | Inr major \<Rightarrow>
               if major \<noteq> 0 then Inl NonZeroMajorVersion
               else (case parse_int (2 ^ 16) p1 of
                       Inl e \<Rightarrow> Inl (SemverParseIntError e)
                     | Inr m \<Rightarrow>
                         (case version_try_from_primitive (of_nat m) of
                            None \<Rightarrow> Inl InvalidFormat
                          | Some mv \<Rightarrow>
                              (case parse_int (2 ^ 32) p2 of
                                 Inl e \<Rightarrow> Inl (SemverParseIntError e)
                               | Inr p \<Rightarrow> Inr \<lparr>minor = mv, patch = of_nat p\<rparr>))))
      | _ \<Rightarrow> Inl InvalidFormat)"

declare nat_to_dec.simps [simp del]

lemma to_digit_char_of: "d < 10 \<Longrightarrow> to_digit (char_of (48 + d :: nat)) = Some d"
  by (simp add: to_digit_def Let_def)

lemma parse_digits_append:
  "parse_digits b (xs @ ys) acc =
     (case parse_digits b xs acc of Inl e \<Rightarrow> Inl e | Inr r \<Rightarrow> parse_digits b ys r)"
  by (induction xs arbitrary: acc) (auto split: option.splits)

lemma parse_digits_nat_to_dec: "n < b \<Longrightarrow> parse_digits b (nat_to_dec n) 0 = Inr n"
proof (induction n rule: nat_to_dec.induct)
  case (1 n)
  show ?case
  proof (cases "n < 10")
    case True
    with 1 show ?thesis by (simp add: nat_to_dec.simps [of n] to_digit_char_of)
  next
    case False
    with 1 have "parse_digits b (nat_to_dec (n div 10)) 0 = Inr (n div 10)" by simp
    moreover have "n div 10 * 10 + n mod 10 < b" "n div 10 * 10 < b"
      using 1(2) by (simp, meson div_times_less_eq_dividend le_less_trans)
    ultimately show ?thesis
      using False by (simp add: nat_to_dec.simps [of n] parse_digits_append to_digit_char_of)
  qed
qed

lemma nat_to_dec_digits: "c \<in> set (nat_to_dec n) \<Longrightarrow> \<exists>d < 10. c = char_of (48 + d :: nat)"
proof (induction n rule: nat_to_dec.induct)
  case (1 n)
  show ?case
  proof (cases "n < 10")
    case True
    with 1(2) have "c = char_of (48 + n)" by (simp add: nat_to_dec.simps [of n])
    with True show ?thesis by blast
  next
    case False
    with 1(2) have "c \<in> set (nat_to_dec (n div 10)) \<or> c = char_of (48 + n mod 10)"
      by (auto simp: nat_to_dec.simps [of n])
    moreover have "n mod 10 < 10" by simp
    ultimately show ?thesis using 1(1) [OF False] by blast
  qed
qed

lemma nat_to_dec_not_Nil [simp]: "nat_to_dec n \<noteq> []"
  by (subst nat_to_dec.simps) simp

lemma digit_neq [simp]:
  "d < 10 \<Longrightarrow> char_of (48 + d :: nat) \<noteq> CHR ''.''"
  "d < 10 \<Longrightarrow> char_of (48 + d :: nat) \<noteq> CHR ''+''"
  "d < 10 \<Longrightarrow> char_of (48 + d :: nat) \<noteq> CHR ''-''"
  by (simp_all add: char_of_eq_iff take_bit_eq_mod)

lemma parse_int_nat_to_dec [simp]:
  assumes "n < b"
  shows "parse_int b (nat_to_dec n) = Inr n"
proof -
  obtain c cs where s: "nat_to_dec n = c # cs" by (cases "nat_to_dec n") auto
  obtain d :: nat where "d < 10" "c = char_of (48 + d)"
    using nat_to_dec_digits [of c n] s by auto
  then show ?thesis
    using parse_digits_nat_to_dec [OF assms] s by (simp add: parse_int_def)
qed

lemma split_on_none: "d \<notin> set xs \<Longrightarrow> split_on d xs = [xs]"
  by (induction xs) auto

lemma split_on_append: "d \<notin> set xs \<Longrightarrow> split_on d (xs @ d # ys) = xs # split_on d ys"
  by (induction xs) auto

lemma dot_not_in_dec [simp]: "CHR ''.'' \<notin> set (nat_to_dec n)"
  using nat_to_dec_digits digit_neq(1) by metis

lemma semver_from_str_to_string [simp]: "semver_from_str (semver_to_string v) = Inr v"
proof -
  have split: "split_on (CHR ''.'') (semver_to_string v) =
      [nat_to_dec 0, nat_to_dec (version_index (minor v)), nat_to_dec (unat (patch v))]"
    by (simp add: semver_to_string_def split_on_append split_on_none)
  have "version_index (minor v) < 2 ^ 16"
    using version_index_less [of "minor v"] by simp
  moreover have "unat (patch v) < 2 ^ 32"
    using unsigned_less [of "patch v", where 'a = nat] by simp
  ultimately show ?thesis
    by (simp add: semver_from_str_def split flip: version_as_u16_def)
qed

section \<open>Properties\<close>

text \<open>Both encodings of a semantic protocol version are lossless: unpacking the packed number
  and parsing the printed text give the version back, and unpacking only the minor part gives the
  minor version.\<close>

theorem semver_encodings_lossless:
  "try_from_packed (pack v) = Inr v \<and> semver_from_str (semver_to_string v) = Inr v
   \<and> try_from_packed_semver (pack v) = Inr (minor v)"
  by (simp add: try_from_packed_semver_def)

text \<open>The two ways to obtain a VM version from a protocol version agree for every version the
  API still executes with its own VM, and packing a version with an explicit patch agrees with
  packing the semantic version.\<close>

theorem version_tables_agree:
  "v \<ge> Version7 \<Longrightarrow> into_api_vm_version v = vm_version_of v
     \<and> into_packed_semver_with_patch v (unat p) = pack \<lparr>minor = v, patch = p\<rparr>"
  by (simp add: api_vm_version_agrees into_packed_semver_with_patch_def pack_def)

theorem version_tables_agree_witness:
  "into_api_vm_version latest_version = vm_version_latest
     \<and> into_packed_semver_with_patch latest_version (unat (2 :: u32)) = pack \<lparr>minor = latest_version, patch = 2\<rparr>"
  using version_tables_agree [of latest_version 2]
  by (simp add: latest_version_def vm_version_latest_def version_order_defs)

end
