(* ===== verification/Transactions.thy ===== *)
theory Transactions
  imports Utils
begin

text \<open>
  Transactions as the node passes them around (\<^verbatim>\<open>core/lib/types\<close>): the fee and execute data, the
  common data of L1 (priority), L2 and protocol-upgrade transactions, the sum type
  \<open>ExecuteTransactionCommon\<close> and the accessors of \<open>Transaction\<close>, \<open>L1Tx\<close> and \<open>L2Tx\<close>.
  Field names carry a short prefix of their struct, since HOL record fields share one name space.
\<close>

section \<open>Data\<close>

record Fee =
  gas_limit :: u256
  max_fee_per_gas :: u256
  max_priority_fee_per_gas :: u256
  gas_per_pubdata_limit :: u256

record Execute =
  contract_address :: address
  calldata :: "u8 list"
  execute_value :: u256
  factory_deps :: "u8 list list"

record InputData =
  input_hash :: h256
  input_bytes :: "u8 list"

record PaymasterParams =
  paymaster :: address
  paymaster_input :: "u8 list"

datatype TransactionType =
    LegacyTransaction | EIP2930Transaction | EIP1559Transaction | EIP712Transaction
  | PriorityOpTransaction | ProtocolUpgradeTransaction

datatype OpProcessingType = Common | OnlyRollup

datatype PriorityQueueType = Deque | HeapBuffer | Heap

record L1TxCommonData =
  l1_sender :: address
  serial_id :: u64
  layer_2_tip_fee :: u256
  full_fee :: u256
  l1_max_fee_per_gas :: u256
  l1_gas_limit :: u256
  l1_gas_per_pubdata_limit :: u256
  op_processing_type :: OpProcessingType
  priority_queue_type :: PriorityQueueType
  canonical_tx_hash :: h256
  to_mint :: u256
  refund_recipient :: address
  eth_block :: u64

record L2TxCommonData =
  l2_nonce :: u32
  l2_fee :: Fee
  initiator_address :: address
  signature :: "u8 list"
  transaction_type :: TransactionType
  input :: "InputData option"
  paymaster_params :: PaymasterParams

record ProtocolUpgradeTxCommonData =
  upgrade_sender :: address
  upgrade_id :: nat
  upgrade_max_fee_per_gas :: u256
  upgrade_gas_limit :: u256
  upgrade_gas_per_pubdata_limit :: u256
  upgrade_eth_block :: u64
  upgrade_canonical_tx_hash :: h256
  upgrade_to_mint :: u256
  upgrade_refund_recipient :: address

datatype ExecuteTransactionCommon =
    L1 L1TxCommonData
  | L2 L2TxCommonData
  | ProtocolUpgrade ProtocolUpgradeTxCommonData

record Transaction =
  common_data :: ExecuteTransactionCommon
  execute :: Execute
  received_timestamp_ms :: u64
  raw_bytes :: "u8 list option"

record L1Tx =
  l1_execute :: Execute
  l1_common_data :: L1TxCommonData
  l1_received_timestamp_ms :: u64

record L2Tx =
  l2_execute :: Execute
  l2_common_data :: L2TxCommonData
  l2_received_timestamp_ms :: u64
  l2_raw_bytes :: "u8 list option"

section \<open>Accessors of \<open>Transaction\<close>\<close>

definition tx_nonce :: "Transaction \<Rightarrow> u32 option" where
  "tx_nonce tx = (case common_data tx of
      L1 _ \<Rightarrow> None
    | L2 d \<Rightarrow> Some (l2_nonce d)
    | ProtocolUpgrade _ \<Rightarrow> None)"

abbreviation (input) is_l1 :: "Transaction \<Rightarrow> bool" where
  "is_l1 tx \<equiv> (case common_data tx of L1 _ \<Rightarrow> True | _ \<Rightarrow> False)"

definition tx_format :: "Transaction \<Rightarrow> TransactionType" where
  "tx_format tx = (case common_data tx of
      L1 _ \<Rightarrow> PriorityOpTransaction
    | L2 d \<Rightarrow> transaction_type d
    | ProtocolUpgrade _ \<Rightarrow> ProtocolUpgradeTransaction)"

text \<open>The hash of an L2 transaction panics when the transaction has no input data.\<close>

definition l2_hash :: "L2TxCommonData \<Rightarrow> h256 option" where
  "l2_hash d = map_option input_hash (input d)"

definition tx_hash :: "Transaction \<Rightarrow> h256 option" where
  "tx_hash tx = (case common_data tx of
      L1 d \<Rightarrow> Some (canonical_tx_hash d)
    | L2 d \<Rightarrow> l2_hash d
    | ProtocolUpgrade d \<Rightarrow> Some (upgrade_canonical_tx_hash d))"

definition initiator_account :: "Transaction \<Rightarrow> address" where
  "initiator_account tx = (case common_data tx of
      L1 d \<Rightarrow> l1_sender d
    | L2 d \<Rightarrow> initiator_address d
    | ProtocolUpgrade d \<Rightarrow> upgrade_sender d)"

definition payer :: "Transaction \<Rightarrow> address" where
  "payer tx = (case common_data tx of
      L1 d \<Rightarrow> l1_sender d
    | L2 d \<Rightarrow>
        (let p = paymaster (paymaster_params d)
         in if p = 0 then initiator_address d else p)
    | ProtocolUpgrade d \<Rightarrow> upgrade_sender d)"

definition tx_gas_limit :: "Transaction \<Rightarrow> u256" where
  "tx_gas_limit tx = (case common_data tx of
      L1 d \<Rightarrow> l1_gas_limit d
    | L2 d \<Rightarrow> gas_limit (l2_fee d)
    | ProtocolUpgrade d \<Rightarrow> upgrade_gas_limit d)"

definition tx_max_fee_per_gas :: "Transaction \<Rightarrow> u256" where
  "tx_max_fee_per_gas tx = (case common_data tx of
      L1 d \<Rightarrow> l1_max_fee_per_gas d
    | L2 d \<Rightarrow> max_fee_per_gas (l2_fee d)
    | ProtocolUpgrade d \<Rightarrow> upgrade_max_fee_per_gas d)"

definition gas_per_pubdata_byte_limit :: "Transaction \<Rightarrow> u256" where
  "gas_per_pubdata_byte_limit tx = (case common_data tx of
      L1 d \<Rightarrow> l1_gas_per_pubdata_limit d
    | L2 d \<Rightarrow> gas_per_pubdata_limit (l2_fee d)
    | ProtocolUpgrade d \<Rightarrow> upgrade_gas_per_pubdata_limit d)"

section \<open>Fees and encoding length\<close>

abbreviation (input) max_total_fee :: "Fee \<Rightarrow> u256 option" where
  "max_total_fee f \<equiv> u256_mul (max_fee_per_gas f) (gas_limit f)"

definition get_effective_gas_price :: "Fee \<Rightarrow> u256 \<Rightarrow> u256 option" where
  "get_effective_gas_price f block_base_fee_per_gas =
     (if \<not> block_base_fee_per_gas \<le> max_fee_per_gas f then None
      else if \<not> max_priority_fee_per_gas f \<le> max_fee_per_gas f then None
      else Some block_base_fee_per_gas)"

definition encoding_len :: "u64 \<Rightarrow> u64 \<Rightarrow> u64 \<Rightarrow> u64 \<Rightarrow> u64 \<Rightarrow> nat option" where
  "encoding_len data_len signature_len factory_deps_len paymaster_input_len reserved_dynamic_len =
     do { d \<leftarrow> ceil_div data_len 32;
          s \<leftarrow> ceil_div signature_len 32;
          p \<leftarrow> ceil_div paymaster_input_len 32;
          r \<leftarrow> ceil_div reserved_dynamic_len 32;
          Some (1 + 19 + 5 + unat (d + s + p + r + factory_deps_len)) }"

definition tx_encoding_len :: "Transaction \<Rightarrow> nat option" where
  "tx_encoding_len tx =
     (let data_len = length (calldata (execute tx));
          factory_deps_len = length (factory_deps (execute tx));
          (signature_len, paymaster_input_len) =
            (case common_data tx of
               L1 _ \<Rightarrow> (0, 0)
             | L2 d \<Rightarrow> (length (signature d), length (paymaster_input (paymaster_params d)))
             | ProtocolUpgrade _ \<Rightarrow> (0, 0))
      in encoding_len (of_nat data_len) (of_nat signature_len) (of_nat factory_deps_len)
           (of_nat paymaster_input_len) 0)"

section \<open>Conversions between transaction types\<close>

definition l1_into_transaction :: "L1Tx \<Rightarrow> Transaction" where
  "l1_into_transaction tx =
     \<lparr>common_data = L1 (l1_common_data tx), execute = l1_execute tx,
      received_timestamp_ms = l1_received_timestamp_ms tx, raw_bytes = None\<rparr>"

definition l1_try_from_transaction :: "Transaction \<Rightarrow> string + L1Tx" where
  "l1_try_from_transaction t = (case common_data t of
      L1 d \<Rightarrow> Inr \<lparr>l1_execute = execute t, l1_common_data = d,
                   l1_received_timestamp_ms = received_timestamp_ms t\<rparr>
    | L2 _ \<Rightarrow> Inl ''Cannot convert L2Tx to L1Tx''
    | ProtocolUpgrade _ \<Rightarrow> Inl ''Cannot convert ProtocolUpgradeTx to L1Tx'')"

definition l2_into_transaction :: "L2Tx \<Rightarrow> Transaction" where
  "l2_into_transaction tx =
     \<lparr>common_data = L2 (l2_common_data tx), execute = l2_execute tx,
      received_timestamp_ms = l2_received_timestamp_ms tx, raw_bytes = l2_raw_bytes tx\<rparr>"

definition l2_initiator_account :: "L2Tx \<Rightarrow> address" where
  "l2_initiator_account tx = initiator_address (l2_common_data tx)"

lemmas tx_access_defs =
  tx_nonce_def initiator_account_def l1_into_transaction_def l2_into_transaction_def
  l2_initiator_account_def

end
