(* ===== verification/Float64.thy ===== *)
theory Float64
  imports Prelude
begin

text \<open>
  The part of IEEE double arithmetic that the node uses on prices and limits: a finite,
  non-negative \<^verbatim>\<open>f64\<close> is represented by its exact value (a rational); a conversion from \<^verbatim>\<open>u64\<close>
  and a product are the exact results rounded to 53 significant bits, ties to even; the cast to
  an integer type truncates and saturates.  The exponent range is not bounded: no value the code
  forms from a \<^verbatim>\<open>u64\<close> and a configured factor comes near its ends.
\<close>

section \<open>Rounding to 53 significant bits\<close>

definition round_half_even :: "rat \<Rightarrow> int" where
  "round_half_even x =
     (let n = \<lfloor>x\<rfloor>; d = x - of_int n
      in if d < 1 / 2 then n else if d > 1 / 2 then n + 1 else if even n then n else n + 1)"

definition rat_log2 :: "rat \<Rightarrow> int" where
  "rat_log2 x =
     (let (p, q) = quotient_of x; k = int (nat_bits (nat p)) - int (nat_bits (nat q))
      in if 2 powi k \<le> x then k else k - 1)"

definition f64_round :: "rat \<Rightarrow> rat" where
  "f64_round x =
     (if x \<le> 0 then 0
      else let e = rat_log2 x - 52 in of_int (round_half_even (x / 2 powi e)) * 2 powi e)"

definition f64_of_nat :: "nat \<Rightarrow> rat" where
  "f64_of_nat n = f64_round (of_nat n)"

definition f64_mul :: "rat \<Rightarrow> rat \<Rightarrow> rat" where
  "f64_mul x y = f64_round (x * y)"

text \<open>\<^verbatim>\<open>as u64\<close> and \<^verbatim>\<open>as usize\<close> (64 bits), and \<^verbatim>\<open>f64::round\<close>, which rounds half away from zero.\<close>

definition f64_to_u64 :: "rat \<Rightarrow> u64" where
  "f64_to_u64 x = of_nat (min (nat \<lfloor>x\<rfloor>) (2 ^ 64 - 1))"

definition f64_round_int :: "rat \<Rightarrow> rat" where
  "f64_round_int x = of_int \<lfloor>x + 1 / 2\<rfloor>"

text \<open>\<^verbatim>\<open>as u32\<close>, and the single precision arithmetic of the circuit counts: sums rounded to 24 significant
  bits, and the rounding up to an integer that saturates at the size of \<^verbatim>\<open>usize\<close>.\<close>

definition f32_round :: "rat \<Rightarrow> rat" where
  "f32_round x =
     (if x \<le> 0 then 0
      else let e = rat_log2 x - 23 in of_int (round_half_even (x / 2 powi e)) * 2 powi e)"

definition f32_add :: "rat \<Rightarrow> rat \<Rightarrow> rat" where
  "f32_add x y = f32_round (x + y)"

definition f32_ceil_to_usize :: "rat \<Rightarrow> nat" where
  "f32_ceil_to_usize x = min (nat \<lceil>x\<rceil>) (2 ^ 64 - 1)"

definition f64_to_u32 :: "rat \<Rightarrow> u32" where
  "f64_to_u32 x = of_nat (min (nat \<lfloor>x\<rfloor>) (2 ^ 32 - 1))"

section \<open>Exactness on small integers\<close>

lemma round_half_even_of_int [simp]: "round_half_even (of_int n) = n"
  by (simp add: round_half_even_def)

lemma round_half_even_nonneg: "0 \<le> x \<Longrightarrow> 0 \<le> round_half_even x"
  by (simp add: round_half_even_def Let_def)

lemma nat_bits_1 [simp]: "nat_bits 1 = 1" "nat_bits (Suc 0) = 1"
  using nat_bits_le_iff [of 1 0] nat_bits_le_iff [of 1 1] by (simp_all add: le_Suc_eq)

lemma rat_log2_of_nat_le:
  assumes "0 < n" "n < 2 ^ b"
  shows "rat_log2 (of_nat n) < int b"
proof -
  have q: "quotient_of (of_nat n) = (int n, 1)"
    using quotient_of_int [of "int n"] by simp
  have "nat_bits n \<le> b" using assms(2) by (simp add: nat_bits_le_iff)
  show ?thesis
  proof (cases "nat_bits n = b")
    case True
    have "(of_nat n :: rat) < 2 ^ b" using assms(2) by (metis of_nat_less_iff of_nat_numeral of_nat_power)
    moreover have "(2 :: rat) ^ b = 2 * 2 powi (int b - 1)"
      by (simp add: power_int_diff)
    moreover have "b \<noteq> 0" using assms by (cases b) auto
    ultimately show ?thesis
      using True q by (simp add: rat_log2_def Let_def power_int_def nat_diff_distrib
          split: if_splits)
  next
    case False
    with \<open>nat_bits n \<le> b\<close> show ?thesis by (simp add: rat_log2_def Let_def q)
  qed
qed

lemma f64_of_nat_exact:
  assumes "n < 2 ^ 53"
  shows "f64_of_nat n = of_nat n"
proof (cases "n = 0")
  case False
  define e where "e = rat_log2 (of_nat n) - 52"
  have "e \<le> 0" using rat_log2_of_nat_le [of n 53] False assms by (simp add: e_def)
  then obtain k :: nat where k: "e = - int k" by (metis nonpos_int_cases)
  have x: "(of_nat n :: rat) / 2 powi e = of_int (int n * 2 ^ k)"
    by (simp add: k power_int_minus field_simps)
  have "f64_of_nat n = of_int (round_half_even (of_nat n / 2 powi e)) * 2 powi e"
    using False unfolding f64_of_nat_def f64_round_def Let_def e_def by simp
  also have "\<dots> = of_int (int n * 2 ^ k) * 2 powi e"
    unfolding x round_half_even_of_int ..
  also have "\<dots> = of_nat n" by (simp add: k power_int_minus)
  finally show ?thesis .
qed (simp add: f64_of_nat_def f64_round_def)

lemma f64_of_nat_0 [simp]: "f64_of_nat 0 = 0"
  by (simp add: f64_of_nat_def f64_round_def)

lemma f64_mul_0 [simp]: "f64_mul 0 y = 0" "f64_mul x 0 = 0"
  by (simp_all add: f64_mul_def f64_round_def)

lemma f64_to_u64_0 [simp]: "f64_to_u64 0 = 0"
  by (simp add: f64_to_u64_def)

lemma f64_to_u64_of_nat: "n < 2 ^ 64 \<Longrightarrow> f64_to_u64 (of_nat n) = of_nat n"
  by (simp add: f64_to_u64_def min_def)

text \<open>Multiplying by the factor \<open>1.0\<close> changes no value that a double represents exactly.\<close>

lemma f64_scale_one:
  assumes "n < 2 ^ 53"
  shows "f64_to_u64 (f64_mul (f64_of_nat n) 1) = of_nat n"
proof -
  have "f64_mul (f64_of_nat n) 1 = of_nat n"
    using f64_of_nat_exact [OF assms] by (simp add: f64_mul_def) (simp add: f64_of_nat_def)
  with assms show ?thesis by (simp add: f64_to_u64_of_nat)
qed

section \<open>Shares\<close>

lemma round_half_even_le:
  assumes "x \<le> of_int n"
  shows "round_half_even x \<le> n"
proof (cases "x = of_int n")
  case False
  then have "\<lfloor>x\<rfloor> < n" using assms by (simp add: floor_less_iff)
  then show ?thesis by (simp add: round_half_even_def Let_def)
qed simp

lemma nat_bits_bounds:
  assumes "0 < n"
  shows "2 ^ (nat_bits n - 1) \<le> n" "n < 2 ^ nat_bits n"
proof -
  show "n < 2 ^ nat_bits n" using nat_bits_le_iff [of n "nat_bits n"] by simp
  have "nat_bits n \<noteq> 0" using nat_bits_le_iff [of n 0] assms by auto
  then have "\<not> nat_bits n \<le> nat_bits n - 1" by simp
  then show "2 ^ (nat_bits n - 1) \<le> n" by (simp only: nat_bits_le_iff not_less)
qed

lemma rat_log2_le:
  assumes "0 < x"
  shows "2 powi rat_log2 x \<le> x"
proof -
  obtain p q where pq: "quotient_of x = (p, q)" by fastforce
  have q: "0 < q" and x: "x = of_int p / of_int q"
    using quotient_of_denom_pos [OF pq] quotient_of_div [OF pq] by auto
  then have p: "0 < p" using assms by (simp add: zero_less_divide_iff)
  define a b where "a = nat_bits (nat p)" and "b = nat_bits (nat q)"
  have "2 ^ (a - 1) \<le> nat p" "nat q < 2 ^ b" "a \<noteq> 0"
    using nat_bits_bounds [of "nat p"] nat_bits_bounds [of "nat q"] nat_bits_le_iff [of "nat p" 0] p q
    by (auto simp: a_def b_def)
  then have pa: "(2 :: rat) ^ (a - 1) \<le> of_int p" and qb: "(of_int q :: rat) \<le> 2 ^ b"
    using p q by (auto simp: nat_le_iff le_nat_iff zless_nat_eq_int_zless dest!: less_imp_le)
  have "(2 :: rat) powi (int a - int b - 1) * of_int q \<le> 2 powi (int a - int b - 1) * 2 ^ b"
    using qb by (intro mult_left_mono) simp_all
  also have "\<dots> = 2 ^ (a - 1)"
    using \<open>a \<noteq> 0\<close> by (cases a) (simp_all add: power_int_diff)
  also note pa
  finally have "2 powi (int a - int b - 1) \<le> x"
    using q by (simp add: x pos_le_divide_eq)
  then show ?thesis by (simp add: rat_log2_def pq Let_def flip: a_def b_def)
qed

lemma f64_round_le:
  assumes "x \<le> of_nat n" "n < 2 ^ 53"
  shows "f64_round x \<le> of_nat n"
proof (cases "x \<le> 0")
  case False
  define e where "e = rat_log2 x - 52"
  have "(2 :: rat) powi rat_log2 x < 2 powi 53"
  proof -
    have "2 powi rat_log2 x \<le> (of_nat n :: rat)" using rat_log2_le [of x] False assms(1) by simp
    also have "\<dots> < 2 ^ 53" using assms(2) by (metis of_nat_less_iff of_nat_numeral of_nat_power)
    finally show ?thesis by simp
  qed
  then have "rat_log2 x < 53" 
    by (meson linorder_not_less not_less_iff_gr_or_eq one_le_numeral power_int_increasing)
  then have "e \<le> 0" by (simp add: e_def)
  then obtain k :: nat where k: "e = - int k" by (metis nonpos_int_cases)
  have "x / 2 powi e \<le> of_int (int n * 2 ^ k)"
    using assms(1) by (simp add: k power_int_minus field_simps)
  then have "round_half_even (x / 2 powi e) \<le> int n * 2 ^ k" by (rule round_half_even_le)
  then have "(of_int (round_half_even (x / 2 powi e)) :: rat) * 2 powi e \<le> of_int (int n * 2 ^ k) * 2 powi e"
    by (intro mult_right_mono) (simp_all only: of_int_le_iff zero_le_power_int zero_le_numeral)
  also have "\<dots> = of_nat n" by (simp add: k power_int_minus)
  finally show ?thesis using False by (simp add: f64_round_def e_def Let_def)
qed (simp add: f64_round_def)

text \<open>A share of at most one of an integer, rounded to an integer, does not exceed it.\<close>

lemma f64_share_le:
  assumes "pct \<le> 1" "n < 2 ^ 53"
  shows "nat \<lfloor>f64_round_int (f64_mul (f64_of_nat n) pct)\<rfloor> \<le> n"
proof -
  have "f64_mul (of_nat n) pct \<le> of_nat n"
    unfolding f64_mul_def using assms by (intro f64_round_le mult_left_le) auto
  then have "\<lfloor>f64_mul (f64_of_nat n) pct + 1 / 2\<rfloor> \<le> int n"
    using assms(2) by (simp add: f64_of_nat_exact floor_le_iff)
  then show ?thesis by (simp add: f64_round_int_def nat_le_iff)
qed

lemma f64_share_u64:
  assumes "pct \<le> 1" "n < 2 ^ 53"
  shows "unat (f64_to_u64 (f64_round_int (f64_mul (f64_of_nat n) pct))) \<le> n"
  using f64_share_le [OF assms] assms(2) by (simp add: f64_to_u64_def unat_of_nat)

lemma f64_share_u32:
  assumes "pct \<le> 1"
  shows "f64_to_u32 (f64_round_int (f64_mul (f64_of_nat (unat n)) pct)) \<le> (n :: u32)"
proof -
  have "unat n < 2 ^ LENGTH(32)" by (rule unsigned_less)
  then have "unat n < 2 ^ 53" by simp
  from f64_share_le [OF assms this] show ?thesis
    by (simp add: f64_to_u32_def word_le_nat_alt unat_of_nat)
qed

end
