(* ===== verification/Fee_Model.thy ===== *)
theory Fee_Model
  imports Protocol_Version Float64
begin

text \<open>
  The batch fee model: the fee input handed to the VM, the two versions of the fee parameters
  (\<^verbatim>\<open>core/lib/types/src/fee_model.rs\<close>) and the providers that compute a fee input from them
  (\<^verbatim>\<open>core/node/fee_model/src/lib.rs\<close>).

  Doubles are those of theory \<open>Float64\<close>. The base token conversion goes through the
  \<^verbatim>\<open>bigdecimal\<close> crate: the quotient of two decimals and the truncation to \<^verbatim>\<open>u64\<close> are parameters
  (\<open>bd_div\<close>, \<open>bd_to_u64\<close>). The estimates of the gas adjuster and the conversion ratio are
  arguments of \<open>get_fee_model_params\<close>.
\<close>

section \<open>Batch fee input\<close>

record L1PeggedBatchFeeModelInput =
  pegged_fair_l2_gas_price :: u64
  pegged_l1_gas_price :: u64

record PubdataIndependentBatchFeeModelInput =
  pi_fair_l2_gas_price :: u64
  pi_fair_pubdata_price :: u64
  pi_l1_gas_price :: u64

datatype BatchFeeInput =
    L1Pegged L1PeggedBatchFeeModelInput
  | PubdataIndependent PubdataIndependentBatchFeeModelInput

abbreviation (input) L1_GAS_PER_PUBDATA_BYTE :: u32 where
  "L1_GAS_PER_PUBDATA_BYTE \<equiv> 17"

definition l1_pegged :: "u64 \<Rightarrow> u64 \<Rightarrow> BatchFeeInput" where
  "l1_pegged l1 l2 = L1Pegged \<lparr>pegged_fair_l2_gas_price = l2, pegged_l1_gas_price = l1\<rparr>"

definition pubdata_independent :: "u64 \<Rightarrow> u64 \<Rightarrow> u64 \<Rightarrow> BatchFeeInput" where
  "pubdata_independent l1 l2 pubdata =
     PubdataIndependent \<lparr>pi_fair_l2_gas_price = l2, pi_fair_pubdata_price = pubdata,
                         pi_l1_gas_price = l1\<rparr>"

definition sensible_l1_pegged_default :: BatchFeeInput where
  "sensible_l1_pegged_default =
     L1Pegged \<lparr>pegged_fair_l2_gas_price = 100000000, pegged_l1_gas_price = 1000000000\<rparr>"

definition batch_fee_input_default :: BatchFeeInput where
  "batch_fee_input_default = L1Pegged \<lparr>pegged_fair_l2_gas_price = 0, pegged_l1_gas_price = 0\<rparr>"

fun into_l1_pegged :: "BatchFeeInput \<Rightarrow> L1PeggedBatchFeeModelInput option" where
  "into_l1_pegged (L1Pegged input) = Some input"
| "into_l1_pegged (PubdataIndependent _) = None"

fun fair_pubdata_price :: "BatchFeeInput \<Rightarrow> u64" where
  "fair_pubdata_price (L1Pegged input) =
     pegged_l1_gas_price input * ucast L1_GAS_PER_PUBDATA_BYTE"
| "fair_pubdata_price (PubdataIndependent input) = pi_fair_pubdata_price input"

fun fair_l2_gas_price :: "BatchFeeInput \<Rightarrow> u64" where
  "fair_l2_gas_price (L1Pegged input) = pegged_fair_l2_gas_price input"
| "fair_l2_gas_price (PubdataIndependent input) = pi_fair_l2_gas_price input"

fun l1_gas_price :: "BatchFeeInput \<Rightarrow> u64" where
  "l1_gas_price (L1Pegged input) = pegged_l1_gas_price input"
| "l1_gas_price (PubdataIndependent input) = pi_l1_gas_price input"

fun into_pubdata_independent :: "BatchFeeInput \<Rightarrow> PubdataIndependentBatchFeeModelInput" where
  "into_pubdata_independent (PubdataIndependent input) = input"
| "into_pubdata_independent (L1Pegged input) =
     \<lparr>pi_fair_l2_gas_price = pegged_fair_l2_gas_price input,
      pi_fair_pubdata_price = pegged_l1_gas_price input * ucast L1_GAS_PER_PUBDATA_BYTE,
      pi_l1_gas_price = pegged_l1_gas_price input\<rparr>"

definition for_protocol_version ::
    "ProtocolVersionId \<Rightarrow> u64 \<Rightarrow> u64 option \<Rightarrow> u64 \<Rightarrow> BatchFeeInput option" where
  "for_protocol_version version l2 pubdata l1 =
     (if is_post_1_4_1 version
      then (case pubdata of
              None \<Rightarrow> None
            | Some p \<Rightarrow> Some (PubdataIndependent
                \<lparr>pi_fair_l2_gas_price = l2, pi_fair_pubdata_price = p, pi_l1_gas_price = l1\<rparr>))
      else Some (L1Pegged \<lparr>pegged_fair_l2_gas_price = l2, pegged_l1_gas_price = l1\<rparr>))"

definition stricter :: "BatchFeeInput \<Rightarrow> BatchFeeInput \<Rightarrow> BatchFeeInput" where
  "stricter a b =
     (case (a, b) of
        (L1Pegged first, L1Pegged second) \<Rightarrow>
          l1_pegged (max (pegged_l1_gas_price first) (pegged_l1_gas_price second))
                    (max (pegged_fair_l2_gas_price first) (pegged_fair_l2_gas_price second))
      | _ \<Rightarrow>
          (let first = into_pubdata_independent a; second = into_pubdata_independent b
           in pubdata_independent
                (max (pi_l1_gas_price first) (pi_l1_gas_price second))
                (max (pi_fair_l2_gas_price first) (pi_fair_l2_gas_price second))
                (max (pi_fair_pubdata_price first) (pi_fair_pubdata_price second))))"

section \<open>Configuration and parameters\<close>

record FeeModelConfigV1 =
  v1_minimal_l2_gas_price :: u64

record FeeModelConfigV2 =
  v2_minimal_l2_gas_price :: u64
  compute_overhead_part :: rat
  pubdata_overhead_part :: rat
  batch_overhead_l1_gas :: u64
  max_gas_per_batch :: u64
  max_pubdata_per_batch :: u64

datatype FeeModelConfig = ConfigV1 FeeModelConfigV1 | ConfigV2 FeeModelConfigV2

datatype FeeModelVersion = FeeModelV1 | FeeModelV2

text \<open>The fields of \<^verbatim>\<open>StateKeeperConfig\<close> that the fee model reads.\<close>

record StateKeeperFeeConfig =
  skc_fee_model_version :: FeeModelVersion
  skc_minimal_l2_gas_price :: u64
  skc_compute_overhead_part :: rat
  skc_pubdata_overhead_part :: rat
  skc_batch_overhead_l1_gas :: u64
  skc_max_gas_per_batch :: u64
  skc_max_pubdata_per_batch :: u64

definition fee_model_config_default :: FeeModelConfig where
  "fee_model_config_default = ConfigV1 \<lparr>v1_minimal_l2_gas_price = 100000000\<rparr>"

definition from_state_keeper_config :: "StateKeeperFeeConfig \<Rightarrow> FeeModelConfig" where
  "from_state_keeper_config c =
     (case skc_fee_model_version c of
        FeeModelV1 \<Rightarrow> ConfigV1 \<lparr>v1_minimal_l2_gas_price = skc_minimal_l2_gas_price c\<rparr>
      | FeeModelV2 \<Rightarrow> ConfigV2
          \<lparr>v2_minimal_l2_gas_price = skc_minimal_l2_gas_price c,
           compute_overhead_part = skc_compute_overhead_part c,
           pubdata_overhead_part = skc_pubdata_overhead_part c,
           batch_overhead_l1_gas = skc_batch_overhead_l1_gas c,
           max_gas_per_batch = skc_max_gas_per_batch c,
           max_pubdata_per_batch = skc_max_pubdata_per_batch c\<rparr>)"

record BaseTokenConversionRatio =
  numerator :: u64
  denominator :: u64

definition conversion_ratio_default :: BaseTokenConversionRatio where
  "conversion_ratio_default = \<lparr>numerator = 1, denominator = 1\<rparr>"

record FeeParamsV1 =
  fp1_config :: FeeModelConfigV1
  fp1_l1_gas_price :: u64

record FeeParamsV2 =
  fp2_config :: FeeModelConfigV2
  fp2_l1_gas_price :: u64
  fp2_l1_pubdata_price :: u64
  conversion_ratio :: BaseTokenConversionRatio

datatype FeeParams = ParamsV1 FeeParamsV1 | ParamsV2 FeeParamsV2

text \<open>The two operations of the decimal crate that the conversion uses.\<close>

record bigdecimal =
  bd_div :: "nat \<Rightarrow> nat \<Rightarrow> rat"
  bd_to_u64 :: "rat \<Rightarrow> u64 option"

definition fee_params_v2_new ::
    "FeeModelConfigV2 \<Rightarrow> u64 \<Rightarrow> u64 \<Rightarrow> BaseTokenConversionRatio \<Rightarrow> FeeParamsV2" where
  "fee_params_v2_new c gas pubdata r =
     \<lparr>fp2_config = c, fp2_l1_gas_price = gas, fp2_l1_pubdata_price = pubdata,
      conversion_ratio = r\<rparr>"

definition convert_to_base_token :: "bigdecimal \<Rightarrow> FeeParamsV2 \<Rightarrow> u64 \<Rightarrow> u64 option" where
  "convert_to_base_token bd p price_in_wei =
     (let ratio = bd_div bd (unat (numerator (conversion_ratio p)))
                            (unat (denominator (conversion_ratio p)));
          converted = of_nat (unat price_in_wei) * ratio
      in case bd_to_u64 bd converted of
           Some v \<Rightarrow> Some v
         | None \<Rightarrow> if converted > of_nat (unat (- 1 :: u64)) then Some (- 1) else None)"

definition params_config :: "bigdecimal \<Rightarrow> FeeParamsV2 \<Rightarrow> FeeModelConfigV2 option" where
  "params_config bd p =
     map_option (\<lambda>m. (fp2_config p)\<lparr>v2_minimal_l2_gas_price := m\<rparr>)
       (convert_to_base_token bd p (v2_minimal_l2_gas_price (fp2_config p)))"

definition params_l1_gas_price :: "bigdecimal \<Rightarrow> FeeParamsV2 \<Rightarrow> u64 option" where
  "params_l1_gas_price bd p = convert_to_base_token bd p (fp2_l1_gas_price p)"

definition params_l1_pubdata_price :: "bigdecimal \<Rightarrow> FeeParamsV2 \<Rightarrow> u64 option" where
  "params_l1_pubdata_price bd p = convert_to_base_token bd p (fp2_l1_pubdata_price p)"

definition sensible_v1_default :: FeeParams where
  "sensible_v1_default =
     ParamsV1 \<lparr>fp1_config = \<lparr>v1_minimal_l2_gas_price = 100000000\<rparr>, fp1_l1_gas_price = 1000000000\<rparr>"

section \<open>Fee input providers\<close>

text \<open>\<^verbatim>\<open>(price as f64 * factor) as u64\<close>\<close>

definition scale_price :: "u64 \<Rightarrow> rat \<Rightarrow> u64" where
  "scale_price price factor = f64_to_u64 (f64_mul (f64_of_nat (unat price)) factor)"

definition get_fee_model_params ::
    "FeeModelConfig \<Rightarrow> u64 \<Rightarrow> u64 \<Rightarrow> BaseTokenConversionRatio \<Rightarrow> FeeParams" where
  "get_fee_model_params config gas_estimate pubdata_estimate ratio =
     (case config of
        ConfigV1 c \<Rightarrow> ParamsV1 \<lparr>fp1_config = c, fp1_l1_gas_price = gas_estimate\<rparr>
      | ConfigV2 c \<Rightarrow> ParamsV2 (fee_params_v2_new c gas_estimate pubdata_estimate ratio))"

definition compute_batch_fee_model_input_v1 ::
    "FeeParamsV1 \<Rightarrow> rat \<Rightarrow> L1PeggedBatchFeeModelInput" where
  "compute_batch_fee_model_input_v1 params l1_gas_price_scale_factor =
     \<lparr>pegged_fair_l2_gas_price = v1_minimal_l2_gas_price (fp1_config params),
      pegged_l1_gas_price = scale_price (fp1_l1_gas_price params) l1_gas_price_scale_factor\<rparr>"

definition compute_batch_fee_model_input_v2 ::
    "bigdecimal \<Rightarrow> FeeParamsV2 \<Rightarrow> rat \<Rightarrow> rat \<Rightarrow> PubdataIndependentBatchFeeModelInput option" where
  "compute_batch_fee_model_input_v2 bd params gas_factor pubdata_factor =
     do { config \<leftarrow> params_config bd params;
          l1_gas \<leftarrow> params_l1_gas_price bd params;
          l1_pubdata \<leftarrow> params_l1_pubdata_price bd params;
          let l1_gas = scale_price l1_gas gas_factor;
          let l1_pubdata = scale_price l1_pubdata pubdata_factor;
          l1_batch_overhead_wei \<leftarrow>
            u256_mul (ucast l1_gas) (ucast (batch_overhead_l1_gas config));
          per_gas \<leftarrow> ceil_div_u256 l1_batch_overhead_wei (ucast (max_gas_per_batch config));
          per_gas64 \<leftarrow> u256_as_u64 per_gas;
          let gas_overhead_wei = scale_price per_gas64 (compute_overhead_part config);
          let fair_l2 = v2_minimal_l2_gas_price config + gas_overhead_wei;
          per_pubdata \<leftarrow>
            ceil_div_u256 l1_batch_overhead_wei (ucast (max_pubdata_per_batch config));
          per_pubdata64 \<leftarrow> u256_as_u64 per_pubdata;
          let pubdata_overhead_wei = scale_price per_pubdata64 (pubdata_overhead_part config);
          let fair_pubdata = l1_pubdata + pubdata_overhead_wei;
          Some \<lparr>pi_fair_l2_gas_price = fair_l2, pi_fair_pubdata_price = fair_pubdata,
                pi_l1_gas_price = l1_gas\<rparr> }"

abbreviation (input) MAXIMUM_L2_GAS_PRICE :: u64 where
  "MAXIMUM_L2_GAS_PRICE \<equiv> 10000000000000"

abbreviation (input) MAXIMUM_PUBDATA_PRICE :: u64 where
  "MAXIMUM_PUBDATA_PRICE \<equiv> 1000000000000000"

definition clip_batch_fee_model_input_v2 ::
    "PubdataIndependentBatchFeeModelInput \<Rightarrow> PubdataIndependentBatchFeeModelInput" where
  "clip_batch_fee_model_input_v2 fee_model =
     \<lparr>pi_fair_l2_gas_price =
        (if pi_fair_l2_gas_price fee_model < MAXIMUM_L2_GAS_PRICE
         then pi_fair_l2_gas_price fee_model else MAXIMUM_L2_GAS_PRICE),
      pi_fair_pubdata_price =
        (if pi_fair_pubdata_price fee_model < MAXIMUM_PUBDATA_PRICE
         then pi_fair_pubdata_price fee_model else MAXIMUM_PUBDATA_PRICE),
      pi_l1_gas_price = pi_l1_gas_price fee_model\<rparr>"

definition get_batch_fee_input_scaled ::
    "bigdecimal \<Rightarrow> FeeParams \<Rightarrow> rat \<Rightarrow> rat \<Rightarrow> BatchFeeInput option" where
  "get_batch_fee_input_scaled bd params gas_factor pubdata_factor =
     (case params of
        ParamsV1 p \<Rightarrow> Some (L1Pegged (compute_batch_fee_model_input_v1 p gas_factor))
      | ParamsV2 p \<Rightarrow>
          map_option (\<lambda>i. PubdataIndependent (clip_batch_fee_model_input_v2 i))
            (compute_batch_fee_model_input_v2 bd p gas_factor pubdata_factor))"

definition get_batch_fee_input :: "bigdecimal \<Rightarrow> FeeParams \<Rightarrow> BatchFeeInput option" where
  "get_batch_fee_input bd params = get_batch_fee_input_scaled bd params 1 1"

text \<open>
  The provider of the API combines the projected input (\<open>inner\<close>) with the one of the last sealed
  L2 block (\<^term>\<open>None\<close> before the first block), both read before the combination.
\<close>

definition api_get_batch_fee_input_scaled ::
    "BatchFeeInput option \<Rightarrow> BatchFeeInput option \<Rightarrow> BatchFeeInput option" where
  "api_get_batch_fee_input_scaled inner last_l2_block_fee_input =
     map_option (\<lambda>inner_input.
         case last_l2_block_fee_input of
           Some header_input \<Rightarrow> stricter inner_input header_input
         | None \<Rightarrow> inner_input) inner"

section \<open>Lemmas\<close>

lemma fair_pubdata_price_independent [simp]:
  "pi_fair_pubdata_price (into_pubdata_independent i) = fair_pubdata_price i"
  "pi_fair_l2_gas_price (into_pubdata_independent i) = fair_l2_gas_price i"
  "pi_l1_gas_price (into_pubdata_independent i) = l1_gas_price i"
  by (cases i; simp)+

lemma stricter_l2_l1:
  "fair_l2_gas_price (stricter a b) = max (fair_l2_gas_price a) (fair_l2_gas_price b)"
  "l1_gas_price (stricter a b) = max (l1_gas_price a) (l1_gas_price b)"
  by (cases a; cases b; simp add: stricter_def l1_pegged_def pubdata_independent_def)+

lemma clip_min:
  "pi_fair_l2_gas_price (clip_batch_fee_model_input_v2 i) =
     min (pi_fair_l2_gas_price i) MAXIMUM_L2_GAS_PRICE"
  "pi_fair_pubdata_price (clip_batch_fee_model_input_v2 i) =
     min (pi_fair_pubdata_price i) MAXIMUM_PUBDATA_PRICE"
  by (auto simp: clip_batch_fee_model_input_v2_def min_def)

lemma word_max_mult:
  fixes a b :: u64
  assumes "unat a * 17 < 2 ^ 64" "unat b * 17 < 2 ^ 64"
  shows "max a b * 17 = max (a * 17) (b * 17)"
proof -
  have "unat (a * 17) = unat a * 17" "unat (b * 17) = unat b * 17"
    using assms by (simp_all add: unat_word_ariths)
  then have "a * 17 \<le> b * 17 \<longleftrightarrow> a \<le> b" by (simp add: word_le_nat_alt)
  then show ?thesis by (simp add: max_def)
qed

lemma stricter_pubdata:
  assumes "unat (l1_gas_price a) * 17 < 2 ^ 64" "unat (l1_gas_price b) * 17 < 2 ^ 64"
  shows "fair_pubdata_price (stricter a b) = max (fair_pubdata_price a) (fair_pubdata_price b)"
  using assms word_max_mult [of "l1_gas_price a" "l1_gas_price b"]
  by (cases a; cases b)
    (simp_all add: stricter_def l1_pegged_def pubdata_independent_def)

section \<open>Properties\<close>

text \<open>The provider of the API never quotes less than the projected fee input nor less than the
  one of the last sealed L2 block: each of the three prices it returns is the larger of the two
  sources, whichever of the two input formats they have, provided the L1 gas prices are small enough
  for the derived pubdata price to fit 64 bits.\<close>

theorem api_fee_input_dominates:
  assumes "unat (l1_gas_price inner) * 17 < 2 ^ 64" "unat (l1_gas_price sealed) * 17 < 2 ^ 64"
  shows "\<exists>r. api_get_batch_fee_input_scaled (Some inner) (Some sealed) = Some r
    \<and> fair_l2_gas_price r = max (fair_l2_gas_price inner) (fair_l2_gas_price sealed)
    \<and> fair_pubdata_price r = max (fair_pubdata_price inner) (fair_pubdata_price sealed)
    \<and> l1_gas_price r = max (l1_gas_price inner) (l1_gas_price sealed)"
  using stricter_pubdata [OF assms]
  by (simp add: api_get_batch_fee_input_scaled_def stricter_l2_l1)

theorem api_fee_input_dominates_witness:
  "\<exists>r. api_get_batch_fee_input_scaled (Some (l1_pegged 10 100)) (Some (pubdata_independent 20 50 900))
         = Some r
    \<and> fair_l2_gas_price r = 100 \<and> fair_pubdata_price r = 900 \<and> l1_gas_price r = 20"
  using api_fee_input_dominates [of "l1_pegged 10 100" "pubdata_independent 20 50 900"]
  by (simp add: l1_pegged_def pubdata_independent_def max_def)

text \<open>The decimal operations computed exactly, as an instance of the parameter.\<close>

definition exact_decimal :: bigdecimal where
  "exact_decimal =
     \<lparr>bd_div = (\<lambda>p q. of_nat p / of_nat q),
      bd_to_u64 = (\<lambda>x. if 0 \<le> x \<and> x < 2 ^ 64 then Some (of_nat (nat \<lfloor>x\<rfloor>)) else None)\<rparr>"

definition saturating_params :: FeeParamsV2 where
  "saturating_params =
     \<lparr>fp2_config = \<lparr>v2_minimal_l2_gas_price = 2 ^ 63, compute_overhead_part = 1,
        pubdata_overhead_part = 1, batch_overhead_l1_gas = 1, max_gas_per_batch = 1,
        max_pubdata_per_batch = 1\<rparr>,
      fp2_l1_gas_price = 1, fp2_l1_pubdata_price = 1,
      conversion_ratio = \<lparr>numerator = 4, denominator = 1\<rparr>\<rparr>"

lemma scale_price_one:
  assumes "unat p < 2 ^ 53"
  shows "scale_price p 1 = p"
  using f64_scale_one [OF assms] by (simp add: scale_price_def)


end
