(* ===== verification/Vm_Fees.thy ===== *)
theory Vm_Fees
  imports Fee_Model
begin

text \<open>
  The version-independent interface of the VM crate to fees and limits
  (\<^verbatim>\<open>core/lib/multivm/src/utils/mod.rs\<close>) together with the functions of every VM version it
  dispatches to: the base fee and the gas per pubdata byte derived from a batch fee input, the base
  fee of a batch, the adjustment of a fee input to the limits of a transaction, and the tables of
  limits.

  What the versions have in common is the locale \<open>pubdata_fee\<close>; its lemmas (the derivation never
  fails, it never exceeds the version's maximal gas per pubdata byte, and the price of a pubdata byte
  is always covered) are proved once and every version is an interpretation.
\<close>

section \<open>Batch environment\<close>

record L2BlockEnv =
  l2_block_env_number :: u32
  l2_block_env_timestamp :: u64
  l2_block_env_prev_block_hash :: h256
  l2_block_env_max_virtual_blocks_to_create :: u32

record L1BatchEnv =
  previous_batch_hash :: "h256 option"
  l1_batch_number :: u32
  l1_batch_timestamp :: u64
  fee_input :: BatchFeeInput
  fee_account :: address
  enforced_base_fee :: "u64 option"
  first_l2_block :: L2BlockEnv

section \<open>The contract of a fee derivation\<close>

locale pubdata_fee =
  fixes max_gas_per_pubdata_byte :: u64
    and l2_price :: "'i \<Rightarrow> u64"
    and pubdata_price :: "'i \<Rightarrow> u64"
    and derive :: "'i \<Rightarrow> (u64 \<times> u64) option"
  assumes max_nonzero: "max_gas_per_pubdata_byte \<noteq> 0"
    and derive_eq: "derive i =
      do { floor_fee \<leftarrow> ceil_div (pubdata_price i) max_gas_per_pubdata_byte;
           let base_fee = max (l2_price i) floor_fee;
           gas_per_pubdata \<leftarrow> ceil_div (pubdata_price i) base_fee;
           Some (base_fee, gas_per_pubdata) }"
begin

lemma derive_total:
  obtains b g where "derive i = Some (b, g)"
    and "unat b = max (unat (l2_price i))
           ((unat (pubdata_price i) + unat max_gas_per_pubdata_byte - 1)
              div unat max_gas_per_pubdata_byte)"
    and "unat g = (if b = 0 then 0 else (unat (pubdata_price i) + unat b - 1) div unat b)"
    and "b = 0 \<Longrightarrow> pubdata_price i = 0"
proof -
  let ?m = max_gas_per_pubdata_byte
  obtain c where c: "ceil_div (pubdata_price i) ?m = Some c"
    and uc: "unat c = (unat (pubdata_price i) + unat ?m - 1) div unat ?m"
    using ceil_div_value [OF max_nonzero] .
  define b where "b = max (l2_price i) c"
  have ub: "unat b = max (unat (l2_price i)) (unat c)"
    by (auto simp: b_def max_def word_le_nat_alt)
  have m: "0 < unat ?m" using max_nonzero by (simp add: unat_gt_0)
  have zero: "pubdata_price i = 0" if "b = 0"
  proof -
    have "unat c \<le> 0" using ub that by simp
    then have "unat (pubdata_price i) \<le> 0 * unat ?m"
      using nat_ceil_le_iff [OF m] uc by metis
    then show ?thesis by (simp add: unat_eq_zero)
  qed
  show thesis
  proof (cases "b = 0")
    case True
    with zero c b_def show ?thesis
      using that [of b 0] ub uc by (simp add: derive_eq ceil_div_def)
  next
    case False
    then obtain g where "ceil_div (pubdata_price i) b = Some g"
      and "unat g = (unat (pubdata_price i) + unat b - 1) div unat b"
      using ceil_div_value by blast
    with False c show ?thesis using that [of b g] ub uc by (simp add: derive_eq b_def)
  qed
qed

lemma derive_gas_le_max:
  assumes "derive i = Some (b, g)"
  shows "g \<le> max_gas_per_pubdata_byte"
proof -
  let ?m = max_gas_per_pubdata_byte and ?p = "unat (pubdata_price i)"
  have m: "0 < unat ?m" using max_nonzero by (simp add: unat_gt_0)
  obtain ub: "(?p + unat ?m - 1) div unat ?m \<le> unat b"
    and ug: "unat g = (if b = 0 then 0 else (?p + unat b - 1) div unat b)"
    using derive_total [of i] assms by (metis (lifting) max.cobounded2 option.inject prod.inject)
  have "?p \<le> unat ?m * unat b"
    using ub nat_ceil_le_iff [OF m] by (simp add: mult.commute)
  then have "unat g \<le> unat ?m"
    using ug by (cases "b = 0") (simp_all add: nat_ceil_le_iff_Suc unat_gt_0)
  then show ?thesis by (simp add: word_le_nat_alt)
qed

lemma derive_covers_price:
  assumes "derive i = Some (b, g)"
  shows "unat (pubdata_price i) \<le> unat g * unat b"
proof (cases "b = 0")
  case True
  with derive_total [of i] assms show ?thesis
    by (metis (lifting) le0 option.inject prod.inject unat_0)
next
  case False
  have "unat g = (unat (pubdata_price i) + unat b - 1) div unat b"
    using derive_total [of i] assms False by (metis (lifting) option.inject prod.inject)
  then show ?thesis
    using nat_ceil_le_iff [of "unat b"] False by (metis order_refl unat_gt_0)
qed

lemma derive_base_fee_ge:
  assumes "derive i = Some (b, g)"
  shows "l2_price i \<le> b"
  using derive_total [of i] assms
  by (metis (lifting) max.cobounded1 option.inject prod.inject word_le_nat_alt)

text \<open>A pubdata price that \<open>k\<close> gas of the L2 price pay for leaves the base fee at the L2 price.\<close>

lemma derive_of_cheap_pubdata:
  assumes "unat (pubdata_price i) \<le> k * unat (l2_price i)" "k \<le> unat max_gas_per_pubdata_byte"
  obtains g where "derive i = Some (l2_price i, g)" "unat g \<le> k"
proof -
  let ?m = max_gas_per_pubdata_byte
  have m: "0 < unat ?m" using max_nonzero by (simp add: unat_gt_0)
  obtain b g where d: "derive i = Some (b, g)"
    and ub: "unat b = max (unat (l2_price i))
           ((unat (pubdata_price i) + unat ?m - 1) div unat ?m)"
    and ug: "unat g = (if b = 0 then 0 else (unat (pubdata_price i) + unat b - 1) div unat b)"
    by (rule derive_total [of i])
  have "unat (pubdata_price i) \<le> unat (l2_price i) * unat ?m"
    using assms by (metis dual_order.trans mult.commute mult_le_mono2)
  then have "(unat (pubdata_price i) + unat ?m - 1) div unat ?m \<le> unat (l2_price i)"
    by (simp only: nat_ceil_le_iff [OF m])
  with ub have b: "b = l2_price i" by (simp add: word_unat_eq_iff)
  have "unat g \<le> k"
    using ug b assms(1) by (cases "b = 0") (simp_all add: nat_ceil_le_iff_Suc unat_gt_0)
  with d b show thesis using that by simp
qed

end

section \<open>Versions with an L1-pegged pubdata price\<close>

abbreviation (input) MAX_L2_TX_GAS_LIMIT :: u64 where
  "MAX_L2_TX_GAS_LIMIT \<equiv> 80000000"

abbreviation (input) m5_MAX_GAS_PER_PUBDATA_BYTE :: u64 where
  "m5_MAX_GAS_PER_PUBDATA_BYTE \<equiv> MAX_L2_TX_GAS_LIMIT div 4000"

abbreviation (input) m5_eth_price_per_pubdata_byte :: "u64 \<Rightarrow> u64" where
  "m5_eth_price_per_pubdata_byte l1_price \<equiv> l1_price * ucast L1_GAS_PER_PUBDATA_BYTE"

abbreviation (input) m5_base_fee_to_gas_per_pubdata :: "u64 \<Rightarrow> u64 \<Rightarrow> u64 option" where
  "m5_base_fee_to_gas_per_pubdata l1_price base_fee \<equiv>
     ceil_div (m5_eth_price_per_pubdata_byte l1_price) base_fee"

definition m5_derive_base_fee_and_gas_per_pubdata ::
    "L1PeggedBatchFeeModelInput \<Rightarrow> (u64 \<times> u64) option" where
  "m5_derive_base_fee_and_gas_per_pubdata i =
     do { floor_fee \<leftarrow> ceil_div (m5_eth_price_per_pubdata_byte (pegged_l1_gas_price i))
                               m5_MAX_GAS_PER_PUBDATA_BYTE;
          let base_fee = max (pegged_fair_l2_gas_price i) floor_fee;
          gas_per_pubdata \<leftarrow> m5_base_fee_to_gas_per_pubdata (pegged_l1_gas_price i) base_fee;
          Some (base_fee, gas_per_pubdata) }"

definition m5_get_batch_base_fee :: "L1BatchEnv \<Rightarrow> u64 option" where
  "m5_get_batch_base_fee env =
     (case enforced_base_fee env of
        Some base_fee \<Rightarrow> Some base_fee
      | None \<Rightarrow>
          do { i \<leftarrow> into_l1_pegged (fee_input env);
               (base_fee, _) \<leftarrow> m5_derive_base_fee_and_gas_per_pubdata i;
               Some base_fee })"

abbreviation (input) m6_MAX_GAS_PER_PUBDATA_BYTE :: u64 where
  "m6_MAX_GAS_PER_PUBDATA_BYTE \<equiv> MAX_L2_TX_GAS_LIMIT div 4000"

abbreviation (input) m6_eth_price_per_pubdata_byte :: "u64 \<Rightarrow> u64" where
  "m6_eth_price_per_pubdata_byte l1_price \<equiv> l1_price * ucast L1_GAS_PER_PUBDATA_BYTE"

abbreviation (input) m6_base_fee_to_gas_per_pubdata :: "u64 \<Rightarrow> u64 \<Rightarrow> u64 option" where
  "m6_base_fee_to_gas_per_pubdata l1_price base_fee \<equiv>
     ceil_div (m6_eth_price_per_pubdata_byte l1_price) base_fee"

definition m6_derive_base_fee_and_gas_per_pubdata ::
    "L1PeggedBatchFeeModelInput \<Rightarrow> (u64 \<times> u64) option" where
  "m6_derive_base_fee_and_gas_per_pubdata i =
     do { floor_fee \<leftarrow> ceil_div (m6_eth_price_per_pubdata_byte (pegged_l1_gas_price i))
                               m6_MAX_GAS_PER_PUBDATA_BYTE;
          let base_fee = max (pegged_fair_l2_gas_price i) floor_fee;
          gas_per_pubdata \<leftarrow> m6_base_fee_to_gas_per_pubdata (pegged_l1_gas_price i) base_fee;
          Some (base_fee, gas_per_pubdata) }"

definition m6_get_batch_base_fee :: "L1BatchEnv \<Rightarrow> u64 option" where
  "m6_get_batch_base_fee env =
     (case enforced_base_fee env of
        Some base_fee \<Rightarrow> Some base_fee
      | None \<Rightarrow>
          do { i \<leftarrow> into_l1_pegged (fee_input env);
               (base_fee, _) \<leftarrow> m6_derive_base_fee_and_gas_per_pubdata i;
               Some base_fee })"

abbreviation (input) vm_1_3_2_MAX_GAS_PER_PUBDATA_BYTE :: u64 where
  "vm_1_3_2_MAX_GAS_PER_PUBDATA_BYTE \<equiv> MAX_L2_TX_GAS_LIMIT div 4000"

abbreviation (input) vm_1_3_2_eth_price_per_pubdata_byte :: "u64 \<Rightarrow> u64" where
  "vm_1_3_2_eth_price_per_pubdata_byte l1_price \<equiv> l1_price * ucast L1_GAS_PER_PUBDATA_BYTE"

abbreviation (input) vm_1_3_2_base_fee_to_gas_per_pubdata :: "u64 \<Rightarrow> u64 \<Rightarrow> u64 option" where
  "vm_1_3_2_base_fee_to_gas_per_pubdata l1_price base_fee \<equiv>
     ceil_div (vm_1_3_2_eth_price_per_pubdata_byte l1_price) base_fee"

definition vm_1_3_2_derive_base_fee_and_gas_per_pubdata ::
    "L1PeggedBatchFeeModelInput \<Rightarrow> (u64 \<times> u64) option" where
  "vm_1_3_2_derive_base_fee_and_gas_per_pubdata i =
     do { floor_fee \<leftarrow> ceil_div (vm_1_3_2_eth_price_per_pubdata_byte (pegged_l1_gas_price i))
                               vm_1_3_2_MAX_GAS_PER_PUBDATA_BYTE;
          let base_fee = max (pegged_fair_l2_gas_price i) floor_fee;
          gas_per_pubdata \<leftarrow> vm_1_3_2_base_fee_to_gas_per_pubdata (pegged_l1_gas_price i) base_fee;
          Some (base_fee, gas_per_pubdata) }"

definition vm_1_3_2_get_batch_base_fee :: "L1BatchEnv \<Rightarrow> u64 option" where
  "vm_1_3_2_get_batch_base_fee env =
     (case enforced_base_fee env of
        Some base_fee \<Rightarrow> Some base_fee
      | None \<Rightarrow>
          do { i \<leftarrow> into_l1_pegged (fee_input env);
               (base_fee, _) \<leftarrow> vm_1_3_2_derive_base_fee_and_gas_per_pubdata i;
               Some base_fee })"

abbreviation (input) virtual_blocks_MAX_GAS_PER_PUBDATA_BYTE :: u64 where
  "virtual_blocks_MAX_GAS_PER_PUBDATA_BYTE \<equiv> MAX_L2_TX_GAS_LIMIT div 4000"

abbreviation (input) virtual_blocks_eth_price_per_pubdata_byte :: "u64 \<Rightarrow> u64" where
  "virtual_blocks_eth_price_per_pubdata_byte l1_price \<equiv> l1_price * ucast L1_GAS_PER_PUBDATA_BYTE"

abbreviation (input) virtual_blocks_base_fee_to_gas_per_pubdata :: "u64 \<Rightarrow> u64 \<Rightarrow> u64 option" where
  "virtual_blocks_base_fee_to_gas_per_pubdata l1_price base_fee \<equiv>
     ceil_div (virtual_blocks_eth_price_per_pubdata_byte l1_price) base_fee"

definition virtual_blocks_derive_base_fee_and_gas_per_pubdata ::
    "L1PeggedBatchFeeModelInput \<Rightarrow> (u64 \<times> u64) option" where
  "virtual_blocks_derive_base_fee_and_gas_per_pubdata i =
     do { floor_fee \<leftarrow> ceil_div (virtual_blocks_eth_price_per_pubdata_byte (pegged_l1_gas_price i))
                               virtual_blocks_MAX_GAS_PER_PUBDATA_BYTE;
          let base_fee = max (pegged_fair_l2_gas_price i) floor_fee;
          gas_per_pubdata \<leftarrow> virtual_blocks_base_fee_to_gas_per_pubdata (pegged_l1_gas_price i) base_fee;
          Some (base_fee, gas_per_pubdata) }"

definition virtual_blocks_get_batch_base_fee :: "L1BatchEnv \<Rightarrow> u64 option" where
  "virtual_blocks_get_batch_base_fee env =
     (case enforced_base_fee env of
        Some base_fee \<Rightarrow> Some base_fee
      | None \<Rightarrow>
          do { i \<leftarrow> into_l1_pegged (fee_input env);
               (base_fee, _) \<leftarrow> virtual_blocks_derive_base_fee_and_gas_per_pubdata i;
               Some base_fee })"

abbreviation (input) refunds_enhancement_MAX_GAS_PER_PUBDATA_BYTE :: u64 where
  "refunds_enhancement_MAX_GAS_PER_PUBDATA_BYTE \<equiv> MAX_L2_TX_GAS_LIMIT div 4000"

abbreviation (input) refunds_enhancement_eth_price_per_pubdata_byte :: "u64 \<Rightarrow> u64" where
  "refunds_enhancement_eth_price_per_pubdata_byte l1_price \<equiv> l1_price * ucast L1_GAS_PER_PUBDATA_BYTE"

abbreviation (input) refunds_enhancement_base_fee_to_gas_per_pubdata :: "u64 \<Rightarrow> u64 \<Rightarrow> u64 option" where
  "refunds_enhancement_base_fee_to_gas_per_pubdata l1_price base_fee \<equiv>
     ceil_div (refunds_enhancement_eth_price_per_pubdata_byte l1_price) base_fee"

definition refunds_enhancement_derive_base_fee_and_gas_per_pubdata ::
    "L1PeggedBatchFeeModelInput \<Rightarrow> (u64 \<times> u64) option" where
  "refunds_enhancement_derive_base_fee_and_gas_per_pubdata i =
     do { floor_fee \<leftarrow> ceil_div (refunds_enhancement_eth_price_per_pubdata_byte (pegged_l1_gas_price i))
                               refunds_enhancement_MAX_GAS_PER_PUBDATA_BYTE;
          let base_fee = max (pegged_fair_l2_gas_price i) floor_fee;
          gas_per_pubdata \<leftarrow> refunds_enhancement_base_fee_to_gas_per_pubdata (pegged_l1_gas_price i) base_fee;
          Some (base_fee, gas_per_pubdata) }"

definition refunds_enhancement_get_batch_base_fee :: "L1BatchEnv \<Rightarrow> u64 option" where
  "refunds_enhancement_get_batch_base_fee env =
     (case enforced_base_fee env of
        Some base_fee \<Rightarrow> Some base_fee
      | None \<Rightarrow>
          do { i \<leftarrow> into_l1_pegged (fee_input env);
               (base_fee, _) \<leftarrow> refunds_enhancement_derive_base_fee_and_gas_per_pubdata i;
               Some base_fee })"

abbreviation (input) boojum_integration_MAX_GAS_PER_PUBDATA_BYTE :: u64 where
  "boojum_integration_MAX_GAS_PER_PUBDATA_BYTE \<equiv> MAX_L2_TX_GAS_LIMIT div 4000"

abbreviation (input) boojum_integration_eth_price_per_pubdata_byte :: "u64 \<Rightarrow> u64" where
  "boojum_integration_eth_price_per_pubdata_byte l1_price \<equiv> l1_price * ucast L1_GAS_PER_PUBDATA_BYTE"

abbreviation (input) boojum_integration_base_fee_to_gas_per_pubdata :: "u64 \<Rightarrow> u64 \<Rightarrow> u64 option" where
  "boojum_integration_base_fee_to_gas_per_pubdata l1_price base_fee \<equiv>
     ceil_div (boojum_integration_eth_price_per_pubdata_byte l1_price) base_fee"

definition boojum_integration_derive_base_fee_and_gas_per_pubdata ::
    "L1PeggedBatchFeeModelInput \<Rightarrow> (u64 \<times> u64) option" where
  "boojum_integration_derive_base_fee_and_gas_per_pubdata i =
     do { floor_fee \<leftarrow> ceil_div (boojum_integration_eth_price_per_pubdata_byte (pegged_l1_gas_price i))
                               boojum_integration_MAX_GAS_PER_PUBDATA_BYTE;
          let base_fee = max (pegged_fair_l2_gas_price i) floor_fee;
          gas_per_pubdata \<leftarrow> boojum_integration_base_fee_to_gas_per_pubdata (pegged_l1_gas_price i) base_fee;
          Some (base_fee, gas_per_pubdata) }"

definition boojum_integration_get_batch_base_fee :: "L1BatchEnv \<Rightarrow> u64 option" where
  "boojum_integration_get_batch_base_fee env =
     (case enforced_base_fee env of
        Some base_fee \<Rightarrow> Some base_fee
      | None \<Rightarrow>
          do { i \<leftarrow> into_l1_pegged (fee_input env);
               (base_fee, _) \<leftarrow> boojum_integration_derive_base_fee_and_gas_per_pubdata i;
               Some base_fee })"

section \<open>Versions with an independent pubdata price\<close>

abbreviation (input) vm_1_4_1_MAX_GAS_PER_PUBDATA_BYTE :: u64 where
  "vm_1_4_1_MAX_GAS_PER_PUBDATA_BYTE \<equiv> MAX_L2_TX_GAS_LIMIT div 2500"

definition vm_1_4_1_derive_base_fee_and_gas_per_pubdata ::
    "PubdataIndependentBatchFeeModelInput \<Rightarrow> (u64 \<times> u64) option" where
  "vm_1_4_1_derive_base_fee_and_gas_per_pubdata i =
     do { floor_fee \<leftarrow> ceil_div (pi_fair_pubdata_price i) vm_1_4_1_MAX_GAS_PER_PUBDATA_BYTE;
          let base_fee = max (pi_fair_l2_gas_price i) floor_fee;
          gas_per_pubdata \<leftarrow> ceil_div (pi_fair_pubdata_price i) base_fee;
          Some (base_fee, gas_per_pubdata) }"

definition vm_1_4_1_get_batch_base_fee :: "L1BatchEnv \<Rightarrow> u64 option" where
  "vm_1_4_1_get_batch_base_fee env =
     (case enforced_base_fee env of
        Some base_fee \<Rightarrow> Some base_fee
      | None \<Rightarrow>
          do { (base_fee, _) \<leftarrow>
                 vm_1_4_1_derive_base_fee_and_gas_per_pubdata (into_pubdata_independent (fee_input env));
               Some base_fee })"

abbreviation (input) vm_1_4_2_MAX_GAS_PER_PUBDATA_BYTE :: u64 where
  "vm_1_4_2_MAX_GAS_PER_PUBDATA_BYTE \<equiv> MAX_L2_TX_GAS_LIMIT div 2500"

definition vm_1_4_2_derive_base_fee_and_gas_per_pubdata ::
    "PubdataIndependentBatchFeeModelInput \<Rightarrow> (u64 \<times> u64) option" where
  "vm_1_4_2_derive_base_fee_and_gas_per_pubdata i =
     do { floor_fee \<leftarrow> ceil_div (pi_fair_pubdata_price i) vm_1_4_2_MAX_GAS_PER_PUBDATA_BYTE;
          let base_fee = max (pi_fair_l2_gas_price i) floor_fee;
          gas_per_pubdata \<leftarrow> ceil_div (pi_fair_pubdata_price i) base_fee;
          Some (base_fee, gas_per_pubdata) }"

definition vm_1_4_2_get_batch_base_fee :: "L1BatchEnv \<Rightarrow> u64 option" where
  "vm_1_4_2_get_batch_base_fee env =
     (case enforced_base_fee env of
        Some base_fee \<Rightarrow> Some base_fee
      | None \<Rightarrow>
          do { (base_fee, _) \<leftarrow>
                 vm_1_4_2_derive_base_fee_and_gas_per_pubdata (into_pubdata_independent (fee_input env));
               Some base_fee })"

definition vm_latest_MAX_GAS_PER_PUBDATA_BYTE :: u64 where
  "vm_latest_MAX_GAS_PER_PUBDATA_BYTE = 50000"

definition vm_latest_derive_base_fee_and_gas_per_pubdata ::
    "PubdataIndependentBatchFeeModelInput \<Rightarrow> (u64 \<times> u64) option" where
  "vm_latest_derive_base_fee_and_gas_per_pubdata i =
     do { floor_fee \<leftarrow> ceil_div (pi_fair_pubdata_price i) vm_latest_MAX_GAS_PER_PUBDATA_BYTE;
          let base_fee = max (pi_fair_l2_gas_price i) floor_fee;
          gas_per_pubdata \<leftarrow> ceil_div (pi_fair_pubdata_price i) base_fee;
          Some (base_fee, gas_per_pubdata) }"

definition vm_latest_get_batch_base_fee :: "L1BatchEnv \<Rightarrow> u64 option" where
  "vm_latest_get_batch_base_fee env =
     (case enforced_base_fee env of
        Some base_fee \<Rightarrow> Some base_fee
      | None \<Rightarrow>
          do { (base_fee, _) \<leftarrow>
                 vm_latest_derive_base_fee_and_gas_per_pubdata (into_pubdata_independent (fee_input env));
               Some base_fee })"

section \<open>Every version satisfies the contract\<close>

lemmas max_gas_defs =
  vm_latest_MAX_GAS_PER_PUBDATA_BYTE_def

interpretation m5: pubdata_fee "m5_MAX_GAS_PER_PUBDATA_BYTE" pegged_fair_l2_gas_price
  "\<lambda>i. m5_eth_price_per_pubdata_byte (pegged_l1_gas_price i)" m5_derive_base_fee_and_gas_per_pubdata
  by unfold_locales (simp_all add: max_gas_defs m5_derive_base_fee_and_gas_per_pubdata_def)

interpretation m6: pubdata_fee "m6_MAX_GAS_PER_PUBDATA_BYTE" pegged_fair_l2_gas_price
  "\<lambda>i. m6_eth_price_per_pubdata_byte (pegged_l1_gas_price i)" m6_derive_base_fee_and_gas_per_pubdata
  by unfold_locales (simp_all add: max_gas_defs m6_derive_base_fee_and_gas_per_pubdata_def)

interpretation vm_1_3_2: pubdata_fee "vm_1_3_2_MAX_GAS_PER_PUBDATA_BYTE" pegged_fair_l2_gas_price
  "\<lambda>i. vm_1_3_2_eth_price_per_pubdata_byte (pegged_l1_gas_price i)" vm_1_3_2_derive_base_fee_and_gas_per_pubdata
  by unfold_locales (simp_all add: max_gas_defs vm_1_3_2_derive_base_fee_and_gas_per_pubdata_def)

interpretation virtual_blocks: pubdata_fee "virtual_blocks_MAX_GAS_PER_PUBDATA_BYTE" pegged_fair_l2_gas_price
  "\<lambda>i. virtual_blocks_eth_price_per_pubdata_byte (pegged_l1_gas_price i)" virtual_blocks_derive_base_fee_and_gas_per_pubdata
  by unfold_locales (simp_all add: max_gas_defs virtual_blocks_derive_base_fee_and_gas_per_pubdata_def)

interpretation refunds_enhancement: pubdata_fee "refunds_enhancement_MAX_GAS_PER_PUBDATA_BYTE" pegged_fair_l2_gas_price
  "\<lambda>i. refunds_enhancement_eth_price_per_pubdata_byte (pegged_l1_gas_price i)" refunds_enhancement_derive_base_fee_and_gas_per_pubdata
  by unfold_locales (simp_all add: max_gas_defs refunds_enhancement_derive_base_fee_and_gas_per_pubdata_def)

interpretation boojum_integration: pubdata_fee "boojum_integration_MAX_GAS_PER_PUBDATA_BYTE" pegged_fair_l2_gas_price
  "\<lambda>i. boojum_integration_eth_price_per_pubdata_byte (pegged_l1_gas_price i)" boojum_integration_derive_base_fee_and_gas_per_pubdata
  by unfold_locales (simp_all add: max_gas_defs boojum_integration_derive_base_fee_and_gas_per_pubdata_def)

interpretation vm_1_4_1: pubdata_fee "vm_1_4_1_MAX_GAS_PER_PUBDATA_BYTE" pi_fair_l2_gas_price
  pi_fair_pubdata_price vm_1_4_1_derive_base_fee_and_gas_per_pubdata
  by unfold_locales (simp_all add: max_gas_defs vm_1_4_1_derive_base_fee_and_gas_per_pubdata_def)

interpretation vm_1_4_2: pubdata_fee "vm_1_4_2_MAX_GAS_PER_PUBDATA_BYTE" pi_fair_l2_gas_price
  pi_fair_pubdata_price vm_1_4_2_derive_base_fee_and_gas_per_pubdata
  by unfold_locales (simp_all add: max_gas_defs vm_1_4_2_derive_base_fee_and_gas_per_pubdata_def)

interpretation vm_latest: pubdata_fee "vm_latest_MAX_GAS_PER_PUBDATA_BYTE" pi_fair_l2_gas_price
  pi_fair_pubdata_price vm_latest_derive_base_fee_and_gas_per_pubdata
  by unfold_locales (simp_all add: max_gas_defs vm_latest_derive_base_fee_and_gas_per_pubdata_def)

section \<open>Dispatch on the VM version\<close>

fun derive_base_fee_and_gas_per_pubdata :: "BatchFeeInput \<Rightarrow> VmVersion \<Rightarrow> (u64 \<times> u64) option" where
  "derive_base_fee_and_gas_per_pubdata i M5WithRefunds =
     Option.bind (into_l1_pegged i) m5_derive_base_fee_and_gas_per_pubdata"
| "derive_base_fee_and_gas_per_pubdata i M5WithoutRefunds =
     Option.bind (into_l1_pegged i) m5_derive_base_fee_and_gas_per_pubdata"
| "derive_base_fee_and_gas_per_pubdata i M6Initial =
     Option.bind (into_l1_pegged i) m6_derive_base_fee_and_gas_per_pubdata"
| "derive_base_fee_and_gas_per_pubdata i M6BugWithCompressionFixed =
     Option.bind (into_l1_pegged i) m6_derive_base_fee_and_gas_per_pubdata"
| "derive_base_fee_and_gas_per_pubdata i Vm1_3_2 =
     Option.bind (into_l1_pegged i) vm_1_3_2_derive_base_fee_and_gas_per_pubdata"
| "derive_base_fee_and_gas_per_pubdata i VmVirtualBlocks =
     Option.bind (into_l1_pegged i) virtual_blocks_derive_base_fee_and_gas_per_pubdata"
| "derive_base_fee_and_gas_per_pubdata i VmVirtualBlocksRefundsEnhancement =
     Option.bind (into_l1_pegged i) refunds_enhancement_derive_base_fee_and_gas_per_pubdata"
| "derive_base_fee_and_gas_per_pubdata i VmBoojumIntegration =
     Option.bind (into_l1_pegged i) boojum_integration_derive_base_fee_and_gas_per_pubdata"
| "derive_base_fee_and_gas_per_pubdata i Vm1_4_1 =
     vm_1_4_1_derive_base_fee_and_gas_per_pubdata (into_pubdata_independent i)"
| "derive_base_fee_and_gas_per_pubdata i Vm1_4_2 =
     vm_1_4_2_derive_base_fee_and_gas_per_pubdata (into_pubdata_independent i)"
| "derive_base_fee_and_gas_per_pubdata i Vm1_5_0SmallBootloaderMemory =
     vm_latest_derive_base_fee_and_gas_per_pubdata (into_pubdata_independent i)"
| "derive_base_fee_and_gas_per_pubdata i Vm1_5_0IncreasedBootloaderMemory =
     vm_latest_derive_base_fee_and_gas_per_pubdata (into_pubdata_independent i)"

fun get_batch_base_fee :: "L1BatchEnv \<Rightarrow> VmVersion \<Rightarrow> u64 option" where
  "get_batch_base_fee env M5WithRefunds = m5_get_batch_base_fee env"
| "get_batch_base_fee env M5WithoutRefunds = m5_get_batch_base_fee env"
| "get_batch_base_fee env M6Initial = m6_get_batch_base_fee env"
| "get_batch_base_fee env M6BugWithCompressionFixed = m6_get_batch_base_fee env"
| "get_batch_base_fee env Vm1_3_2 = vm_1_3_2_get_batch_base_fee env"
| "get_batch_base_fee env VmVirtualBlocks = virtual_blocks_get_batch_base_fee env"
| "get_batch_base_fee env VmVirtualBlocksRefundsEnhancement = refunds_enhancement_get_batch_base_fee env"
| "get_batch_base_fee env VmBoojumIntegration = boojum_integration_get_batch_base_fee env"
| "get_batch_base_fee env Vm1_4_1 = vm_1_4_1_get_batch_base_fee env"
| "get_batch_base_fee env Vm1_4_2 = vm_1_4_2_get_batch_base_fee env"
| "get_batch_base_fee env Vm1_5_0SmallBootloaderMemory = vm_latest_get_batch_base_fee env"
| "get_batch_base_fee env Vm1_5_0IncreasedBootloaderMemory = vm_latest_get_batch_base_fee env"

fun get_max_gas_per_pubdata_byte :: "VmVersion \<Rightarrow> u64" where
  "get_max_gas_per_pubdata_byte M5WithRefunds = m5_MAX_GAS_PER_PUBDATA_BYTE"
| "get_max_gas_per_pubdata_byte M5WithoutRefunds = m5_MAX_GAS_PER_PUBDATA_BYTE"
| "get_max_gas_per_pubdata_byte M6Initial = m6_MAX_GAS_PER_PUBDATA_BYTE"
| "get_max_gas_per_pubdata_byte M6BugWithCompressionFixed = m6_MAX_GAS_PER_PUBDATA_BYTE"
| "get_max_gas_per_pubdata_byte Vm1_3_2 = vm_1_3_2_MAX_GAS_PER_PUBDATA_BYTE"
| "get_max_gas_per_pubdata_byte VmVirtualBlocks = virtual_blocks_MAX_GAS_PER_PUBDATA_BYTE"
| "get_max_gas_per_pubdata_byte VmVirtualBlocksRefundsEnhancement = refunds_enhancement_MAX_GAS_PER_PUBDATA_BYTE"
| "get_max_gas_per_pubdata_byte VmBoojumIntegration = boojum_integration_MAX_GAS_PER_PUBDATA_BYTE"
| "get_max_gas_per_pubdata_byte Vm1_4_1 = vm_1_4_1_MAX_GAS_PER_PUBDATA_BYTE"
| "get_max_gas_per_pubdata_byte Vm1_4_2 = vm_1_4_2_MAX_GAS_PER_PUBDATA_BYTE"
| "get_max_gas_per_pubdata_byte Vm1_5_0SmallBootloaderMemory = vm_latest_MAX_GAS_PER_PUBDATA_BYTE"
| "get_max_gas_per_pubdata_byte Vm1_5_0IncreasedBootloaderMemory = vm_latest_MAX_GAS_PER_PUBDATA_BYTE"

definition adjust_pubdata_price_for_tx ::
    "BatchFeeInput \<Rightarrow> u256 \<Rightarrow> u256 option \<Rightarrow> VmVersion \<Rightarrow> BatchFeeInput option" where
  "adjust_pubdata_price_for_tx batch_fee_input tx_gas_per_pubdata_limit max_base_fee vm_version =
     (let max_base_fee = (case max_base_fee of None \<Rightarrow> - 1 | Some m \<Rightarrow> m);
          desired = min tx_gas_per_pubdata_limit (ucast (get_max_gas_per_pubdata_byte vm_version))
      in do {
        (current_base_fee, current_gas_per_pubdata) \<leftarrow>
          derive_base_fee_and_gas_per_pubdata batch_fee_input vm_version;
        if ucast current_gas_per_pubdata \<le> desired \<and> ucast current_base_fee \<le> max_base_fee
        then Some batch_fee_input
        else (case batch_fee_input of
            L1Pegged i \<Rightarrow>
              (let current_l2 = ucast (pegged_fair_l2_gas_price i) :: u256;
                   fair_l2 = (if max_base_fee < current_l2 then max_base_fee else current_l2)
               in do {
                 d1 \<leftarrow> u256_sub desired 1;
                 wei \<leftarrow> u256_mul fair_l2 d1;
                 new_l1 \<leftarrow> u256_div wei 17;
                 l1_price \<leftarrow> u256_as_u64 new_l1;
                 l2_price \<leftarrow> u256_as_u64 fair_l2;
                 Some (L1Pegged \<lparr>pegged_fair_l2_gas_price = l2_price,
                                pegged_l1_gas_price = l1_price\<rparr>) })
          | PubdataIndependent i \<Rightarrow>
              (let current_l2 = ucast (pi_fair_l2_gas_price i) :: u256;
                   fair_l2 = (if max_base_fee < current_l2 then max_base_fee else current_l2)
               in do {
                 d1 \<leftarrow> u256_sub desired 1;
                 new_pubdata \<leftarrow> u256_mul fair_l2 d1;
                 pubdata_price \<leftarrow> u256_as_u64 new_pubdata;
                 l2_price \<leftarrow> u256_as_u64 fair_l2;
                 Some (PubdataIndependent (i\<lparr>pi_fair_pubdata_price := pubdata_price,
                                             pi_fair_l2_gas_price := l2_price\<rparr>)) }))
      })"

section \<open>Limits of the versions\<close>

datatype MultiVMSubversion = SmallBootloaderMemory | IncreasedBootloaderMemory

fun vm_latest_used_bootloader_memory_bytes :: "MultiVMSubversion \<Rightarrow> nat" where
  "vm_latest_used_bootloader_memory_bytes SmallBootloaderMemory = 59000000"
| "vm_latest_used_bootloader_memory_bytes IncreasedBootloaderMemory = 63800000"

definition vm_latest_used_bootloader_memory_words :: "MultiVMSubversion \<Rightarrow> nat" where
  "vm_latest_used_bootloader_memory_words subversion =
     vm_latest_used_bootloader_memory_bytes subversion div 32"

fun get_used_bootloader_memory_bytes :: "VmVersion \<Rightarrow> nat" where
  "get_used_bootloader_memory_bytes M5WithRefunds = 2 ^ 24"
| "get_used_bootloader_memory_bytes M5WithoutRefunds = 2 ^ 24"
| "get_used_bootloader_memory_bytes M6Initial = 2 ^ 24"
| "get_used_bootloader_memory_bytes M6BugWithCompressionFixed = 2 ^ 24"
| "get_used_bootloader_memory_bytes Vm1_3_2 = 2 ^ 24"
| "get_used_bootloader_memory_bytes VmVirtualBlocks = 2 ^ 24"
| "get_used_bootloader_memory_bytes VmVirtualBlocksRefundsEnhancement = 2 ^ 24"
| "get_used_bootloader_memory_bytes VmBoojumIntegration = 2 ^ 24"
| "get_used_bootloader_memory_bytes Vm1_4_1 = 24000000"
| "get_used_bootloader_memory_bytes Vm1_4_2 = 30000000"
| "get_used_bootloader_memory_bytes Vm1_5_0SmallBootloaderMemory = vm_latest_used_bootloader_memory_bytes SmallBootloaderMemory"
| "get_used_bootloader_memory_bytes Vm1_5_0IncreasedBootloaderMemory = vm_latest_used_bootloader_memory_bytes IncreasedBootloaderMemory"

fun get_used_bootloader_memory_words :: "VmVersion \<Rightarrow> nat" where
  "get_used_bootloader_memory_words M5WithRefunds = 2 ^ 24 div 32"
| "get_used_bootloader_memory_words M5WithoutRefunds = 2 ^ 24 div 32"
| "get_used_bootloader_memory_words M6Initial = 2 ^ 24 div 32"
| "get_used_bootloader_memory_words M6BugWithCompressionFixed = 2 ^ 24 div 32"
| "get_used_bootloader_memory_words Vm1_3_2 = 2 ^ 24 div 32"
| "get_used_bootloader_memory_words VmVirtualBlocks = 2 ^ 24 div 32"
| "get_used_bootloader_memory_words VmVirtualBlocksRefundsEnhancement = 2 ^ 24 div 32"
| "get_used_bootloader_memory_words VmBoojumIntegration = 2 ^ 24 div 32"
| "get_used_bootloader_memory_words Vm1_4_1 = 24000000 div 32"
| "get_used_bootloader_memory_words Vm1_4_2 = 30000000 div 32"
| "get_used_bootloader_memory_words Vm1_5_0SmallBootloaderMemory = vm_latest_used_bootloader_memory_bytes SmallBootloaderMemory"
| "get_used_bootloader_memory_words Vm1_5_0IncreasedBootloaderMemory = vm_latest_used_bootloader_memory_bytes IncreasedBootloaderMemory"

fun get_bootloader_max_txs_in_batch :: "VmVersion \<Rightarrow> nat" where
  "get_bootloader_max_txs_in_batch M5WithRefunds = 1024"
| "get_bootloader_max_txs_in_batch M5WithoutRefunds = 1024"
| "get_bootloader_max_txs_in_batch M6Initial = 1024"
| "get_bootloader_max_txs_in_batch M6BugWithCompressionFixed = 1024"
| "get_bootloader_max_txs_in_batch Vm1_3_2 = 1024"
| "get_bootloader_max_txs_in_batch VmVirtualBlocks = 1024"
| "get_bootloader_max_txs_in_batch VmVirtualBlocksRefundsEnhancement = 1024"
| "get_bootloader_max_txs_in_batch VmBoojumIntegration = 1024"
| "get_bootloader_max_txs_in_batch Vm1_4_1 = 10000"
| "get_bootloader_max_txs_in_batch Vm1_4_2 = 10000"
| "get_bootloader_max_txs_in_batch Vm1_5_0SmallBootloaderMemory = 10000"
| "get_bootloader_max_txs_in_batch Vm1_5_0IncreasedBootloaderMemory = 10000"

fun gas_bootloader_batch_tip_overhead :: "VmVersion \<Rightarrow> u32" where
  "gas_bootloader_batch_tip_overhead M5WithRefunds = 0"
| "gas_bootloader_batch_tip_overhead M5WithoutRefunds = 0"
| "gas_bootloader_batch_tip_overhead M6Initial = 0"
| "gas_bootloader_batch_tip_overhead M6BugWithCompressionFixed = 0"
| "gas_bootloader_batch_tip_overhead Vm1_3_2 = 0"
| "gas_bootloader_batch_tip_overhead VmVirtualBlocks = 0"
| "gas_bootloader_batch_tip_overhead VmVirtualBlocksRefundsEnhancement = 0"
| "gas_bootloader_batch_tip_overhead VmBoojumIntegration = 80000000"
| "gas_bootloader_batch_tip_overhead Vm1_4_1 = 80000000"
| "gas_bootloader_batch_tip_overhead Vm1_4_2 = 170000000"
| "gas_bootloader_batch_tip_overhead Vm1_5_0SmallBootloaderMemory = 400000000"
| "gas_bootloader_batch_tip_overhead Vm1_5_0IncreasedBootloaderMemory = 400000000"

fun circuit_statistics_bootloader_batch_tip_overhead :: "VmVersion \<Rightarrow> nat" where
  "circuit_statistics_bootloader_batch_tip_overhead M5WithRefunds = 0"
| "circuit_statistics_bootloader_batch_tip_overhead M5WithoutRefunds = 0"
| "circuit_statistics_bootloader_batch_tip_overhead M6Initial = 0"
| "circuit_statistics_bootloader_batch_tip_overhead M6BugWithCompressionFixed = 0"
| "circuit_statistics_bootloader_batch_tip_overhead Vm1_3_2 = 0"
| "circuit_statistics_bootloader_batch_tip_overhead VmVirtualBlocks = 0"
| "circuit_statistics_bootloader_batch_tip_overhead VmVirtualBlocksRefundsEnhancement = 0"
| "circuit_statistics_bootloader_batch_tip_overhead VmBoojumIntegration = 0"
| "circuit_statistics_bootloader_batch_tip_overhead Vm1_4_1 = 0"
| "circuit_statistics_bootloader_batch_tip_overhead Vm1_4_2 = 5000"
| "circuit_statistics_bootloader_batch_tip_overhead Vm1_5_0SmallBootloaderMemory = 12000"
| "circuit_statistics_bootloader_batch_tip_overhead Vm1_5_0IncreasedBootloaderMemory = 12000"

fun execution_metrics_bootloader_batch_tip_overhead :: "VmVersion \<Rightarrow> nat" where
  "execution_metrics_bootloader_batch_tip_overhead M5WithRefunds = 0"
| "execution_metrics_bootloader_batch_tip_overhead M5WithoutRefunds = 0"
| "execution_metrics_bootloader_batch_tip_overhead M6Initial = 0"
| "execution_metrics_bootloader_batch_tip_overhead M6BugWithCompressionFixed = 0"
| "execution_metrics_bootloader_batch_tip_overhead Vm1_3_2 = 0"
| "execution_metrics_bootloader_batch_tip_overhead VmVirtualBlocks = 0"
| "execution_metrics_bootloader_batch_tip_overhead VmVirtualBlocksRefundsEnhancement = 0"
| "execution_metrics_bootloader_batch_tip_overhead VmBoojumIntegration = 0"
| "execution_metrics_bootloader_batch_tip_overhead Vm1_4_1 = 0"
| "execution_metrics_bootloader_batch_tip_overhead Vm1_4_2 = 1500"
| "execution_metrics_bootloader_batch_tip_overhead Vm1_5_0SmallBootloaderMemory = 2000"
| "execution_metrics_bootloader_batch_tip_overhead Vm1_5_0IncreasedBootloaderMemory = 2000"

fun get_max_batch_base_layer_circuits :: "VmVersion \<Rightarrow> nat" where
  "get_max_batch_base_layer_circuits M5WithRefunds = 24100"
| "get_max_batch_base_layer_circuits M5WithoutRefunds = 24100"
| "get_max_batch_base_layer_circuits M6Initial = 24100"
| "get_max_batch_base_layer_circuits M6BugWithCompressionFixed = 24100"
| "get_max_batch_base_layer_circuits Vm1_3_2 = 24100"
| "get_max_batch_base_layer_circuits VmVirtualBlocks = 24100"
| "get_max_batch_base_layer_circuits VmVirtualBlocksRefundsEnhancement = 24100"
| "get_max_batch_base_layer_circuits VmBoojumIntegration = 24100"
| "get_max_batch_base_layer_circuits Vm1_4_1 = 24100"
| "get_max_batch_base_layer_circuits Vm1_4_2 = 24100"
| "get_max_batch_base_layer_circuits Vm1_5_0SmallBootloaderMemory = 34100"
| "get_max_batch_base_layer_circuits Vm1_5_0IncreasedBootloaderMemory = 34100"

section \<open>Lemmas on the dispatch\<close>


text \<open>Every version derives its fees from the two prices of the input, whatever its format.\<close>

definition supports :: "VmVersion \<Rightarrow> BatchFeeInput \<Rightarrow> bool" where
  "supports v i \<longleftrightarrow>
     v \<in> {Vm1_4_1, Vm1_4_2, Vm1_5_0SmallBootloaderMemory, Vm1_5_0IncreasedBootloaderMemory}
     \<or> (\<exists>p. i = L1Pegged p)"

lemma derive_as_reference:
  "derive_base_fee_and_gas_per_pubdata i v =
     (if supports v i
      then do { floor_fee \<leftarrow> ceil_div (fair_pubdata_price i) (get_max_gas_per_pubdata_byte v);
                let base_fee = max (fair_l2_gas_price i) floor_fee;
                gas_per_pubdata \<leftarrow> ceil_div (fair_pubdata_price i) base_fee;
                Some (base_fee, gas_per_pubdata) }
      else None)"
  by (cases v; cases i)
    (simp_all add: supports_def m5.derive_eq m6.derive_eq vm_1_3_2.derive_eq
      virtual_blocks.derive_eq refunds_enhancement.derive_eq boojum_integration.derive_eq
      vm_1_4_1.derive_eq vm_1_4_2.derive_eq vm_latest.derive_eq)

text \<open>The dispatcher restricted to the inputs a version supports is itself a fee derivation.\<close>

definition derive_supported :: "VmVersion \<Rightarrow> BatchFeeInput \<Rightarrow> (u64 \<times> u64) option" where
  "derive_supported v i =
     (if supports v i then derive_base_fee_and_gas_per_pubdata i v
      else derive_base_fee_and_gas_per_pubdata
             (L1Pegged \<lparr>pegged_fair_l2_gas_price = 0, pegged_l1_gas_price = 0\<rparr>) v)"

lemma max_gas_per_pubdata_byte_nonzero: "get_max_gas_per_pubdata_byte v \<noteq> 0"
  by (cases v) (simp_all add: max_gas_defs)

interpretation dispatch: pubdata_fee "get_max_gas_per_pubdata_byte v"
  "\<lambda>i. if supports v i then fair_l2_gas_price i else 0"
  "\<lambda>i. if supports v i then fair_pubdata_price i else 0" "derive_supported v" for v
proof unfold_locales
  show "get_max_gas_per_pubdata_byte v \<noteq> 0" by (rule max_gas_per_pubdata_byte_nonzero)
  have "supports v (L1Pegged p)" for p by (simp add: supports_def)
  then show "derive_supported v i =
      do { floor_fee \<leftarrow> ceil_div (if supports v i then fair_pubdata_price i else 0)
                          (get_max_gas_per_pubdata_byte v);
           let base_fee = max (if supports v i then fair_l2_gas_price i else 0) floor_fee;
           gas_per_pubdata \<leftarrow> ceil_div (if supports v i then fair_pubdata_price i else 0) base_fee;
           Some (base_fee, gas_per_pubdata) }" for i
    by (simp add: derive_supported_def derive_as_reference)
qed

lemma derive_supported_eq [simp]:
  "supports v i \<Longrightarrow> derive_supported v i = derive_base_fee_and_gas_per_pubdata i v"
  by (simp add: derive_supported_def)

lemma supports_pegged [simp]: "supports v (L1Pegged p)"
  by (simp add: supports_def)

lemma supports_independent:
  "supports v (PubdataIndependent p) \<longleftrightarrow> supports v (PubdataIndependent q)"
  by (simp add: supports_def)

text \<open>The two branches of the adjustment, as facts on the prices of the adjusted input.\<close>

lemma u256_simps:
  "u256_sub a b = Some c \<longleftrightarrow> b \<le> a \<and> c = a - b"
  "u256_mul a b = Some c \<longleftrightarrow> unat a * unat b < 2 ^ 256 \<and> c = a * b"
  "u256_div a b = Some c \<longleftrightarrow> b \<noteq> 0 \<and> c = a div b"
  "u256_as_u64 a = Some w \<longleftrightarrow> unat a < 2 ^ 64 \<and> w = ucast a"
  by (auto simp: u256_sub_def u256_mul_def u256_div_def u256_as_u64_def)

lemma scaled_down_price:
  fixes f d :: u256
  assumes "1 \<le> d" "unat f * unat (d - 1) < 2 ^ 256"
  shows "unat (f * (d - 1)) = unat f * (unat d - 1)"
proof -
  have "unat (d - 1) = unat d - 1" using assms(1) by (simp add: unat_sub)
  with assms(2) show ?thesis by (simp add: unat_word_ariths)
qed

lemma adjusted_prices:
  assumes adj: "adjust_pubdata_price_for_tx i lim mbf v = Some r"
    and cur: "derive_base_fee_and_gas_per_pubdata i v = Some (cb, cg)"
  defines "m \<equiv> (case mbf of None \<Rightarrow> - 1 | Some m \<Rightarrow> m)"
    and "d \<equiv> min lim (ucast (get_max_gas_per_pubdata_byte v))"
  assumes exceeds: "\<not> (ucast cg \<le> d \<and> ucast cb \<le> m)"
  shows "supports v r" "1 \<le> d" "unat (fair_l2_gas_price r) \<le> unat m"
    "unat (fair_pubdata_price r) \<le> (unat d - 1) * unat (fair_l2_gas_price r)"
proof -
  have sup: "supports v i"
    using cur by (simp add: derive_as_reference split: if_splits)
  let ?l2 = "ucast (fair_l2_gas_price i) :: u256"
  let ?f = "if m < ?l2 then m else ?l2"
  have fm: "unat ?f \<le> unat m" by (simp add: word_le_nat_alt [symmetric] not_less)
  have "supports v r \<and> 1 \<le> d \<and> unat (fair_l2_gas_price r) = unat ?f
    \<and> unat (fair_pubdata_price r) \<le> (unat d - 1) * unat ?f"
  proof (cases i)
    case (L1Pegged p)
    from adj cur exceeds L1Pegged obtain d: "1 \<le> d" and wei: "unat ?f * unat (d - 1) < 2 ^ 256"
      and l1: "unat (?f * (d - 1) div 17) < 2 ^ 64" and l2: "unat ?f < 2 ^ 64"
      and r: "r = L1Pegged \<lparr>pegged_fair_l2_gas_price = ucast ?f,
                            pegged_l1_gas_price = ucast (?f * (d - 1) div 17)\<rparr>"
      by (auto simp: adjust_pubdata_price_for_tx_def Let_def u256_simps d_def m_def bind_eq_Some_conv
          split: if_splits)
    have "unat (fair_pubdata_price r) = unat (ucast (?f * (d - 1) div 17) * 17 :: u64)"
      by (simp add: r)
    also have "\<dots> \<le> unat (ucast (?f * (d - 1) div 17) :: u64) * 17"
      by (simp add: unat_word_ariths)
    also have "\<dots> = unat ?f * (unat d - 1) div 17 * 17"
      using scaled_down_price [OF d wei] by (simp only: unat_ucast_256_64 [OF l1] unat_div_distrib) simp
    also have "\<dots> \<le> (unat d - 1) * unat ?f" by (simp add: mult.commute)
    finally show ?thesis using d l2 by (simp add: r unat_ucast_256_64)
  next
    case (PubdataIndependent p)
    from adj cur exceeds PubdataIndependent obtain d: "1 \<le> d" and wei: "unat ?f * unat (d - 1) < 2 ^ 256"
      and pd: "unat (?f * (d - 1)) < 2 ^ 64" and l2: "unat ?f < 2 ^ 64"
      and r: "r = PubdataIndependent (p\<lparr>pi_fair_pubdata_price := ucast (?f * (d - 1)),
                            pi_fair_l2_gas_price := ucast ?f\<rparr>)"
      by (auto simp: adjust_pubdata_price_for_tx_def Let_def u256_simps d_def m_def bind_eq_Some_conv
          split: if_splits)
    have "supports v r" using sup PubdataIndependent r supports_independent by metis
    moreover have "unat (fair_pubdata_price r) = (unat d - 1) * unat ?f"
    proof -
      have "unat (fair_pubdata_price r) = unat (ucast (?f * (d - 1)) :: u64)" unfolding r by simp
      also have "\<dots> = unat ?f * (unat d - 1)"
        using scaled_down_price [OF d wei] unat_ucast_256_64 [OF pd] by (simp only:)
      finally show ?thesis by (simp only: mult.commute)
    qed
    ultimately show ?thesis using d l2 by (simp add: r unat_ucast_256_64)
  qed
  with fm show "supports v r" "1 \<le> d" "unat (fair_l2_gas_price r) \<le> unat m"
    "unat (fair_pubdata_price r) \<le> (unat d - 1) * unat (fair_l2_gas_price r)" by simp_all
qed

section \<open>Properties\<close>

text \<open>C9. For every VM version and every fee input the version supports, the derivation of the base
  fee and of the gas per pubdata byte succeeds; the gas per pubdata byte stays within the maximum the
  version guarantees to users, the base fee is at least the fair L2 gas price, and the fee for one
  byte covers the fair pubdata price.\<close>

theorem derived_fees_sound:
  assumes "supports v i"
  shows "\<exists>b g. derive_base_fee_and_gas_per_pubdata i v = Some (b, g)
    \<and> g \<le> get_max_gas_per_pubdata_byte v \<and> fair_l2_gas_price i \<le> b
    \<and> unat (fair_pubdata_price i) \<le> unat g * unat b"
proof -
  obtain b g where "derive_supported v i = Some (b, g)" by (rule dispatch.derive_total)
  with assms show ?thesis
    using dispatch.derive_gas_le_max [of v i b g] dispatch.derive_base_fee_ge [of v i b g]
      dispatch.derive_covers_price [of v i b g] by simp
qed

theorem derived_fees_sound_witness:
  "\<exists>b g. derive_base_fee_and_gas_per_pubdata (pubdata_independent 7 100 6000000)
           Vm1_5_0IncreasedBootloaderMemory = Some (b, g)
    \<and> g \<le> 50000 \<and> 100 \<le> b \<and> 6000000 \<le> unat g * unat b"
  using derived_fees_sound [of Vm1_5_0IncreasedBootloaderMemory "pubdata_independent 7 100 6000000"]
  by (simp add: supports_def pubdata_independent_def vm_latest_MAX_GAS_PER_PUBDATA_BYTE_def)

text \<open>C8. A fee input adjusted for a transaction respects both of its limits: whenever the
  adjustment returns, the fees derived from the adjusted input exist, their gas per pubdata byte is at
  most the limit of the transaction and their base fee is at most its maximal base fee (no bound when
  none is given).\<close>

theorem adjusted_fees_within_limits:
  assumes "adjust_pubdata_price_for_tx i lim mbf v = Some r"
  shows "\<exists>b g. derive_base_fee_and_gas_per_pubdata r v = Some (b, g) \<and> ucast g \<le> lim
    \<and> (\<forall>m. mbf = Some m \<longrightarrow> ucast b \<le> m)"
proof -
  let ?m = "case mbf of None \<Rightarrow> - 1 | Some m \<Rightarrow> m"
  let ?d = "min lim (ucast (get_max_gas_per_pubdata_byte v))"
  obtain cb cg where cur: "derive_base_fee_and_gas_per_pubdata i v = Some (cb, cg)"
    using assms by (auto simp: adjust_pubdata_price_for_tx_def Let_def split: bind_splits)
  have "\<exists>b g. derive_base_fee_and_gas_per_pubdata r v = Some (b, g) \<and> ucast g \<le> lim
    \<and> ucast b \<le> ?m"
  proof (cases "ucast cg \<le> ?d \<and> ucast cb \<le> ?m")
    case True
    with assms cur show ?thesis by (simp add: adjust_pubdata_price_for_tx_def Let_def)
  next
    case False
    note adj = adjusted_prices [OF assms cur False]
    have dm: "unat ?d - 1 \<le> unat (get_max_gas_per_pubdata_byte v)"
      by (auto simp: min_def word_le_nat_alt unat_ucast_64_256)
    obtain g where g: "derive_supported v r = Some (fair_l2_gas_price r, g)" "unat g \<le> unat ?d - 1"
      using dispatch.derive_of_cheap_pubdata [of v r "unat ?d - 1"] adj dm by auto
    have "unat ?d \<le> unat lim" by (auto simp: min_def word_le_nat_alt)
    with g have "ucast g \<le> lim" by (simp add: word_le_nat_alt unat_ucast_64_256)
    with g adj show ?thesis by (simp add: word_le_nat_alt unat_ucast_64_256)
  qed
  then show ?thesis by auto
qed

theorem adjusted_fees_within_limits_witness:
  "\<exists>b g. derive_base_fee_and_gas_per_pubdata (pubdata_independent 7 100 900)
         Vm1_5_0IncreasedBootloaderMemory = Some (b, g)
    \<and> ucast g \<le> (10 :: u256) \<and> (\<forall>m. Some 1000 = Some m \<longrightarrow> ucast b \<le> (m :: u256))"
  by (rule adjusted_fees_within_limits
        [of "pubdata_independent 7 100 6000000" 10 "Some 1000" Vm1_5_0IncreasedBootloaderMemory])
    (simp add: adjust_pubdata_price_for_tx_def pubdata_independent_def Let_def ceil_div_def
      vm_latest_derive_base_fee_and_gas_per_pubdata_def vm_latest_MAX_GAS_PER_PUBDATA_BYTE_def
      u256_sub_def u256_mul_def u256_as_u64_def max_def min_def)


end
