(* ===== verification/Mempool.thy ===== *)
theory Mempool
  imports Transactions Fee_Model
begin

text \<open>
  The mempool of the sequencer (\<^verbatim>\<open>core/lib/mempool/src\<close>, and its use by the state keeper in
  \<^verbatim>\<open>core/node/state_keeper/src/io/mempool.rs\<close>).

  Pending L1 transactions are keyed by their priority id; pending L2 transactions are grouped by
  account and nonce, with a global priority queue (a \<^verbatim>\<open>BTreeSet\<close>, so a strictly sorted list) that
  holds the score of the next executable transaction of every account. A panic of the source is
  \<^term>\<open>None\<close>. The counter \<open>mempool_size\<close> counts entries of in-memory maps and is a natural number; nonces and
  priority ids are machine words and wrap.

  Main results: the invariant that ties the queue to the per-account maps holds in every reachable
  state, under it \<open>next_transaction\<close> never panics and returns the oldest executable transaction that
  matches the filter, and giving a transaction back restores the store.
\<close>

section \<open>Transactions of an account (types.rs)\<close>

record AccountTransactions =
  at_transactions :: "(u32, L2Tx) fmap"
  at_nonce :: u32

record MempoolScore =
  score_account :: address
  score_received_at_ms :: u64
  score_fee_data :: Fee

record InsertionMetadata =
  new_score :: "MempoolScore option"
  previous_score :: "MempoolScore option"
  is_new :: bool

record L2TxFilter =
  filter_fee_input :: BatchFeeInput
  fee_per_gas :: u64
  gas_per_pubdata :: u32

definition account_transactions_new :: "u32 \<Rightarrow> AccountTransactions" where
  "account_transactions_new nonce = \<lparr>at_transactions = fmempty, at_nonce = nonce\<rparr>"

definition score_for_transaction :: "L2Tx \<Rightarrow> MempoolScore" where
  "score_for_transaction tx =
     \<lparr>score_account = l2_initiator_account tx,
      score_received_at_ms = l2_received_timestamp_ms tx,
      score_fee_data = l2_fee (l2_common_data tx)\<rparr>"

definition insertion_metadata_default :: InsertionMetadata where
  "insertion_metadata_default = \<lparr>new_score = None, previous_score = None, is_new = False\<rparr>"

definition account_insert ::
    "L2Tx \<Rightarrow> AccountTransactions \<Rightarrow> AccountTransactions \<times> InsertionMetadata" where
  "account_insert transaction self =
     (let metadata = insertion_metadata_default;
          nonce = l2_nonce (l2_common_data transaction)
      in if nonce < at_nonce self then (self, metadata)
         else
           (let score = score_for_transaction transaction;
                previous = map_option score_for_transaction (fmlookup (at_transactions self) nonce);
                self' = self\<lparr>at_transactions := fmupd nonce transaction (at_transactions self)\<rparr>;
                metadata = metadata\<lparr>is_new := (previous = None)\<rparr>
            in if nonce = at_nonce self
               then (self', metadata\<lparr>new_score := Some score, previous_score := previous\<rparr>)
               else (self', metadata)))"

definition account_next ::
    "AccountTransactions \<Rightarrow> (AccountTransactions \<times> L2Tx \<times> MempoolScore option) option" where
  "account_next self =
     (case fmlookup (at_transactions self) (at_nonce self) of
        None \<Rightarrow> None
      | Some transaction \<Rightarrow>
          (let self' = \<lparr>at_transactions = fmdrop (at_nonce self) (at_transactions self),
                        at_nonce = at_nonce self + 1\<rparr>
           in Some (self', transaction,
                map_option score_for_transaction
                  (fmlookup (at_transactions self') (at_nonce self')))))"

definition account_reset ::
    "Transaction \<Rightarrow> AccountTransactions \<Rightarrow> (AccountTransactions \<times> MempoolScore option) option" where
  "account_reset transaction self =
     (case tx_nonce transaction of
        None \<Rightarrow> None
      | Some nonce \<Rightarrow>
          Some (self\<lparr>at_nonce := min (at_nonce self) nonce\<rparr>,
                map_option score_for_transaction
                  (fmlookup (at_transactions self) (nonce + 1))))"

definition account_len :: "AccountTransactions \<Rightarrow> nat" where
  "account_len self = fmlen (at_transactions self)"

definition matches_filter :: "MempoolScore \<Rightarrow> L2TxFilter \<Rightarrow> bool" where
  "matches_filter self f \<longleftrightarrow>
     max_fee_per_gas (score_fee_data self) \<ge> ucast (fee_per_gas f)
     \<and> gas_per_pubdata_limit (score_fee_data self) \<ge> ucast (gas_per_pubdata f)"

text \<open>The order of scores: the timestamp reversed, then the account; the fee data is ignored.\<close>

datatype score_key = ScoreKey u64 address

instantiation score_key :: linorder
begin

fun less_eq_score_key :: "score_key \<Rightarrow> score_key \<Rightarrow> bool" where
  "less_eq_score_key (ScoreKey t a) (ScoreKey t' a') \<longleftrightarrow> t > t' \<or> t = t' \<and> a \<le> a'"

fun less_score_key :: "score_key \<Rightarrow> score_key \<Rightarrow> bool" where
  "less_score_key (ScoreKey t a) (ScoreKey t' a') \<longleftrightarrow> t > t' \<or> t = t' \<and> a < a'"

instance
proof
  fix x y z :: score_key
  show "x < y \<longleftrightarrow> x \<le> y \<and> \<not> y \<le> x" by (cases x; cases y) auto
  show "x \<le> x" by (cases x) simp
  show "x \<le> y \<Longrightarrow> y \<le> z \<Longrightarrow> x \<le> z" by (cases x; cases y; cases z) auto
  show "x \<le> y \<Longrightarrow> y \<le> x \<Longrightarrow> x = y" by (cases x; cases y) auto
  show "x \<le> y \<or> y \<le> x" by (cases x; cases y) auto
qed

end

definition score_cmp_key :: "MempoolScore \<Rightarrow> score_key" where
  "score_cmp_key s = ScoreKey (score_received_at_ms s) (score_account s)"

section \<open>The store (mempool_store.rs)\<close>

record MempoolInfo =
  info_stashed_accounts :: "address list"
  info_purged_accounts :: "address set"

record MempoolStats =
  stats_l1_transaction_count :: nat
  stats_l2_transaction_count :: nat
  stats_l2_priority_queue_size :: nat

record MempoolStore =
  l1_transactions :: "(u64, L1Tx) fmap"
  l2_transactions_per_account :: "(address, AccountTransactions) fmap"
  l2_priority_queue :: "MempoolScore list"
  next_priority_id :: u64
  stashed_accounts :: "address list"
  mempool_size :: nat
  capacity :: nat

abbreviation accounts where "accounts \<equiv> l2_transactions_per_account"
abbreviation queue where "queue \<equiv> l2_priority_queue"

definition mempool_new :: "u64 \<Rightarrow> nat \<Rightarrow> MempoolStore" where
  "mempool_new priority_id cap =
     \<lparr>l1_transactions = fmempty, l2_transactions_per_account = fmempty, l2_priority_queue = [],
      next_priority_id = priority_id, stashed_accounts = [], mempool_size = 0, capacity = cap\<rparr>"

definition insert_l2_transaction ::
    "L2Tx \<Rightarrow> (address, u32) fmap \<Rightarrow> MempoolStore \<Rightarrow> MempoolStore" where
  "insert_l2_transaction transaction initial_nonces self =
     (let account = l2_initiator_account transaction;
          txs = (case fmlookup (accounts self) account of
                   Some txs \<Rightarrow> txs
                 | None \<Rightarrow> account_transactions_new
                     (case fmlookup initial_nonces account of Some n \<Rightarrow> n | None \<Rightarrow> 0));
          (txs', metadata) = account_insert transaction txs;
          q1 = (case previous_score metadata of
                  Some score \<Rightarrow> bts_remove score_cmp_key score (queue self) | None \<Rightarrow> queue self);
          q2 = (case new_score metadata of
                  Some score \<Rightarrow> bts_insert score_cmp_key score q1 | None \<Rightarrow> q1)
      in self\<lparr>l2_transactions_per_account := fmupd account txs' (accounts self),
              l2_priority_queue := q2,
              mempool_size := (if is_new metadata then mempool_size self + 1 else mempool_size self)\<rparr>)"

fun mempool_insert ::
    "Transaction list \<Rightarrow> (address, u32) fmap \<Rightarrow> MempoolStore \<Rightarrow> MempoolStore option" where
  "mempool_insert [] initial_nonces self = Some self"
| "mempool_insert (tx # txs) initial_nonces self =
     (case common_data tx of
        L1 data \<Rightarrow>
          mempool_insert txs initial_nonces
            (self\<lparr>l1_transactions := fmupd (serial_id data)
                   \<lparr>l1_execute = execute tx, l1_common_data = data,
                    l1_received_timestamp_ms = received_timestamp_ms tx\<rparr> (l1_transactions self)\<rparr>)
      | L2 data \<Rightarrow>
          mempool_insert txs initial_nonces
            (insert_l2_transaction
               \<lparr>l2_execute = execute tx, l2_common_data = data,
                l2_received_timestamp_ms = received_timestamp_ms tx, l2_raw_bytes = raw_bytes tx\<rparr>
               initial_nonces self)
      | ProtocolUpgrade _ \<Rightarrow> None)"

definition has_next :: "L2TxFilter \<Rightarrow> MempoolStore \<Rightarrow> bool" where
  "has_next f self \<longleftrightarrow>
     fmlookup (l1_transactions self) (next_priority_id self) \<noteq> None
     \<or> bts_rfind (\<lambda>el. matches_filter el f) (queue self) \<noteq> None"

text \<open>The loop that stashes the accounts whose pointers were passed over.\<close>

fun stash_loop ::
    "MempoolScore list \<Rightarrow> (address, AccountTransactions) fmap \<Rightarrow> address list \<Rightarrow> nat
     \<Rightarrow> ((address, AccountTransactions) fmap \<times> address list \<times> nat) option" where
  "stash_loop [] accts stashed removed = Some (accts, stashed, removed)"
| "stash_loop (p # ps) accts stashed removed =
     (case fmlookup accts (score_account p) of
        None \<Rightarrow> None
      | Some txs \<Rightarrow>
          stash_loop ps (fmdrop (score_account p) accts) (stashed @ [score_account p])
            (removed + account_len txs))"

definition next_transaction ::
    "L2TxFilter \<Rightarrow> MempoolStore \<Rightarrow> (MempoolStore \<times> Transaction option) option" where
  "next_transaction f self =
     (case fmlookup (l1_transactions self) (next_priority_id self) of
        Some transaction \<Rightarrow>
          Some (self\<lparr>l1_transactions := fmdrop (next_priority_id self) (l1_transactions self),
                     next_priority_id := next_priority_id self + 1\<rparr>,
                Some (l1_into_transaction transaction))
      | None \<Rightarrow>
          (case bts_rfind (\<lambda>el. matches_filter el f) (queue self) of
             None \<Rightarrow> Some (self, None)
           | Some tx_pointer \<Rightarrow>
               (let (q, split) = bts_split_off score_cmp_key tx_pointer (queue self)
                in case stash_loop (drop 1 split) (accounts self) (stashed_accounts self) 0 of
                     None \<Rightarrow> None
                   | Some (accts, stashed, removed) \<Rightarrow>
                       (case fmlookup accts (score_account tx_pointer) of
                          None \<Rightarrow> None
                        | Some txs \<Rightarrow>
                            (case account_next txs of
                               None \<Rightarrow> None
                             | Some (txs', transaction, score) \<Rightarrow>
                                 (let q' = (case score of Some sc \<Rightarrow> bts_insert score_cmp_key sc q
                                                        | None \<Rightarrow> q)
                                  in if mempool_size self < removed + 1 then None
                                     else Some (self\<lparr>l2_transactions_per_account :=
                                                       fmupd (score_account tx_pointer) txs' accts,
                                                     l2_priority_queue := q',
                                                     stashed_accounts := stashed,
                                                     mempool_size := mempool_size self - (removed + 1)\<rparr>,
                                                Some (l2_into_transaction transaction))))))))"

definition mempool_rollback :: "Transaction \<Rightarrow> MempoolStore \<Rightarrow> MempoolStore option" where
  "mempool_rollback tx self =
     (case common_data tx of
        L1 data \<Rightarrow> Some (self\<lparr>next_priority_id := min (next_priority_id self) (serial_id data)\<rparr>)
      | L2 _ \<Rightarrow>
          (case fmlookup (accounts self) (initiator_account tx) of
             None \<Rightarrow> None
           | Some txs \<Rightarrow>
               (case account_reset tx txs of
                  None \<Rightarrow> None
                | Some (txs', score) \<Rightarrow>
                    Some (self\<lparr>l2_transactions_per_account :=
                                 fmupd (initiator_account tx) txs' (accounts self),
                               l2_priority_queue :=
                                 (case score of
                                    Some sc \<Rightarrow> bts_remove score_cmp_key sc (queue self)
                                  | None \<Rightarrow> queue self)\<rparr>)))
      | ProtocolUpgrade _ \<Rightarrow> None)"

definition total_len :: "(address, AccountTransactions) fmap \<Rightarrow> nat" where
  "total_len accts = (\<Sum>a\<in>fmdom' accts. account_len (the (fmlookup accts a)))"

text \<open>The purged accounts come out of a hash map in no particular order: they are a set.\<close>

definition gc :: "MempoolStore \<Rightarrow> MempoolStore \<times> address set" where
  "gc self =
     (if capacity self \<le> mempool_size self
      then (let index = score_account ` set (queue self);
                kept = fmfilter (\<lambda>a. a \<in> index) (accounts self);
                drained = fmfilter (\<lambda>a. a \<notin> index) (accounts self)
            in (self\<lparr>l2_transactions_per_account := kept, mempool_size := total_len kept\<rparr>, fmdom' drained))
      else (self, {}))"

definition get_mempool_info :: "MempoolStore \<Rightarrow> MempoolStore \<times> MempoolInfo" where
  "get_mempool_info self =
     (let (self', purged) = gc (self\<lparr>stashed_accounts := []\<rparr>)
      in (self', \<lparr>info_stashed_accounts = stashed_accounts self, info_purged_accounts = purged\<rparr>))"

definition mempool_stats :: "MempoolStore \<Rightarrow> MempoolStats" where
  "mempool_stats self =
     \<lparr>stats_l1_transaction_count = fmlen (l1_transactions self),
      stats_l2_transaction_count = mempool_size self,
      stats_l2_priority_queue_size = length (queue self)\<rparr>"

text \<open>The state keeper gives a transaction back by a rollback and a fresh insertion; a rejected
  transaction is only rolled back, and an L1 transaction must not be rejected (\<open>Inl\<close>).\<close>

definition io_rollback :: "Transaction \<Rightarrow> MempoolStore \<Rightarrow> MempoolStore option" where
  "io_rollback tx self =
     (case mempool_rollback tx self of
        None \<Rightarrow> None
      | Some self' \<Rightarrow> mempool_insert [tx] fmempty self')"

definition io_reject :: "Transaction \<Rightarrow> MempoolStore \<Rightarrow> (unit + MempoolStore) option" where
  "io_reject tx self =
     (if is_l1 tx then Some (Inl ()) else map_option Inr (mempool_rollback tx self))"

section \<open>Invariant\<close>

definition ready_score :: "AccountTransactions \<Rightarrow> MempoolScore option" where
  "ready_score txs =
     map_option score_for_transaction (fmlookup (at_transactions txs) (at_nonce txs))"

definition ready_scores :: "(address, AccountTransactions) fmap \<Rightarrow> MempoolScore set" where
  "ready_scores accts = {s. \<exists>a txs. fmlookup accts a = Some txs \<and> ready_score txs = Some s}"

text \<open>The transactions of an account are filed under their nonce, belong to the account and are
  not older than the nonce of the account.\<close>

definition account_wf :: "address \<Rightarrow> AccountTransactions \<Rightarrow> bool" where
  "account_wf a txs \<longleftrightarrow>
     (\<forall>n tx. fmlookup (at_transactions txs) n = Some tx \<longrightarrow>
        l2_nonce (l2_common_data tx) = n \<and> l2_initiator_account tx = a \<and> at_nonce txs \<le> n)"

definition accounts_wf :: "(address, AccountTransactions) fmap \<Rightarrow> bool" where
  "accounts_wf accts \<longleftrightarrow> (\<forall>a txs. fmlookup accts a = Some txs \<longrightarrow> account_wf a txs)"

definition queue_ok :: "MempoolScore list \<Rightarrow> (address, AccountTransactions) fmap \<Rightarrow> bool" where
  "queue_ok q accts \<longleftrightarrow> bts_wf score_cmp_key q \<and> set q = ready_scores accts"

definition mempool_inv :: "MempoolStore \<Rightarrow> bool" where
  "mempool_inv s \<longleftrightarrow>
     accounts_wf (accounts s) \<and> queue_ok (queue s) (accounts s)
     \<and> mempool_size s = total_len (accounts s)
     \<and> (\<forall>i tx. fmlookup (l1_transactions s) i = Some tx \<longrightarrow> serial_id (l1_common_data tx) = i)"

section \<open>Lemmas on accounts and scores\<close>

lemma score_account_of_tx [simp]:
  "score_account (score_for_transaction tx) = l2_initiator_account tx"
  by (simp add: score_for_transaction_def)

lemma score_cmp_key_account: "score_cmp_key s = score_cmp_key s' \<Longrightarrow> score_account s = score_account s'"
  by (simp add: score_cmp_key_def)

lemma word_inc_le: "(i :: u32) < m \<Longrightarrow> i + 1 \<le> m"
  by (metis add.commute inc_le)

lemma accounts_wfD: "accounts_wf m \<Longrightarrow> fmlookup m a = Some txs \<Longrightarrow> account_wf a txs"
  by (simp add: accounts_wf_def)

lemma accounts_wf_upd: "accounts_wf m \<Longrightarrow> account_wf a txs \<Longrightarrow> accounts_wf (fmupd a txs m)"
  by (simp add: accounts_wf_def)

lemma ready_score_account:
  "account_wf a txs \<Longrightarrow> ready_score txs = Some s \<Longrightarrow> score_account s = a"
  by (auto simp: account_wf_def ready_score_def)

lemma ready_scores_account:
  assumes "accounts_wf m"
  shows "s \<in> ready_scores m \<longleftrightarrow>
    (\<exists>txs. fmlookup m (score_account s) = Some txs \<and> ready_score txs = Some s)"
  using assms by (auto simp: ready_scores_def dest: accounts_wfD ready_score_account)

lemma ready_scores_upd:
  assumes "accounts_wf m" "account_wf a txs"
  shows "ready_scores (fmupd a txs m) =
    {s \<in> ready_scores m. score_account s \<noteq> a} \<union> set_option (ready_score txs)"
proof (rule set_eqI)
  fix s
  note upd = ready_scores_account [OF accounts_wf_upd [OF assms], of s]
  show "s \<in> ready_scores (fmupd a txs m) \<longleftrightarrow>
      s \<in> {s \<in> ready_scores m. score_account s \<noteq> a} \<union> set_option (ready_score txs)"
  proof (cases "score_account s = a")
    case True
    then show ?thesis by (simp add: upd)
  next
    case False
    then have "ready_score txs \<noteq> Some s" using ready_score_account [OF assms(2)] by blast
    with False show ?thesis by (simp add: upd ready_scores_account [OF assms(1)])
  qed
qed

lemma ready_scores_same_account:
  assumes "accounts_wf m" "s \<in> ready_scores m" "s' \<in> ready_scores m" "score_account s = score_account s'"
  shows "s = s'"
  using assms by (auto simp: ready_scores_account)

lemma total_len_empty [simp]: "total_len fmempty = 0"
  by (simp add: total_len_def)

lemma total_len_drop:
  assumes "fmlookup m a = Some txs"
  shows "total_len m = total_len (fmdrop a m) + account_len txs"
proof -
  have "a \<in> fmdom' m" using assms by (simp add: fmlookup_dom'_iff)
  then have "total_len m = account_len txs + (\<Sum>b\<in>fmdom' m - {a}. account_len (the (fmlookup m b)))"
    using assms by (simp add: total_len_def sum.remove [of _ a])
  also have "(\<Sum>b\<in>fmdom' m - {a}. account_len (the (fmlookup m b))) = total_len (fmdrop a m)"
    unfolding total_len_def by (rule sum.cong) auto
  finally show ?thesis by simp
qed

lemma total_len_upd: "total_len (fmupd a txs m) = total_len (fmdrop a m) + account_len txs"
proof -
  have "fmdrop a (fmupd a txs m) = fmdrop a m" by (rule fmap_ext) simp
  then show ?thesis using total_len_drop [of "fmupd a txs m" a txs] by simp
qed

lemma fmdrop_absent [simp]: "fmlookup m a = None \<Longrightarrow> fmdrop a m = m"
  by (rule fmap_ext) auto

section \<open>The operations of an account\<close>

lemma account_wf_new [simp]: "account_wf a (account_transactions_new n)"
  by (simp add: account_wf_def account_transactions_new_def)

lemma account_insert_wf:
  "account_wf a txs \<Longrightarrow> l2_initiator_account tx = a \<Longrightarrow> account_wf a (fst (account_insert tx txs))"
  by (auto simp: account_insert_def account_wf_def Let_def)

lemma account_insert_ready:
  assumes "account_insert tx txs = (txs', md)"
  shows "ready_score txs' = (case new_score md of Some s \<Rightarrow> Some s | None \<Rightarrow> ready_score txs)"
    "new_score md \<noteq> None \<Longrightarrow> previous_score md = ready_score txs"
    "new_score md = None \<Longrightarrow> previous_score md = None"
    "account_len txs' = (if is_new md then account_len txs + 1 else account_len txs)"
    "new_score md = Some s \<Longrightarrow> score_account s = l2_initiator_account tx"
  using assms
  by (auto simp: account_insert_def ready_score_def insertion_metadata_default_def Let_def
      account_len_def fmlen_upd split: if_splits)

lemma account_next_Some:
  assumes "ready_score txs = Some s"
  obtains txs' tx where "account_next txs = Some (txs', tx, ready_score txs')"
    and "fmlookup (at_transactions txs) (at_nonce txs) = Some tx"
    and "txs' = \<lparr>at_transactions = fmdrop (at_nonce txs) (at_transactions txs),
                 at_nonce = at_nonce txs + 1\<rparr>"
    and "s = score_for_transaction tx"
    and "account_len txs = account_len txs' + 1"
  using assms fmlen_drop [of "at_transactions txs" "at_nonce txs"]
  by (auto simp: account_next_def ready_score_def Let_def account_len_def)

lemma account_wf_next:
  assumes "account_wf a txs"
  shows "account_wf a \<lparr>at_transactions = fmdrop (at_nonce txs) (at_transactions txs),
                       at_nonce = at_nonce txs + 1\<rparr>"
  using assms unfolding account_wf_def by (auto intro!: word_inc_le simp: order.strict_iff_order)

section \<open>Insertion\<close>

lemma queue_remove_ready:
  assumes "accounts_wf m" "queue_ok q m" "fmlookup m a = Some txs" "ready_score txs = Some p"
  shows "set (bts_remove score_cmp_key p q) = {s \<in> ready_scores m. score_account s \<noteq> a}"
proof -
  have p: "p \<in> ready_scores m" using assms by (auto simp: ready_scores_def)
  have "score_account p = a"
    using accounts_wfD [OF assms(1,3)] assms(4) by (rule ready_score_account)
  have "score_cmp_key s \<noteq> score_cmp_key p \<longleftrightarrow> score_account s \<noteq> a" if "s \<in> ready_scores m" for s
    using that p assms(1) \<open>score_account p = a\<close> ready_scores_same_account score_cmp_key_account
    by metis
  with assms(2) show ?thesis by (auto simp: bts_remove_set queue_ok_def)
qed

lemma queue_insert_fresh:
  assumes "bts_wf score_cmp_key q" "\<forall>s \<in> set q. score_account s \<noteq> score_account sc"
  shows "set (bts_insert score_cmp_key sc q) = insert sc (set q)"
proof -
  have "score_cmp_key sc \<notin> score_cmp_key ` set q"
  proof
    assume "score_cmp_key sc \<in> score_cmp_key ` set q"
    then obtain s where "s \<in> set q" and "score_cmp_key sc = score_cmp_key s" by blast
    with score_cmp_key_account assms(2) show False by metis
  qed
  with assms(1) show ?thesis by (simp add: bts_insert_set)
qed

lemma account_not_ready:
  assumes "accounts_wf m" "s \<in> ready_scores m"
    and "fmlookup m a = None \<or> (\<exists>txs. fmlookup m a = Some txs \<and> ready_score txs = None)"
  shows "score_account s \<noteq> a"
  using assms by (auto simp: ready_scores_account)

lemma insert_l2_queue:
  assumes m: "accounts_wf m" and q: "queue_ok q m"
    and txs: "fmlookup m a = Some txs \<or> fmlookup m a = None \<and> txs = account_transactions_new n0"
    and ins: "account_insert tx txs = (txs', md)" and a: "l2_initiator_account tx = a"
  defines "q1 \<equiv> (case previous_score md of Some s \<Rightarrow> bts_remove score_cmp_key s q | None \<Rightarrow> q)"
  shows "queue_ok (case new_score md of Some s \<Rightarrow> bts_insert score_cmp_key s q1 | None \<Rightarrow> q1)
           (fmupd a txs' m)"
proof -
  have wf: "account_wf a txs" using m txs accounts_wfD by auto
  then have wf': "account_wf a txs'" using account_insert_wf [of a txs tx] ins a by simp
  note rs = ready_scores_upd [OF m wf']
  have bts: "bts_wf score_cmp_key q" and set_q: "set q = ready_scores m"
    using q by (simp_all add: queue_ok_def)
  have old: "{s \<in> ready_scores m. score_account s = a} = set_option (ready_score txs)"
    using txs wf m
    by (auto simp: ready_scores_account account_transactions_new_def ready_score_def
        dest: ready_score_account [unfolded ready_score_def])
  show ?thesis
  proof (cases "new_score md")
    case None
    then have "ready_score txs' = ready_score txs" "q1 = q"
      using account_insert_ready(1,3) [OF ins] by (simp_all add: q1_def)
    with None show ?thesis using bts set_q old rs by (auto simp: queue_ok_def)
  next
    case (Some sc)
    note md = account_insert_ready [OF ins]
    have prev: "previous_score md = ready_score txs" and ready': "ready_score txs' = Some sc"
      and acc: "score_account sc = a" using md(1,2,5) Some a by simp_all
    have q1: "set q1 = {s \<in> ready_scores m. score_account s \<noteq> a}"
    proof (cases "ready_score txs")
      case None
      with old have "{s \<in> ready_scores m. score_account s \<noteq> a} = ready_scores m" by auto
      with None prev set_q show ?thesis by (simp add: q1_def)
    next
      case (Some p)
      then have "fmlookup m a = Some txs"
        using txs by (auto simp: ready_score_def account_transactions_new_def)
      with Some prev m q show ?thesis by (simp add: q1_def queue_remove_ready)
    qed
    have bts1: "bts_wf score_cmp_key q1"
      using bts by (simp add: q1_def bts_remove_wf split: option.split)
    have "set (bts_insert score_cmp_key sc q1) = insert sc (set q1)"
      using bts1 q1 acc by (intro queue_insert_fresh) auto
    then show ?thesis
      using Some bts1 q1 rs ready' by (auto simp: queue_ok_def bts_insert_wf)
  qed
qed

lemma insert_l2_inv:
  assumes "mempool_inv s"
  shows "mempool_inv (insert_l2_transaction tx nonces s)"
proof -
  let ?a = "l2_initiator_account tx" and ?m = "accounts s"
  define n0 where "n0 = (case fmlookup nonces ?a of Some n \<Rightarrow> n | None \<Rightarrow> 0)"
  define txs where "txs = (case fmlookup ?m ?a of Some t \<Rightarrow> t | None \<Rightarrow> account_transactions_new n0)"
  obtain txs' md where ins: "account_insert tx txs = (txs', md)" by force
  have inv: "accounts_wf ?m" "queue_ok (queue s) ?m" "mempool_size s = total_len ?m"
    using assms by (simp_all add: mempool_inv_def)
  have txs: "fmlookup ?m ?a = Some txs \<or> fmlookup ?m ?a = None \<and> txs = account_transactions_new n0"
    by (cases "fmlookup ?m ?a") (simp_all add: txs_def)
  then have wf: "account_wf ?a txs" using inv accounts_wfD by auto
  have "total_len ?m = total_len (fmdrop ?a ?m) + account_len txs"
    using txs total_len_drop [of ?m ?a txs]
    by (auto simp: account_transactions_new_def account_len_def)
  then have len: "total_len (fmupd ?a txs' ?m) =
      (if is_new md then mempool_size s + 1 else mempool_size s)"
    using account_insert_ready(4) [OF ins] inv(3) by (simp add: total_len_upd)
  have "accounts_wf (fmupd ?a txs' ?m)"
    using inv(1) account_insert_wf [OF wf refl] ins by (simp add: accounts_wf_upd)
  moreover note insert_l2_queue [OF inv(1,2) txs ins refl] len ins [unfolded txs_def n0_def]
  ultimately show ?thesis
    using assms by (simp add: mempool_inv_def insert_l2_transaction_def Let_def)
qed

lemma mempool_insert_inv:
  "mempool_inv s \<Longrightarrow> mempool_insert txs nonces s = Some s' \<Longrightarrow> mempool_inv s'"
proof (induction txs arbitrary: s)
  case Nil
  then show ?case by simp
next
  case (Cons tx txs)
  show ?case
  proof (cases "common_data tx")
    case (L1 d)
    let ?s = "s\<lparr>l1_transactions := fmupd (serial_id d)
        \<lparr>l1_execute = execute tx, l1_common_data = d,
         l1_received_timestamp_ms = received_timestamp_ms tx\<rparr> (l1_transactions s)\<rparr>"
    have "mempool_inv ?s" using Cons.prems(1) by (simp add: mempool_inv_def)
    then show ?thesis using Cons.IH Cons.prems(2) L1 by simp
  next
    case (L2 d)
    then show ?thesis
      using Cons.IH [OF insert_l2_inv [OF Cons.prems(1)]] Cons.prems(2) by simp
  next
    case (ProtocolUpgrade d)
    then show ?thesis using Cons.prems by simp
  qed
qed

section \<open>Fetching\<close>

lemma fmdrop_set_insert: "fmdrop_set A (fmdrop a m) = fmdrop_set (insert a A) m"
  by (rule fmap_ext) auto

lemma stash_loop_Some:
  assumes "distinct (map score_account ps)" "\<forall>p \<in> set ps. fmlookup m (score_account p) \<noteq> None"
  shows "\<exists>removed. stash_loop ps m stashed r =
      Some (fmdrop_set (score_account ` set ps) m, stashed @ map score_account ps, r + removed)
    \<and> total_len m = total_len (fmdrop_set (score_account ` set ps) m) + removed"
  using assms
proof (induction ps arbitrary: m stashed r)
  case Nil
  then show ?case by simp
next
  case (Cons p ps)
  then obtain txs where txs: "fmlookup m (score_account p) = Some txs" by auto
  let ?m = "fmdrop (score_account p) m"
  have present: "\<forall>q \<in> set ps. fmlookup ?m (score_account q) \<noteq> None"
  proof
    fix q assume "q \<in> set ps"
    then have "score_account q \<noteq> score_account p"
      using Cons.prems(1) by (simp add: image_iff) metis
    with \<open>q \<in> set ps\<close> Cons.prems(2) show "fmlookup ?m (score_account q) \<noteq> None" by simp
  qed
  have "distinct (map score_account ps)" using Cons.prems(1) by simp
  from Cons.IH [OF this present, of "stashed @ [score_account p]" "r + account_len txs"]
  obtain removed where
    "stash_loop ps ?m (stashed @ [score_account p]) (r + account_len txs) =
      Some (fmdrop_set (score_account ` set ps) ?m,
            (stashed @ [score_account p]) @ map score_account ps, (r + account_len txs) + removed)"
    "total_len ?m = total_len (fmdrop_set (score_account ` set ps) ?m) + removed" by blast
  with txs show ?case
    using total_len_drop [OF txs] by (simp add: fmdrop_set_insert)
qed

text \<open>The scores that a fetch passes over.\<close>

definition stashed_by :: "MempoolScore \<Rightarrow> MempoolStore \<Rightarrow> MempoolScore list" where
  "stashed_by p s = filter (\<lambda>y. score_cmp_key p < score_cmp_key y) (queue s)"

text \<open>The store after a fetch that leaves the account of \<open>p\<close> with the transactions \<open>txs\<close>.\<close>

definition fetched_store :: "MempoolScore \<Rightarrow> AccountTransactions \<Rightarrow> MempoolStore \<Rightarrow> MempoolStore" where
  "fetched_store p txs s =
     (let kept = fmdrop_set (score_account ` set (stashed_by p s)) (accounts s);
          below = filter (\<lambda>y. score_cmp_key y < score_cmp_key p) (queue s)
      in s\<lparr>l2_transactions_per_account := fmupd (score_account p) txs kept,
           l2_priority_queue := (case ready_score txs of
              Some sc \<Rightarrow> bts_insert score_cmp_key sc below | None \<Rightarrow> below),
           stashed_accounts := stashed_accounts s @ map score_account (stashed_by p s),
           mempool_size := total_len (fmupd (score_account p) txs kept)\<rparr>)"

lemma queue_accounts_distinct:
  assumes "accounts_wf m" "queue_ok q m"
  shows "distinct (map score_account (filter P q))"
proof -
  have "distinct q" using assms(2) bts_wf_inj_on by (auto simp: queue_ok_def)
  moreover have "inj_on score_account (set q)"
    using assms ready_scores_same_account by (auto simp: queue_ok_def inj_on_def)
  ultimately show ?thesis by (auto simp: distinct_map intro: inj_on_subset)
qed

lemma next_l2_result:
  assumes inv: "mempool_inv s" and l1: "fmlookup (l1_transactions s) (next_priority_id s) = None"
    and p: "bts_rfind (\<lambda>el. matches_filter el f) (queue s) = Some p"
  obtains txs txs' tx where
    "fmlookup (accounts s) (score_account p) = Some txs" "ready_score txs = Some p"
    "fmlookup (at_transactions txs) (at_nonce txs) = Some tx"
    "txs' = \<lparr>at_transactions = fmdrop (at_nonce txs) (at_transactions txs),
             at_nonce = at_nonce txs + 1\<rparr>"
    "p = score_for_transaction tx"
    "next_transaction f s =
       Some (fetched_store p txs' s, Some (l2_into_transaction tx))"
proof -
  define a where "a = score_account p"
  define kept where "kept = fmdrop_set (score_account ` set (stashed_by p s)) (accounts s)"
  define below where "below = filter (\<lambda>y. score_cmp_key y < score_cmp_key p) (queue s)"
  let ?m = "accounts s" and ?q = "queue s"
  have wf: "accounts_wf ?m" and q: "queue_ok ?q ?m" and sz: "mempool_size s = total_len ?m"
    using inv by (simp_all add: mempool_inv_def)
  have bts: "bts_wf score_cmp_key ?q" and set_q: "set ?q = ready_scores ?m"
    using q by (simp_all add: queue_ok_def)
  have pq: "p \<in> set ?q" using bts_rfind_Some [OF bts p] by simp
  then obtain txs where txs: "fmlookup ?m a = Some txs" and ready: "ready_score txs = Some p"
    using set_q ready_scores_account [OF wf] by (auto simp: a_def)
  have not_stashed: "a \<notin> score_account ` set (stashed_by p s)"
  proof
    assume "a \<in> score_account ` set (stashed_by p s)"
    then obtain y where "y \<in> set ?q" "score_account y = a" "score_cmp_key p < score_cmp_key y"
      by (auto simp: stashed_by_def)
    with pq ready_scores_same_account [OF wf] set_q show False by (auto simp: a_def)
  qed
  then have kept_a: "fmlookup kept a = Some txs" using txs by (simp add: kept_def)
  have "\<forall>y \<in> set (stashed_by p s). fmlookup ?m (score_account y) \<noteq> None"
    using set_q ready_scores_account [OF wf] by (auto simp: stashed_by_def)
  then obtain removed where
    loop: "stash_loop (stashed_by p s) ?m (stashed_accounts s) 0 =
        Some (kept, stashed_accounts s @ map score_account (stashed_by p s), removed)"
    and len: "total_len ?m = total_len kept + removed"
    using stash_loop_Some [of "stashed_by p s" ?m "stashed_accounts s" 0]
      queue_accounts_distinct [OF wf q] by (auto simp: stashed_by_def kept_def)
  obtain txs' tx where nxt: "account_next txs = Some (txs', tx, ready_score txs')"
    and tx: "fmlookup (at_transactions txs) (at_nonce txs) = Some tx"
    and txs': "txs' = \<lparr>at_transactions = fmdrop (at_nonce txs) (at_transactions txs),
                       at_nonce = at_nonce txs + 1\<rparr>"
    and ptx: "p = score_for_transaction tx" and alen: "account_len txs = account_len txs' + 1"
    using account_next_Some [OF ready] .
  have "total_len kept = total_len (fmupd a txs' kept) + 1"
    using total_len_drop [OF kept_a] alen by (simp add: total_len_upd)
  then have size: "\<not> mempool_size s < removed + 1"
    "mempool_size s - (removed + 1) = total_len (fmupd a txs' kept)" using sz len by simp_all
  have split: "bts_split_off score_cmp_key p ?q = (below, p # stashed_by p s)"
    using bts_split_off_tail [OF bts pq]
    by (simp add: bts_split_off_def below_def stashed_by_def)
  have "next_transaction f s =
       Some (fetched_store p txs' s, Some (l2_into_transaction tx))"
    using l1 p loop kept_a nxt size
    by (simp add: next_transaction_def split Let_def fetched_store_def flip: a_def kept_def below_def
        cong: option.case_cong)
  with txs ready tx txs' ptx show ?thesis using that by (simp add: a_def)
qed

lemma queue_after_next:
  assumes inv: "mempool_inv s" and p: "p \<in> set (queue s)"
    and txs: "fmlookup (accounts s) (score_account p) = Some txs"
    and txs': "txs' = \<lparr>at_transactions = fmdrop (at_nonce txs) (at_transactions txs),
             at_nonce = at_nonce txs + 1\<rparr>"
  defines "kept \<equiv> fmdrop_set (score_account ` set (stashed_by p s)) (accounts s)"
    and "below \<equiv> filter (\<lambda>y. score_cmp_key y < score_cmp_key p) (queue s)"
  shows "accounts_wf (fmupd (score_account p) txs' kept)"
    and "queue_ok (case ready_score txs' of
                  Some sc \<Rightarrow> bts_insert score_cmp_key sc below | None \<Rightarrow> below)
           (fmupd (score_account p) txs' kept)"
proof -
  let ?a = "score_account p" and ?m = "accounts s"
  have wf: "accounts_wf ?m" and bts: "bts_wf score_cmp_key (queue s)"
    and set_q: "set (queue s) = ready_scores ?m"
    using inv by (simp_all add: mempool_inv_def queue_ok_def)
  have kept_wf: "accounts_wf kept" using wf by (simp add: kept_def accounts_wf_def)
  have wf': "account_wf ?a txs'" using accounts_wfD [OF wf txs] account_wf_next txs' by simp
  show "accounts_wf (fmupd ?a txs' kept)" by (rule accounts_wf_upd [OF kept_wf wf'])
  have kept_ready: "s' \<in> ready_scores kept \<longleftrightarrow>
      s' \<in> set (queue s) \<and> score_account s' \<notin> score_account ` set (stashed_by p s)" for s'
    unfolding ready_scores_account [OF kept_wf] set_q ready_scores_account [OF wf]
    by (simp add: kept_def)
  have below: "set below = {s' \<in> ready_scores kept. score_account s' \<noteq> ?a}"
  proof (rule set_eqI)
    fix y
    have *: "y = z" if "y \<in> set (queue s)" "z \<in> set (queue s)" "score_account y = score_account z" for z
      using that ready_scores_same_account [OF wf] set_q by blast
    show "y \<in> set below \<longleftrightarrow> y \<in> {s' \<in> ready_scores kept. score_account s' \<noteq> ?a}"
    proof
      assume y: "y \<in> set below"
      then have yq: "y \<in> set (queue s)" and lt: "score_cmp_key y < score_cmp_key p"
        by (simp_all add: below_def)
      have "score_account y \<noteq> ?a" using * [OF yq p] lt by blast
      moreover have "score_account y \<notin> score_account ` set (stashed_by p s)"
        using * [OF yq] lt by (auto simp: stashed_by_def dest: less_asym)
      ultimately show "y \<in> {s' \<in> ready_scores kept. score_account s' \<noteq> ?a}"
        using yq kept_ready by simp
    next
      assume "y \<in> {s' \<in> ready_scores kept. score_account s' \<noteq> ?a}"
      then have yq: "y \<in> set (queue s)" and "score_account y \<noteq> ?a"
        and "y \<notin> set (stashed_by p s)" using kept_ready by auto
      moreover from this have "score_cmp_key y \<noteq> score_cmp_key p"
        using score_cmp_key_account by blast
      ultimately show "y \<in> set below" by (auto simp: stashed_by_def below_def)
    qed
  qed
  have bts_below: "bts_wf score_cmp_key below" using bts by (simp add: below_def bts_wf_filter)
  show "queue_ok (case ready_score txs' of
      Some sc \<Rightarrow> bts_insert score_cmp_key sc below | None \<Rightarrow> below) (fmupd ?a txs' kept)"
  proof (cases "ready_score txs'")
    case None
    then show ?thesis
      using below bts_below ready_scores_upd [OF kept_wf wf'] by (simp add: queue_ok_def)
  next
    case (Some sc)
    have "score_account sc = ?a" by (rule ready_score_account [OF wf' Some])
    then have "set (bts_insert score_cmp_key sc below) = insert sc (set below)"
      using below by (intro queue_insert_fresh [OF bts_below]) auto
    with Some show ?thesis
      using below bts_below ready_scores_upd [OF kept_wf wf'] by (simp add: queue_ok_def bts_insert_wf)
  qed
qed

lemma next_transaction_total:
  assumes inv: "mempool_inv s"
  obtains s' r where "next_transaction f s = Some (s', r)" "mempool_inv s'"
    "r \<noteq> None \<longleftrightarrow> has_next f s"
proof (cases "fmlookup (l1_transactions s) (next_priority_id s)")
  case (Some tx)
  with inv show ?thesis
    using that by (simp add: next_transaction_def has_next_def mempool_inv_def)
next
  case l1: None
  show ?thesis
  proof (cases "bts_rfind (\<lambda>el. matches_filter el f) (queue s)")
    case None
    with l1 inv show ?thesis using that by (simp add: next_transaction_def has_next_def)
  next
    case (Some p)
    have q: "p \<in> set (queue s)"
      using bts_rfind_Some [OF _ Some] inv by (auto simp: mempool_inv_def queue_ok_def)
    obtain txs txs' tx where txs: "fmlookup (accounts s) (score_account p) = Some txs"
      and txs': "txs' = \<lparr>at_transactions = fmdrop (at_nonce txs) (at_transactions txs),
             at_nonce = at_nonce txs + 1\<rparr>"
      and nxt: "next_transaction f s = Some (fetched_store p txs' s, Some (l2_into_transaction tx))"
      using next_l2_result [OF inv l1 Some] by blast
    show ?thesis
    proof (rule that [OF nxt])
      show "mempool_inv (fetched_store p txs' s)"
        using queue_after_next [OF inv q txs txs'] inv
        by (simp add: mempool_inv_def fetched_store_def Let_def)
    qed (simp add: has_next_def Some)
  qed
qed

section \<open>Rollback and garbage collection\<close>

text \<open>A transaction can be given back when it is the last one that its account handed out: the
  account is still there and its nonce is the successor of the transaction's nonce.\<close>

definition can_rollback :: "MempoolStore \<Rightarrow> Transaction \<Rightarrow> bool" where
  "can_rollback s tx \<longleftrightarrow>
     (case common_data tx of
        L1 _ \<Rightarrow> True
      | L2 d \<Rightarrow> (case fmlookup (accounts s) (initiator_address d) of
                  Some txs \<Rightarrow> at_nonce txs = l2_nonce d + 1 \<and> l2_nonce d < at_nonce txs
                | None \<Rightarrow> False)
      | ProtocolUpgrade _ \<Rightarrow> False)"

lemma rollback_l2_result:
  assumes "mempool_inv s" "common_data tx = L2 d"
    and "fmlookup (accounts s) (initiator_address d) = Some txs"
    and "at_nonce txs = l2_nonce d + 1" "l2_nonce d < at_nonce txs"
  defines "txs' \<equiv> txs\<lparr>at_nonce := l2_nonce d\<rparr>"
  shows "\<exists>q. mempool_rollback tx s =
      Some (s\<lparr>l2_transactions_per_account := fmupd (initiator_address d) txs' (accounts s),
              l2_priority_queue := q\<rparr>)
    \<and> queue_ok q (fmupd (initiator_address d) txs' (accounts s))
    \<and> accounts_wf (fmupd (initiator_address d) txs' (accounts s))
    \<and> ready_score txs' = None"
proof -
  let ?a = "initiator_address d" and ?m = "accounts s"
  have wf: "accounts_wf ?m" and q: "queue_ok (queue s) ?m"
    using assms(1) by (simp_all add: mempool_inv_def)
  have awf: "account_wf ?a txs" by (rule accounts_wfD [OF wf assms(3)])
  then have none: "fmlookup (at_transactions txs) (l2_nonce d) = None"
    using assms(5) unfolding account_wf_def by (metis leD not_None_eq)
  have wf': "account_wf ?a txs'"
    using awf order_trans [OF less_imp_le [OF assms(5)]] by (auto simp: txs'_def account_wf_def)
  have reset: "account_reset tx txs = Some (txs', ready_score txs)"
    using assms(2,4,5) by (simp add: account_reset_def tx_nonce_def txs'_def ready_score_def min_def)
  have ready': "ready_score txs' = None" using none by (simp add: txs'_def ready_score_def)
  have rs: "ready_scores (fmupd ?a txs' ?m) = {s' \<in> ready_scores ?m. score_account s' \<noteq> ?a}"
    using ready_scores_upd [OF wf wf'] ready' by simp
  let ?q = "case ready_score txs of Some sc \<Rightarrow> bts_remove score_cmp_key sc (queue s) | None \<Rightarrow> queue s"
  have "queue_ok ?q (fmupd ?a txs' ?m)"
  proof (cases "ready_score txs")
    case None
    with account_not_ready [OF wf] assms(3) have "{s' \<in> ready_scores ?m. score_account s' \<noteq> ?a} = ready_scores ?m"
      by blast
    with None q rs show ?thesis by (simp add: queue_ok_def)
  next
    case (Some sc)
    with q rs show ?thesis
      using queue_remove_ready [OF wf q assms(3) Some] by (simp add: queue_ok_def bts_remove_wf)
  qed
  moreover have "mempool_rollback tx s =
      Some (s\<lparr>l2_transactions_per_account := fmupd ?a txs' ?m, l2_priority_queue := ?q\<rparr>)"
    using assms(2,3) reset by (simp add: mempool_rollback_def initiator_account_def)
  ultimately show ?thesis using accounts_wf_upd [OF wf wf'] ready' by blast
qed

lemma rollback_inv:
  assumes inv: "mempool_inv s" and can: "can_rollback s tx"
  obtains s' where "mempool_rollback tx s = Some s'" "mempool_inv s'"
proof (cases "common_data tx")
  case (L1 d)
  with inv show ?thesis using that by (simp add: mempool_rollback_def mempool_inv_def)
next
  case (L2 d)
  with can obtain txs where txs: "fmlookup (accounts s) (initiator_address d) = Some txs"
    and n: "at_nonce txs = l2_nonce d + 1" "l2_nonce d < at_nonce txs"
    by (auto simp: can_rollback_def split: option.splits)
  let ?txs' = "txs\<lparr>at_nonce := l2_nonce d\<rparr>"
  have "total_len (fmupd (initiator_address d) ?txs' (accounts s)) = total_len (accounts s)"
    using total_len_drop [OF txs] by (simp add: total_len_upd account_len_def)
  then show ?thesis
    using rollback_l2_result [OF inv L2 txs n] inv that by (auto simp: mempool_inv_def)
next
  case (ProtocolUpgrade d)
  with can show ?thesis by (simp add: can_rollback_def)
qed

lemma gc_ready_scores:
  assumes "accounts_wf m"
  shows "ready_scores (fmfilter (\<lambda>a. a \<in> score_account ` ready_scores m) m) = ready_scores m"
proof -
  have "accounts_wf (fmfilter (\<lambda>a. a \<in> score_account ` ready_scores m) m)"
    using assms by (simp add: accounts_wf_def)
  then show ?thesis
    using assms by (auto simp: ready_scores_account split: if_splits)
qed

lemma get_mempool_info_inv:
  assumes "mempool_inv s"
  shows "mempool_inv (fst (get_mempool_info s))"
proof (cases "capacity s \<le> mempool_size s")
  case True
  have "accounts_wf (fmfilter P (accounts s))" for P
    using assms by (simp add: accounts_wf_def mempool_inv_def)
  then show ?thesis
    using assms True gc_ready_scores [of "accounts s"]
    by (simp add: get_mempool_info_def gc_def Let_def mempool_inv_def queue_ok_def
        cong del: fmfilter_cong)
next
  case False
  with assms show ?thesis by (simp add: get_mempool_info_def gc_def mempool_inv_def)
qed

section \<open>Reachable stores\<close>

inductive mempool_step :: "MempoolStore \<Rightarrow> MempoolStore \<Rightarrow> bool" where
  step_insert: "mempool_insert txs nonces s = Some s' \<Longrightarrow> mempool_step s s'"
| step_next: "next_transaction f s = Some (s', r) \<Longrightarrow> mempool_step s s'"
| step_rollback: "can_rollback s tx \<Longrightarrow> io_rollback tx s = Some s' \<Longrightarrow> mempool_step s s'"
| step_reject: "can_rollback s tx \<Longrightarrow> io_reject tx s = Some (Inr s') \<Longrightarrow> mempool_step s s'"
| step_info: "get_mempool_info s = (s', info) \<Longrightarrow> mempool_step s s'"

inductive mempool_reachable :: "MempoolStore \<Rightarrow> bool" where
  reach_new: "mempool_reachable (mempool_new i c)"
| reach_step: "mempool_reachable s \<Longrightarrow> mempool_step s s' \<Longrightarrow> mempool_reachable s'"

inductive_cases mempool_stepE: "mempool_step s s'"

lemma mempool_new_inv: "mempool_inv (mempool_new i c)"
  by (simp add: mempool_inv_def mempool_new_def accounts_wf_def queue_ok_def ready_scores_def)

lemma mempool_step_inv:
  assumes "mempool_step s s'" "mempool_inv s"
  shows "mempool_inv s'"
  using assms
proof (induction rule: mempool_step.induct)
  case (step_insert txs nonces s s')
  then show ?case by (blast intro: mempool_insert_inv)
next
  case (step_next f s s' r)
  obtain s1 r1 where "next_transaction f s = Some (s1, r1)" "mempool_inv s1"
    by (rule next_transaction_total [OF step_next(2)])
  with step_next(1) show ?case by simp
next
  case (step_rollback s tx s')
  obtain s1 where s1: "mempool_rollback tx s = Some s1" "mempool_inv s1"
    by (rule rollback_inv [OF step_rollback(3,1)])
  with step_rollback(2) have "mempool_insert [tx] fmempty s1 = Some s'"
    by (simp add: io_rollback_def)
  with s1(2) show ?case by (rule mempool_insert_inv)
next
  case (step_reject s tx s')
  obtain s1 where "mempool_rollback tx s = Some s1" "mempool_inv s1"
    by (rule rollback_inv [OF step_reject(3,1)])
  with step_reject(2) show ?case by (simp add: io_reject_def split: if_splits)
next
  case (step_info s s' info)
  then show ?case using get_mempool_info_inv [of s] by simp
qed

lemma mempool_reachable_inv: "mempool_reachable s \<Longrightarrow> mempool_inv s"
  by (induction rule: mempool_reachable.induct) (auto intro: mempool_new_inv mempool_step_inv)

section \<open>Giving a transaction back\<close>

lemma bts_wf_set_eq:
  assumes "bts_wf key xs" "bts_wf key ys" "set xs = set ys"
  shows "xs = ys"
proof -
  have "map key xs = map key ys"
    using assms strict_sorted_equal [of "map key ys" "map key xs"] by (simp add: bts_wf_def)
  moreover have "inj_on key (set xs \<union> set ys)" using assms bts_wf_inj_on by fastforce
  ultimately show ?thesis by (rule map_inj_on)
qed

text \<open>The queue and the size of a store are determined by its accounts.\<close>

lemma mempool_store_eqI:
  assumes "mempool_inv s" "mempool_inv s'" "accounts s = accounts s'"
    and "l1_transactions s = l1_transactions s'" "next_priority_id s = next_priority_id s'"
    and "stashed_accounts s = stashed_accounts s'" "capacity s = capacity s'"
  shows "s = s'"
proof -
  have "queue s = queue s'"
    using assms(1-3) bts_wf_set_eq unfolding mempool_inv_def queue_ok_def by metis
  moreover have "mempool_size s = mempool_size s'" using assms(1-3) by (simp add: mempool_inv_def)
  ultimately show ?thesis using assms by (intro MempoolStore.equality) simp_all
qed

lemma insert_l2_fields [simp]:
  "l1_transactions (insert_l2_transaction tx nonces s) = l1_transactions s"
  "next_priority_id (insert_l2_transaction tx nonces s) = next_priority_id s"
  "stashed_accounts (insert_l2_transaction tx nonces s) = stashed_accounts s"
  "capacity (insert_l2_transaction tx nonces s) = capacity s"
  by (simp_all add: insert_l2_transaction_def Let_def split: prod.split)

lemma insert_l2_accounts:
  "fmlookup (accounts s) (l2_initiator_account tx) = Some txs \<Longrightarrow>
   accounts (insert_l2_transaction tx nonces s) =
     fmupd (l2_initiator_account tx) (fst (account_insert tx txs)) (accounts s)"
  by (simp add: insert_l2_transaction_def Let_def split: prod.split)

lemma word_less_inc: "(n :: 'a::len word) \<noteq> - 1 \<Longrightarrow> n < n + 1"
proof -
  assume "n \<noteq> - 1"
  then have "1 + n \<noteq> 0" by (metis add.commute add_eq_0_iff)
  then have "unat (1 + n) = Suc (unat n)" by (rule unatSuc)
  then show ?thesis by (simp add: word_less_nat_alt add.commute)
qed

lemma account_insert_back:
  assumes "account_wf a txs" "fmlookup (at_transactions txs) (at_nonce txs) = Some tx"
  shows "fst (account_insert tx \<lparr>at_transactions = fmdrop (at_nonce txs) (at_transactions txs),
                                 at_nonce = at_nonce txs\<rparr>) = txs"
proof -
  have "l2_nonce (l2_common_data tx) = at_nonce txs" using assms by (simp add: account_wf_def)
  moreover have "fmupd (at_nonce txs) tx (fmdrop (at_nonce txs) (at_transactions txs)) = at_transactions txs"
    using assms(2) by (intro fmap_ext) auto
  ultimately show ?thesis by (simp add: account_insert_def Let_def)
qed

lemma l2_rollback_restores:
  assumes inv: "mempool_inv s" and l1: "fmlookup (l1_transactions s) (next_priority_id s) = None"
    and p: "bts_rfind (\<lambda>el. matches_filter el f) (queue s) = Some p"
    and nxt: "next_transaction f s = Some (s', Some tx)"
    and no_stash: "stashed_accounts s' = stashed_accounts s"
    and no_wrap: "\<forall>d. common_data tx = L2 d \<longrightarrow> l2_nonce d \<noteq> - 1"
  shows "io_rollback tx s' = Some s"
proof -
  let ?a = "score_account p"
  obtain txs txs' ltx where txs: "fmlookup (accounts s) ?a = Some txs"
    and ltx: "fmlookup (at_transactions txs) (at_nonce txs) = Some ltx"
    and txs': "txs' = \<lparr>at_transactions = fmdrop (at_nonce txs) (at_transactions txs),
             at_nonce = at_nonce txs + 1\<rparr>"
    and eq: "next_transaction f s = Some (fetched_store p txs' s, Some (l2_into_transaction ltx))"
    using next_l2_result [OF inv l1 p] .
  have res: "s' = fetched_store p txs' s" "tx = l2_into_transaction ltx"
    using eq nxt by simp_all
  have awf: "account_wf ?a txs" using inv txs accounts_wfD by (auto simp: mempool_inv_def)
  then have nonce: "l2_nonce (l2_common_data ltx) = at_nonce txs"
    and init: "initiator_address (l2_common_data ltx) = ?a"
    using ltx by (simp_all add: account_wf_def l2_initiator_account_def)
  have cd: "common_data tx = L2 (l2_common_data ltx)" by (simp add: res l2_into_transaction_def)
  have inv': "mempool_inv s'" using next_transaction_total [OF inv, of f] nxt by auto
  have stash: "stashed_by p s = []" using no_stash res by (simp add: fetched_store_def Let_def)
  then have acc': "accounts s' = fmupd ?a txs' (accounts s)"
    by (simp add: res fetched_store_def Let_def fmdrop_set_null)
  have lt: "l2_nonce (l2_common_data ltx) < at_nonce txs'"
    using no_wrap cd word_less_inc nonce by (simp add: txs')
  let ?before = "\<lparr>at_transactions = fmdrop (at_nonce txs) (at_transactions txs), at_nonce = at_nonce txs\<rparr>"
  have txs_back: "txs'\<lparr>at_nonce := l2_nonce (l2_common_data ltx)\<rparr> = ?before" by (simp add: txs' nonce)
  have txs'_at: "fmlookup (accounts s') (initiator_address (l2_common_data ltx)) = Some txs'"
    by (simp add: acc' init)
  have nonce_suc: "at_nonce txs' = l2_nonce (l2_common_data ltx) + 1" by (simp add: txs' nonce)
  obtain q where rb: "mempool_rollback tx s' =
      Some (s'\<lparr>l2_transactions_per_account := fmupd ?a ?before (accounts s'), l2_priority_queue := q\<rparr>)"
    using rollback_l2_result [OF inv' cd txs'_at nonce_suc lt] unfolding txs_back init by blast
  let ?s1 = "s'\<lparr>l2_transactions_per_account := fmupd ?a ?before (accounts s'), l2_priority_queue := q\<rparr>"
  have "can_rollback s' tx" using cd txs'_at nonce_suc lt by (simp add: can_rollback_def)
  then have inv1: "mempool_inv ?s1" using rollback_inv [OF inv'] rb by (metis option.inject)
  have ltx_eq: "\<lparr>l2_execute = execute tx, l2_common_data = l2_common_data ltx,
      l2_received_timestamp_ms = received_timestamp_ms tx, l2_raw_bytes = raw_bytes tx\<rparr> = ltx"
    by (simp add: res l2_into_transaction_def)
  have "io_rollback tx s' = Some (insert_l2_transaction ltx fmempty ?s1)"
    using rb cd ltx_eq by (simp add: io_rollback_def)
  also have "insert_l2_transaction ltx fmempty ?s1 = s"
  proof (rule mempool_store_eqI [OF insert_l2_inv [OF inv1] inv])
    have "l2_initiator_account ltx = ?a" using init by (simp add: l2_initiator_account_def)
    moreover have "fmupd ?a txs (accounts s) = accounts s" by (rule fmupd_same [OF txs])
    ultimately show "accounts (insert_l2_transaction ltx fmempty ?s1) = accounts s"
      using insert_l2_accounts [of ?s1 ltx ?before] account_insert_back [OF awf ltx]
      by (simp add: acc')
  qed (simp_all add: res fetched_store_def Let_def stash)
  finally show ?thesis .
qed

section \<open>Properties\<close>

text \<open>Concrete transactions: one of account 7 with a given nonce, and a store that received two of
  them.\<close>

definition sample_l2 :: "u32 \<Rightarrow> L2Tx" where
  "sample_l2 n =
     \<lparr>l2_execute = \<lparr>contract_address = 1, calldata = [], execute_value = 0, factory_deps = []\<rparr>,
      l2_common_data = \<lparr>l2_nonce = n,
        l2_fee = \<lparr>gas_limit = 1000, max_fee_per_gas = 100, max_priority_fee_per_gas = 0,
                  gas_per_pubdata_limit = 100\<rparr>,
        initiator_address = 7, signature = [], transaction_type = EIP712Transaction, input = None,
        paymaster_params = \<lparr>paymaster = 0, paymaster_input = []\<rparr>\<rparr>,
      l2_received_timestamp_ms = 5, l2_raw_bytes = None\<rparr>"

definition sample_filter :: L2TxFilter where
  "sample_filter =
     \<lparr>filter_fee_input = sensible_l1_pegged_default, fee_per_gas = 50, gas_per_pubdata = 50\<rparr>"

definition sample_store :: MempoolStore where
  "sample_store =
     \<lparr>l1_transactions = fmempty,
      l2_transactions_per_account =
        fmupd 7 \<lparr>at_transactions = fmupd 0 (sample_l2 0) fmempty, at_nonce = 0\<rparr> fmempty,
      l2_priority_queue = [score_for_transaction (sample_l2 0)],
      next_priority_id = 0, stashed_accounts = [], mempool_size = 1, capacity = 0\<rparr>"

lemma sample_store_reachable: "mempool_reachable sample_store"
proof -
  have "mempool_insert [l2_into_transaction (sample_l2 0)] fmempty (mempool_new 0 0) = Some sample_store"
    by (simp add: mempool_new_def l2_into_transaction_def insert_l2_transaction_def
        account_insert_def account_transactions_new_def insertion_metadata_default_def sample_l2_def
        l2_initiator_account_def sample_store_def Let_def)
  then show ?thesis by (blast intro: mempool_reachable.intros mempool_step.intros)
qed

lemma sample_next:
  "next_transaction sample_filter sample_store =
     Some (sample_store\<lparr>l2_transactions_per_account :=
             fmupd 7 \<lparr>at_transactions = fmempty, at_nonce = 1\<rparr> fmempty,
             l2_priority_queue := [], mempool_size := 0\<rparr>,
           Some (l2_into_transaction (sample_l2 0)))"
proof -
  have "fmupd 7 t (fmupd 7 u fmempty) = fmupd 7 t fmempty" for t u :: AccountTransactions
    by (rule fmap_ext) simp
  moreover have "fmdrop (0 :: u32) (fmupd 0 x fmempty) = fmempty" for x :: L2Tx
    by (rule fmap_ext) simp
  ultimately show ?thesis
    by (simp add: next_transaction_def sample_store_def bts_rfind_def matches_filter_def
        sample_filter_def score_for_transaction_def sample_l2_def bts_split_off_def
        l2_initiator_account_def account_next_def)
qed

text \<open>C1. In every store that the operations of the mempool can produce from an empty one (with
  transactions given back only right after they were handed out), the priority queue holds exactly the
  scores of the next executable transaction of every account, the size counter counts the stored L2
  transactions, and fetching a transaction never panics; it returns a transaction exactly when
  \<open>has_next\<close> announces one.\<close>

theorem mempool_never_panics:
  assumes "mempool_reachable s"
  shows "mempool_inv s \<and>
    (\<exists>s' r. next_transaction f s = Some (s', r) \<and> mempool_inv s' \<and> (r \<noteq> None \<longleftrightarrow> has_next f s))"
proof -
  have inv: "mempool_inv s" by (rule mempool_reachable_inv [OF assms])
  with next_transaction_total [OF inv, of f] show ?thesis by blast
qed

theorem mempool_never_panics_witness:
  "mempool_inv sample_store \<and>
    (\<exists>s' r. next_transaction sample_filter sample_store = Some (s', r) \<and> mempool_inv s'
      \<and> (r \<noteq> None \<longleftrightarrow> has_next sample_filter sample_store))"
  by (rule mempool_never_panics [OF sample_store_reachable])

text \<open>C7. When no L1 transaction is due, the L2 transaction that is fetched is the one with the
  current nonce of its account, it pays the fees that the filter asks for, and no other executable
  transaction that does so was received earlier.\<close>

theorem next_l2_is_oldest_match:
  assumes "mempool_reachable s" "fmlookup (l1_transactions s) (next_priority_id s) = None"
    and "next_transaction f s = Some (s', Some tx)"
  shows "\<exists>a txs ltx. fmlookup (accounts s) a = Some txs
    \<and> fmlookup (at_transactions txs) (at_nonce txs) = Some ltx
    \<and> tx = l2_into_transaction ltx \<and> initiator_account tx = a
    \<and> matches_filter (score_for_transaction ltx) f
    \<and> (\<forall>b txs' ltx'. fmlookup (accounts s) b = Some txs'
         \<and> fmlookup (at_transactions txs') (at_nonce txs') = Some ltx'
         \<and> matches_filter (score_for_transaction ltx') f
       \<longrightarrow> l2_received_timestamp_ms ltx \<le> l2_received_timestamp_ms ltx')"
proof -
  have inv: "mempool_inv s" by (rule mempool_reachable_inv [OF assms(1)])
  then have bts: "bts_wf score_cmp_key (queue s)" and set_q: "set (queue s) = ready_scores (accounts s)"
    and wf: "accounts_wf (accounts s)" by (simp_all add: mempool_inv_def queue_ok_def)
  obtain p where p: "bts_rfind (\<lambda>el. matches_filter el f) (queue s) = Some p"
    using assms(2,3) by (cases "bts_rfind (\<lambda>el. matches_filter el f) (queue s)")
      (simp_all add: next_transaction_def)
  note rfind = bts_rfind_Some [OF bts p]
  obtain txs txs' ltx where txs: "fmlookup (accounts s) (score_account p) = Some txs"
    and ltx: "fmlookup (at_transactions txs) (at_nonce txs) = Some ltx"
    and p_eq: "p = score_for_transaction ltx"
    and eq: "next_transaction f s = Some (fetched_store p txs' s, Some (l2_into_transaction ltx))"
    using next_l2_result [OF inv assms(2) p] .
  have tx: "tx = l2_into_transaction ltx" using eq assms(3) by simp
  then have init: "initiator_account tx = score_account p"
    by (simp add: p_eq tx_access_defs)
  have "l2_received_timestamp_ms ltx \<le> l2_received_timestamp_ms ltx'"
    if "fmlookup (accounts s) b = Some t" "fmlookup (at_transactions t) (at_nonce t) = Some ltx'"
      "matches_filter (score_for_transaction ltx') f" for b t ltx'
  proof -
    have "score_for_transaction ltx' \<in> set (queue s)"
      using that set_q by (auto simp: ready_scores_def ready_score_def)
    with rfind that(3) have "score_cmp_key (score_for_transaction ltx') \<le> score_cmp_key p" by blast
    then show ?thesis by (auto simp: p_eq score_cmp_key_def score_for_transaction_def)
  qed
  with txs ltx tx init rfind p_eq show ?thesis by blast
qed

theorem next_l2_is_oldest_match_witness:
  "\<exists>a txs ltx. fmlookup (accounts sample_store) a = Some txs
    \<and> fmlookup (at_transactions txs) (at_nonce txs) = Some ltx
    \<and> l2_into_transaction (sample_l2 0) = l2_into_transaction ltx
    \<and> initiator_account (l2_into_transaction (sample_l2 0)) = a
    \<and> matches_filter (score_for_transaction ltx) sample_filter
    \<and> (\<forall>b txs' ltx'. fmlookup (accounts sample_store) b = Some txs'
         \<and> fmlookup (at_transactions txs') (at_nonce txs') = Some ltx'
         \<and> matches_filter (score_for_transaction ltx') sample_filter
       \<longrightarrow> l2_received_timestamp_ms ltx \<le> l2_received_timestamp_ms ltx')"
  by (rule next_l2_is_oldest_match [OF sample_store_reachable _ sample_next])
    (simp add: sample_store_def)

text \<open>C13. L1 transactions have priority and are handed out in the order of their ids: when the
  operation with the next priority id is pending it is returned whatever the filter, the next id moves
  on by one, and no L2 transaction is touched.\<close>

theorem next_l1_in_order:
  assumes "mempool_reachable s" "fmlookup (l1_transactions s) (next_priority_id s) = Some ltx"
  shows "\<exists>s'. next_transaction f s = Some (s', Some (l1_into_transaction ltx))
    \<and> serial_id (l1_common_data ltx) = next_priority_id s
    \<and> next_priority_id s' = next_priority_id s + 1
    \<and> fmlookup (l1_transactions s') (next_priority_id s) = None
    \<and> accounts s' = accounts s \<and> queue s' = queue s \<and> mempool_size s' = mempool_size s"
  using mempool_reachable_inv [OF assms(1)] assms(2)
  by (simp add: next_transaction_def mempool_inv_def)

definition sample_l1 :: L1Tx where
  "sample_l1 =
     \<lparr>l1_execute = \<lparr>contract_address = 1, calldata = [], execute_value = 0, factory_deps = []\<rparr>,
      l1_common_data = \<lparr>l1_sender = 3, serial_id = 0, layer_2_tip_fee = 0, full_fee = 0,
        l1_max_fee_per_gas = 0, l1_gas_limit = 0, l1_gas_per_pubdata_limit = 0,
        op_processing_type = Common, priority_queue_type = Deque, canonical_tx_hash = 9,
        to_mint = 0, refund_recipient = 3, eth_block = 1\<rparr>,
      l1_received_timestamp_ms = 4\<rparr>"

theorem next_l1_in_order_witness:
  "\<exists>s s'. mempool_reachable s \<and> next_transaction sample_filter s = Some (s', Some (l1_into_transaction sample_l1))
    \<and> next_priority_id s' = 1"
proof -
  let ?s = "(mempool_new 0 0)\<lparr>l1_transactions := fmupd 0 sample_l1 fmempty\<rparr>"
  have "mempool_insert [l1_into_transaction sample_l1] fmempty (mempool_new 0 0) = Some ?s"
    by (simp add: mempool_new_def l1_into_transaction_def sample_l1_def)
  then have "mempool_reachable ?s" by (blast intro: mempool_reachable.intros mempool_step.intros)
  moreover have "fmlookup (l1_transactions ?s) (next_priority_id ?s) = Some sample_l1"
    by (simp add: mempool_new_def)
  ultimately show ?thesis
    using next_l1_in_order [of ?s sample_l1 sample_filter] by (auto simp: mempool_new_def)
qed



text \<open>C11. Garbage collection never loses executable work: it keeps every account that has an
  executable transaction with all its transactions, purges exactly the other accounts, and leaves the
  outcome of \<open>has_next\<close> unchanged.\<close>

theorem gc_keeps_executable:
  assumes "mempool_reachable s" "capacity s \<le> mempool_size s" "get_mempool_info s = (s', info)"
  shows "(\<forall>a. fmlookup (accounts s') a =
      (case fmlookup (accounts s) a of
         None \<Rightarrow> None | Some txs \<Rightarrow> if ready_score txs = None then None else Some txs))
    \<and> info_purged_accounts info = fmdom' (accounts s) - fmdom' (accounts s')
    \<and> (\<forall>f. has_next f s' = has_next f s)"
proof -
  have wf: "accounts_wf (accounts s)" and set_q: "set (queue s) = ready_scores (accounts s)"
    using mempool_reachable_inv [OF assms(1)] by (simp_all add: mempool_inv_def queue_ok_def)
  have index: "a \<in> score_account ` set (queue s) \<longleftrightarrow> ready_score txs \<noteq> None"
    if "fmlookup (accounts s) a = Some txs" for a txs
    using that wf accounts_wfD ready_score_account unfolding set_q
    by (fastforce simp: ready_scores_def image_iff)
  have res: "s' = s\<lparr>stashed_accounts := [],
        l2_transactions_per_account := fmfilter (\<lambda>a. a \<in> score_account ` set (queue s)) (accounts s),
        mempool_size := total_len (fmfilter (\<lambda>a. a \<in> score_account ` set (queue s)) (accounts s))\<rparr>"
    "info_purged_accounts info = fmdom' (fmfilter (\<lambda>a. a \<notin> score_account ` set (queue s)) (accounts s))"
    using assms(2,3) by (auto simp: get_mempool_info_def gc_def Let_def cong del: fmfilter_cong)
  show ?thesis
    unfolding res using index
    by (auto simp: has_next_def fmlookup_dom'_iff split: option.split cong del: fmfilter_cong)
qed

theorem gc_keeps_executable_witness:
  "\<exists>s' info. get_mempool_info sample_store = (s', info)
    \<and> info_purged_accounts info = fmdom' (accounts sample_store) - fmdom' (accounts s')
    \<and> (\<forall>f. has_next f s' = has_next f sample_store)"
proof -
  obtain s' info where "get_mempool_info sample_store = (s', info)" by force
  with gc_keeps_executable [OF sample_store_reachable _ this] show ?thesis
    by (simp add: sample_store_def)
qed

text \<open>C12. Garbage collection may run between a fetch and the decision of the state keeper to give the
  transaction back. If the mempool is at its capacity and the account has no further executable
  transaction, the account is purged and giving the transaction back panics.\<close>

theorem gc_between_fetch_and_rollback_panics:
  assumes "mempool_reachable s" "next_transaction f s = Some (s', Some tx)"
    and "common_data tx = L2 d" "capacity s' \<le> mempool_size s'"
    and "ready_score (the (fmlookup (accounts s') (initiator_address d))) = None"
  shows "io_rollback tx (fst (get_mempool_info s')) = None"
proof -
  have "mempool_step s s'" using assms(2) by (rule mempool_step.intros)
  then have inv: "mempool_inv s'"
    using mempool_reachable_inv [OF assms(1)] by (rule mempool_step_inv)
  then have wf: "accounts_wf (accounts s')" and set_q: "set (queue s') = ready_scores (accounts s')"
    by (simp_all add: mempool_inv_def queue_ok_def)
  have "initiator_address d \<notin> score_account ` set (queue s')"
    unfolding set_q using assms(5) by (auto simp: ready_scores_account [OF wf])
  then have "fmlookup (accounts (fst (get_mempool_info s'))) (initiator_address d) = None"
    using assms(4) by (simp add: get_mempool_info_def gc_def Let_def cong del: fmfilter_cong)
  then show ?thesis
    using assms(3) by (simp add: io_rollback_def mempool_rollback_def initiator_account_def)
qed

theorem gc_between_fetch_and_rollback_panics_witness:
  "\<exists>s' tx. next_transaction sample_filter sample_store = Some (s', Some tx)
    \<and> io_rollback tx (fst (get_mempool_info s')) = None"
  using gc_between_fetch_and_rollback_panics [OF sample_store_reachable sample_next,
      of "l2_common_data (sample_l2 0)"] sample_next
  by (simp add: sample_store_def l2_into_transaction_def sample_l2_def ready_score_def)

end
