(* ===== verification/Mini_Merkle_Tree.thy ===== *)
theory Mini_Merkle_Tree
  imports Prelude
begin

text \<open>
  The in-memory Merkle tree (\<^verbatim>\<open>core/lib/mini_merkle_tree/src/lib.rs\<close>) from which the roots of
  L2-to-L1 logs and priority operations are computed. The hash functions come from another crate and
  are the parameter \<open>H\<close>.

  The tree keeps only the leaves that have not been trimmed and a cache with the left siblings on the
  path of the first untrimmed leaf. The reference is the perfect binary tree over all leaves ever
  pushed, padded with empty leaves (\<open>node\<close>); the relation \<open>represents\<close> ties a tree to it. Roots,
  paths, pushes and trims are shown to agree with the reference, and the locale
  \<open>leaf_accumulator\<close> draws the consequence for arbitrary sequences of operations.
\<close>

section \<open>Hashing of empty subtrees\<close>

record merkle_hasher =
  hash_bytes :: "u8 list \<Rightarrow> h256"
  compress :: "h256 \<Rightarrow> h256 \<Rightarrow> h256"

definition MAX_TREE_DEPTH :: nat where
  "MAX_TREE_DEPTH = 32"

fun successors :: "('a \<Rightarrow> 'a) \<Rightarrow> nat \<Rightarrow> 'a \<Rightarrow> 'a list" where
  "successors f 0 x = []"
| "successors f (Suc n) x = x # successors f n (f x)"

definition empty_leaf_hash :: "merkle_hasher \<Rightarrow> h256" where
  "empty_leaf_hash H = hash_bytes H (replicate 88 0)"

definition compute_empty_tree_hashes :: "merkle_hasher \<Rightarrow> h256 \<Rightarrow> h256 list" where
  "compute_empty_tree_hashes H leaf = successors (\<lambda>h. compress H h h) (MAX_TREE_DEPTH + 1) leaf"

definition empty_subtree_hash :: "merkle_hasher \<Rightarrow> nat \<Rightarrow> h256 option" where
  "empty_subtree_hash H depth =
     (let hashes = compute_empty_tree_hashes H (empty_leaf_hash H)
      in if depth < length hashes then Some (hashes ! depth) else None)"

section \<open>The tree\<close>

datatype Side = SideLeft | SideRight

record MiniMerkleTree =
  hashes :: "h256 list"
  binary_tree_size :: nat
  start_index :: nat
  cache :: "h256 option list"

text \<open>\<^verbatim>\<open>usize::trailing_zeros\<close>, \<^verbatim>\<open>next_power_of_two\<close> and \<^verbatim>\<open>is_power_of_two\<close>.\<close>

fun trailing_zeros :: "nat \<Rightarrow> nat" where
  "trailing_zeros n = (if n = 0 then 64 else if odd n then 0 else Suc (trailing_zeros (n div 2)))"

declare trailing_zeros.simps [simp del]

definition next_power_of_two :: "nat \<Rightarrow> nat" where
  "next_power_of_two n = 2 ^ nat_bits (n - 1)"

definition is_power_of_two :: "nat \<Rightarrow> bool" where
  "is_power_of_two n \<longleftrightarrow> 0 < n \<and> n = 2 ^ trailing_zeros n"

definition tree_depth_by_size :: "nat \<Rightarrow> nat" where
  "tree_depth_by_size tree_size = trailing_zeros tree_size"

definition from_hashes :: "h256 list \<Rightarrow> nat option \<Rightarrow> MiniMerkleTree option" where
  "from_hashes hs min_tree_size =
     (let size0 = next_power_of_two (length hs)
      in case (case min_tree_size of
                 None \<Rightarrow> Some size0
               | Some m \<Rightarrow> if is_power_of_two m then Some (max m size0) else None) of
           None \<Rightarrow> None
         | Some tree_size \<Rightarrow>
             (let depth = tree_depth_by_size tree_size
              in if depth \<le> MAX_TREE_DEPTH
                 then Some \<lparr>hashes = hs, binary_tree_size = tree_size, start_index = 0,
                            cache = replicate depth None\<rparr>
                 else None))"

definition with_hasher :: "merkle_hasher \<Rightarrow> u8 list list \<Rightarrow> nat option \<Rightarrow> MiniMerkleTree option" where
  "with_hasher H leaves min_tree_size = from_hashes (map (hash_bytes H) leaves) min_tree_size"

abbreviation (input) tree_is_empty :: "MiniMerkleTree \<Rightarrow> bool" where
  "tree_is_empty t \<equiv> start_index t = 0 \<and> hashes t = []"

text \<open>The pairwise compression of one level, in place.\<close>

fun compress_level :: "merkle_hasher \<Rightarrow> nat \<Rightarrow> nat \<Rightarrow> h256 list \<Rightarrow> h256 list" where
  "compress_level H 0 i hs = hs"
| "compress_level H (Suc n) i hs =
     compress_level H n (Suc i) (hs[i := compress H (hs ! (2 * i)) (hs ! (2 * i + 1))])"

definition vec_get :: "'a list \<Rightarrow> nat \<Rightarrow> 'a option" where
  "vec_get xs i = (if i < length xs then Some (xs ! i) else None)"

definition flip_last_bit :: "nat \<Rightarrow> nat" where
  "flip_last_bit i = (if even i then i + 1 else i - 1)"

text \<open>The loop over the levels: the first argument counts the levels that remain. The path is
  collected in every case; a caller that passes no path ignores it.\<close>

fun root_loop ::
    "nat \<Rightarrow> merkle_hasher \<Rightarrow> h256 option list \<Rightarrow> Side option \<Rightarrow> nat \<Rightarrow> h256 list \<Rightarrow> nat \<Rightarrow> nat
     \<Rightarrow> h256 option list \<Rightarrow> (h256 list \<times> h256 option list) option" where
  "root_loop 0 H c side level hs start idx path = Some (hs, path)"
| "root_loop (Suc n) H c side level hs start idx path =
     (case (if start mod 2 = 1
            then (case vec_get c level of
                    Some (Some h) \<Rightarrow> Some (h # hs, idx + 1)
                  | _ \<Rightarrow> None)
            else Some (hs, idx)) of
        None \<Rightarrow> None
      | Some (hs1, idx1) \<Rightarrow>
          (case (if length hs1 mod 2 = 1
                 then map_option (\<lambda>e. hs1 @ [e]) (empty_subtree_hash H level)
                 else Some hs1) of
             None \<Rightarrow> None
           | Some hs2 \<Rightarrow>
               (let hash = (if side = Some SideLeft \<and> even idx1 then None
                            else if side = Some SideRight \<and> odd idx1 then None
                            else vec_get hs2 (flip_last_bit idx1));
                    level_len = length hs2 div 2;
                    hs3 = take level_len (compress_level H level_len 0 hs2)
                in root_loop n H c side (Suc level) hs3 (start div 2) (idx1 div 2) (path @ [hash]))))"

definition compute_merkle_root_and_path ::
    "merkle_hasher \<Rightarrow> MiniMerkleTree \<Rightarrow> nat \<Rightarrow> Side option \<Rightarrow> (h256 \<times> h256 option list) option" where
  "compute_merkle_root_and_path H t idx side =
     (case root_loop (tree_depth_by_size (binary_tree_size t)) H (cache t) side 0 (hashes t)
             (start_index t) idx [] of
        None \<Rightarrow> None
      | Some (hs, path) \<Rightarrow> map_option (\<lambda>h. (h, path)) (vec_get hs 0))"

definition merkle_root :: "merkle_hasher \<Rightarrow> MiniMerkleTree \<Rightarrow> h256 option" where
  "merkle_root H t =
     (let depth = tree_depth_by_size (binary_tree_size t)
      in if hashes t = [] \<and> start_index t = 0 then empty_subtree_hash H depth
         else if hashes t = [] \<and> start_index t = binary_tree_size t
         then (case vec_get (cache t) depth of Some (Some h) \<Rightarrow> Some h | _ \<Rightarrow> None)
         else map_option fst (compute_merkle_root_and_path H t 0 None))"

definition merkle_root_and_path ::
    "merkle_hasher \<Rightarrow> MiniMerkleTree \<Rightarrow> nat \<Rightarrow> (h256 \<times> h256 list) option" where
  "merkle_root_and_path H t idx =
     (if idx < length (hashes t)
      then (case compute_merkle_root_and_path H t idx None of
              None \<Rightarrow> None
            | Some (root, path) \<Rightarrow>
                if list_all (\<lambda>h. h \<noteq> None) path then Some (root, map the path) else None)
      else None)"

definition merkle_root_and_paths_for_range ::
    "merkle_hasher \<Rightarrow> MiniMerkleTree \<Rightarrow> nat
     \<Rightarrow> (h256 \<times> h256 option list \<times> h256 option list) option" where
  "merkle_root_and_paths_for_range H t len =
     (if 0 < len \<and> len \<le> length (hashes t)
      then map_option (\<lambda>(root, right_path). (root, cache t, right_path))
             (compute_merkle_root_and_path H t (len - 1) (Some SideRight))
      else None)"

definition push_hash :: "h256 \<Rightarrow> MiniMerkleTree \<Rightarrow> MiniMerkleTree" where
  "push_hash leaf_hash t =
     (let t1 = t\<lparr>hashes := hashes t @ [leaf_hash]\<rparr>
      in if start_index t1 + length (hashes t1) > binary_tree_size t1
         then (let t2 = t1\<lparr>binary_tree_size := binary_tree_size t1 * 2\<rparr>
               in if length (cache t2) < tree_depth_by_size (binary_tree_size t2)
                  then t2\<lparr>cache := cache t2 @ [None]\<rparr> else t2)
         else t1)"

definition push :: "merkle_hasher \<Rightarrow> u8 list \<Rightarrow> MiniMerkleTree \<Rightarrow> MiniMerkleTree" where
  "push H leaf t = push_hash (hash_bytes H leaf) t"

definition trim_start :: "merkle_hasher \<Rightarrow> nat \<Rightarrow> MiniMerkleTree \<Rightarrow> MiniMerkleTree option" where
  "trim_start H count t =
     (if count \<le> length (hashes t)
      then (case compute_merkle_root_and_path H t count (Some SideLeft) of
              None \<Rightarrow> None
            | Some (root, new_cache) \<Rightarrow>
                (let start = start_index t + count
                 in Some (t\<lparr>hashes := drop count (hashes t), start_index := start,
                            cache := (if start = binary_tree_size t
                                      then new_cache @ [Some root] else new_cache)\<rparr>)))
      else None)"

section \<open>Reference tree\<close>

fun empty_hash :: "merkle_hasher \<Rightarrow> nat \<Rightarrow> h256" where
  "empty_hash H 0 = empty_leaf_hash H"
| "empty_hash H (Suc k) = compress H (empty_hash H k) (empty_hash H k)"

text \<open>The hash of node \<open>i\<close> of level \<open>k\<close> of the perfect tree over the leaves, padded on the right.\<close>

fun node :: "merkle_hasher \<Rightarrow> h256 list \<Rightarrow> nat \<Rightarrow> nat \<Rightarrow> h256" where
  "node H ls 0 i = (if i < length ls then ls ! i else empty_leaf_hash H)"
| "node H ls (Suc k) i = compress H (node H ls k (2 * i)) (node H ls k (2 * i + 1))"

definition cache_ok :: "merkle_hasher \<Rightarrow> h256 list \<Rightarrow> nat \<Rightarrow> h256 option list \<Rightarrow> bool" where
  "cache_ok H ls start c \<longleftrightarrow>
     (\<forall>k. odd (start div 2 ^ k) \<longrightarrow> vec_get c k = Some (Some (node H ls k (start div 2 ^ k - 1))))"

text \<open>The tree \<open>t\<close> of depth \<open>d\<close> holds the leaves \<open>ls\<close>, the first \<open>start_index t\<close> of them trimmed.\<close>

definition represents :: "merkle_hasher \<Rightarrow> MiniMerkleTree \<Rightarrow> h256 list \<Rightarrow> nat \<Rightarrow> bool" where
  "represents H t ls d \<longleftrightarrow>
     binary_tree_size t = 2 ^ d \<and> d \<le> MAX_TREE_DEPTH \<and> length ls \<le> 2 ^ d
     \<and> start_index t \<le> length ls \<and> hashes t = drop (start_index t) ls
     \<and> d \<le> length (cache t) \<and> cache_ok H ls (start_index t) (cache t)"

section \<open>Arithmetic of levels\<close>

lemma trailing_zeros_pow [simp]: "trailing_zeros (2 ^ d) = d"
  by (induction d) (simp_all add: trailing_zeros.simps)

lemma tree_depth_pow [simp]: "tree_depth_by_size (2 ^ d) = d"
  by (simp add: tree_depth_by_size_def)

lemma is_power_of_twoE:
  assumes "is_power_of_two m"
  obtains d where "m = 2 ^ d"
  using assms by (auto simp: is_power_of_two_def)

lemma le_next_power_of_two: "n \<le> next_power_of_two n"
proof (cases n)
  case (Suc m)
  have "m < 2 ^ nat_bits m" using nat_bits_le_iff [of m "nat_bits m"] by simp
  with Suc show ?thesis by (simp add: next_power_of_two_def)
qed simp

text \<open>The number of nodes of level \<open>n\<close> above \<open>m\<close> nodes.\<close>

fun nodes_above :: "nat \<Rightarrow> nat \<Rightarrow> nat" where
  "nodes_above m 0 = m"
| "nodes_above m (Suc n) = nodes_above ((m + 1) div 2) n"

lemma nodes_above_0 [simp]: "nodes_above 0 n = 0"
  by (induction n) simp_all

lemma nodes_above_1: "0 < m \<Longrightarrow> m \<le> 2 ^ n \<Longrightarrow> nodes_above m n = 1"
proof (induction n arbitrary: m)
  case (Suc n)
  then have "0 < (m + 1) div 2" "(m + 1) div 2 \<le> 2 ^ n" by auto
  with Suc.IH show ?case by simp
qed simp

section \<open>Lemmas on nodes\<close>

lemma length_successors [simp]: "length (successors f n x) = n"
  by (induction n arbitrary: x) simp_all

lemma successors_nth: "i < n \<Longrightarrow> successors f n x ! i = (f ^^ i) x"
proof (induction n arbitrary: x i)
  case (Suc n)
  then show ?case by (cases i) (simp_all add: funpow_swap1)
qed simp

lemma empty_subtree_hash_eq:
  assumes "k \<le> MAX_TREE_DEPTH"
  shows "empty_subtree_hash H k = Some (empty_hash H k)"
proof -
  have "((\<lambda>h. compress H h h) ^^ k) (empty_leaf_hash H) = empty_hash H k"
    by (induction k) simp_all
  with assms show ?thesis
    by (simp add: empty_subtree_hash_def compute_empty_tree_hashes_def successors_nth
        del: successors.simps)
qed

lemma node_empty: "length ls \<le> i * 2 ^ k \<Longrightarrow> node H ls k i = empty_hash H k"
proof (induction k arbitrary: i)
  case (Suc k)
  have "node H ls k (2 * i) = empty_hash H k" "node H ls k (2 * i + 1) = empty_hash H k"
    using Suc.prems by (intro Suc.IH; simp add: algebra_simps)+
  then show ?case by simp
qed simp

lemma node_append: "(i + 1) * 2 ^ k \<le> length ls \<Longrightarrow> node H (ls @ xs) k i = node H ls k i"
proof (induction k arbitrary: i)
  case 0
  then show ?case by (simp add: nth_append)
next
  case (Suc k)
  have "node H (ls @ xs) k (2 * i) = node H ls k (2 * i)"
    "node H (ls @ xs) k (2 * i + 1) = node H ls k (2 * i + 1)"
    using Suc.prems by (intro Suc.IH; simp add: algebra_simps)+
  then show ?case by simp
qed

lemma length_compress_level [simp]: "length (compress_level H n i hs) = length hs"
  by (induction n arbitrary: i hs) simp_all

lemma compress_level_nth:
  assumes "2 * (i + n) \<le> length hs" "j < length hs"
  shows "compress_level H n i hs ! j =
    (if i \<le> j \<and> j < i + n then compress H (hs ! (2 * j)) (hs ! (2 * j + 1)) else hs ! j)"
  using assms
proof (induction n arbitrary: i hs)
  case (Suc n)
  let ?hs = "hs[i := compress H (hs ! (2 * i)) (hs ! (2 * i + 1))]"
  have "compress_level H n (Suc i) ?hs ! j =
      (if Suc i \<le> j \<and> j < Suc i + n then compress H (?hs ! (2 * j)) (?hs ! (2 * j + 1)) else ?hs ! j)"
    using Suc.prems by (intro Suc.IH) simp_all
  moreover have "?hs ! (2 * j) = hs ! (2 * j)" "?hs ! (2 * j + 1) = hs ! (2 * j + 1)" if "Suc i \<le> j"
    using that by simp_all
  ultimately show ?case using Suc.prems by (auto simp: nth_list_update)
qed auto

lemma compress_level_nodes:
  assumes "a \<le> b" and hs_def: "hs = map (node H ls k) [2 * a ..< 2 * b]"
  shows "take (length hs div 2) (compress_level H (length hs div 2) 0 hs) =
    map (node H ls (Suc k)) [a ..< b]"
proof (rule nth_equalityI)
  have len: "length hs div 2 = b - a" "length hs = 2 * (b - a)" by (simp_all add: hs_def)
  show "length (take (length hs div 2) (compress_level H (length hs div 2) 0 hs)) =
      length (map (node H ls (Suc k)) [a ..< b])" by (simp add: len)
  fix j assume "j < length (take (length hs div 2) (compress_level H (length hs div 2) 0 hs))"
  then have j: "j < b - a" by (simp add: len)
  then have "compress_level H (b - a) 0 hs ! j = compress H (hs ! (2 * j)) (hs ! (2 * j + 1))"
    by (simp add: compress_level_nth len)
  moreover have "hs ! (2 * j) = node H ls k (2 * (a + j))"
    "hs ! (2 * j + 1) = node H ls k (2 * (a + j) + 1)"
    using j by (simp_all add: hs_def)
  ultimately show "take (length hs div 2) (compress_level H (length hs div 2) 0 hs) ! j =
      map (node H ls (Suc k)) [a ..< b] ! j"
    using j by (simp add: len)
qed

section \<open>The loop over the levels\<close>

lemma level_front:
  assumes "s \<le> m"
  shows "(if odd s then f (s - 1) # map f [s ..< m] else map f [s ..< m]) = map f [2 * (s div 2) ..< m]"
proof (cases "odd s")
  case True
  then have "s - 1 = 2 * (s div 2)" "0 < s" by presburger+
  with True assms show ?thesis by (simp add: upt_conv_Cons)
next
  case False
  then have "2 * (s div 2) = s" by simp
  with False show ?thesis by simp
qed

lemma level_back:
  assumes "2 * a \<le> m"
  shows "(if (m - 2 * a) mod 2 = 1 then map f [2 * a ..< m] @ [f m] else map f [2 * a ..< m])
    = map f [2 * a ..< 2 * ((m + 1) div 2)]"
proof (cases "m mod 2 = 1")
  case True
  then have "2 * ((m + 1) div 2) = Suc m" "(m - 2 * a) mod 2 = 1" using assms by presburger+
  with assms show ?thesis by simp
next
  case False
  then have "2 * ((m + 1) div 2) = m" "(m - 2 * a) mod 2 = 0" using assms by presburger+
  then show ?thesis by simp
qed

text \<open>The path that the loop collects for the leaf with absolute index \<open>i\<close>.\<close>

fun path_spec :: "merkle_hasher \<Rightarrow> h256 list \<Rightarrow> Side option \<Rightarrow> nat \<Rightarrow> nat \<Rightarrow> nat \<Rightarrow> nat \<Rightarrow> h256 option list" where
  "path_spec H ls side k 0 m i = []"
| "path_spec H ls side k (Suc n) m i =
     (if side = Some SideLeft \<and> even i then None
      else if side = Some SideRight \<and> odd i then None
      else if flip_last_bit i < 2 * ((m + 1) div 2) then Some (node H ls k (flip_last_bit i))
      else None)
     # path_spec H ls side (Suc k) n ((m + 1) div 2) (i div 2)"

lemma vec_get_nodes:
  assumes "2 * a \<le> i"
  shows "vec_get (map f [2 * a ..< b]) (flip_last_bit (i - 2 * a)) =
    (if flip_last_bit i < b then Some (f (flip_last_bit i)) else None)"
proof -
  have "flip_last_bit (i - 2 * a) + 2 * a = flip_last_bit i"
    using assms by (cases "even i") (auto simp: flip_last_bit_def elim!: oddE)
  then have "flip_last_bit (i - 2 * a) < b - 2 * a \<longleftrightarrow> flip_last_bit i < b"
    "2 * a + flip_last_bit (i - 2 * a) = flip_last_bit i" by auto
  then show ?thesis by (simp add: vec_get_def)
qed

lemma root_loop_spec:
  assumes "cache_ok H ls s c" "k + n \<le> MAX_TREE_DEPTH" "length ls \<le> m * 2 ^ k"
    and "s div 2 ^ k \<le> m" "s div 2 ^ k \<le> i"
  shows "root_loop n H c side k (map (node H ls k) [s div 2 ^ k ..< m]) (s div 2 ^ k)
      (i - s div 2 ^ k) path =
    Some (map (node H ls (k + n)) [s div 2 ^ (k + n) ..< nodes_above m n],
          path @ path_spec H ls side k n m i)"
  using assms
proof (induction n arbitrary: k m i path)
  case 0
  then show ?case by simp
next
  case (Suc n)
  define s' where "s' = s div 2 ^ k"
  define m' where "m' = (m + 1) div 2"
  have s'_half: "s' div 2 = s div 2 ^ Suc k" by (simp add: s'_def mult.commute flip: div_mult2_eq)
  have front: "(if s' mod 2 = 1
        then (case vec_get c k of Some (Some h) \<Rightarrow> Some (h # map (node H ls k) [s' ..< m], i - s' + 1)
                                | _ \<Rightarrow> None)
        else Some (map (node H ls k) [s' ..< m], i - s')) =
      Some (map (node H ls k) [2 * (s' div 2) ..< m], i - 2 * (s' div 2))"
  proof (cases "odd s'")
    case True
    then have "vec_get c k = Some (Some (node H ls k (s' - 1)))"
      using Suc.prems(1) by (simp add: cache_ok_def s'_def)
    moreover have "i - s' + 1 = i - 2 * (s' div 2)"
      using True Suc.prems(5) unfolding s'_def [symmetric] by presburger
    ultimately show ?thesis
      using True level_front [of s' m "node H ls k"] Suc.prems(4)
      by (simp add: s'_def [symmetric] odd_iff_mod_2_eq_one)
  next
    case False
    then have "2 * (s' div 2) = s'" by simp
    with False show ?thesis by (simp add: even_iff_mod_2_eq_zero)
  qed
  have le_m: "2 * (s' div 2) \<le> m" using Suc.prems(4) by (simp add: s'_def [symmetric])
  have "node H ls k m = empty_hash H k" using Suc.prems(3) by (rule node_empty)
  then have e: "empty_subtree_hash H k = Some (node H ls k m)"
    using Suc.prems(2) by (simp add: empty_subtree_hash_eq)
  have rear: "(if length (map (node H ls k) [2 * (s' div 2) ..< m]) mod 2 = 1
        then map_option (\<lambda>e. map (node H ls k) [2 * (s' div 2) ..< m] @ [e]) (empty_subtree_hash H k)
        else Some (map (node H ls k) [2 * (s' div 2) ..< m])) =
      Some (map (node H ls k) [2 * (s' div 2) ..< 2 * m'])"
    using level_back [OF le_m, of "node H ls k"]
    by (simp add: e m'_def split: if_splits)
  have le: "s' div 2 \<le> m'" using Suc.prems(4) by (simp add: s'_def [symmetric] m'_def)
  have i: "2 * (s' div 2) \<le> i" using Suc.prems(5) by (simp add: s'_def [symmetric])
  have par: "even (i - 2 * (s' div 2)) \<longleftrightarrow> even i" using i by auto
  have half: "(i - 2 * (s' div 2)) div 2 = i div 2 - s' div 2" using i by presburger
  note comp = compress_level_nodes [OF le refl, of H ls k]
  note vec = vec_get_nodes [OF i, of "node H ls k" "2 * m'"]
  have "m * 2 ^ k \<le> m' * 2 ^ Suc k"
  proof -
    have "m \<le> 2 * m'" by (simp add: m'_def)
    then show ?thesis by (simp add: mult.commute mult.left_commute)
  qed
  then have len: "length ls \<le> m' * 2 ^ Suc k" by (rule order_trans [OF Suc.prems(3)])
  have le_i: "s' div 2 \<le> i div 2" using i by presburger
  have IH: "root_loop n H c side (Suc k) (map (node H ls (Suc k)) [s' div 2 ..< m']) (s' div 2)
      (i div 2 - s' div 2) p =
    Some (map (node H ls (Suc k + n)) [s div 2 ^ (Suc k + n) ..< nodes_above m' n],
          p @ path_spec H ls side (Suc k) n m' (i div 2))" for p
    by (rule Suc.IH [of "Suc k" m' "i div 2" p, folded s'_half])
      (use Suc.prems(1,2) len le le_i in simp_all)
  show ?case
    unfolding s'_def [symmetric] root_loop.simps(2) front rear option.case prod.case Let_def comp vec par half IH
    by (simp add: m'_def)
qed

section \<open>Roots and paths of a represented tree\<close>

lemma compute_spec:
  assumes rep: "represents H t ls d" and "ls \<noteq> []" "start_index t < 2 ^ d" "start_index t \<le> i"
  shows "compute_merkle_root_and_path H t (i - start_index t) side =
    Some (node H ls d 0, path_spec H ls side 0 d (length ls) i)"
proof -
  have hs: "hashes t = map (node H ls 0) [start_index t ..< length ls]"
    using rep by (intro nth_equalityI) (auto simp: represents_def)
  have "root_loop d H (cache t) side 0 (map (node H ls 0) [start_index t ..< length ls]) (start_index t)
      (i - start_index t) [] =
    Some (map (node H ls d) [start_index t div 2 ^ d ..< nodes_above (length ls) d],
          path_spec H ls side 0 d (length ls) i)"
    using root_loop_spec [of H ls "start_index t" "cache t" 0 d "length ls" i side "[]"] rep assms(4)
    by (simp add: represents_def)
  moreover have "nodes_above (length ls) d = 1" "start_index t div 2 ^ d = 0"
    using rep assms(2,3) by (simp_all add: nodes_above_1 represents_def)
  ultimately show ?thesis
    using rep by (simp add: compute_merkle_root_and_path_def hs vec_get_def represents_def)
qed

lemma merkle_root_spec:
  assumes rep: "represents H t ls d"
  shows "merkle_root H t = Some (node H ls d 0)"
proof (cases "ls = []")
  case True
  with rep show ?thesis
    by (simp add: merkle_root_def represents_def Let_def empty_subtree_hash_eq node_empty)
next
  case False
  show ?thesis
  proof (cases "start_index t = 2 ^ d")
    case True
    have "vec_get (cache t) d = Some (Some (node H ls d (start_index t div 2 ^ d - 1)))"
      using rep True by (simp add: represents_def cache_ok_def)
    with True rep show ?thesis by (simp add: merkle_root_def represents_def Let_def)
  next
    case neq: False
    then have "start_index t < 2 ^ d" using rep by (auto simp: represents_def)
    with compute_spec [OF rep False this, of "start_index t" None] neq False rep show ?thesis
      by (auto simp: merkle_root_def represents_def Let_def)
  qed
qed

text \<open>The siblings on the way from node \<open>i\<close> of level \<open>k\<close> up \<open>n\<close> levels, and the recomputation of a root
  from a leaf and such a path.\<close>

fun siblings :: "merkle_hasher \<Rightarrow> h256 list \<Rightarrow> nat \<Rightarrow> nat \<Rightarrow> nat \<Rightarrow> h256 list" where
  "siblings H ls k 0 i = []"
| "siblings H ls k (Suc n) i = node H ls k (flip_last_bit i) # siblings H ls (Suc k) n (i div 2)"

fun fold_path :: "merkle_hasher \<Rightarrow> nat \<Rightarrow> h256 \<Rightarrow> h256 list \<Rightarrow> h256" where
  "fold_path H i h [] = h"
| "fold_path H i h (p # ps) =
     fold_path H (i div 2) (if even i then compress H h p else compress H p h) ps"

lemma length_siblings [simp]: "length (siblings H ls k n i) = n"
  by (induction n arbitrary: k i) simp_all

lemma fold_path_siblings:
  "fold_path H i (node H ls k i) (siblings H ls k n i) = node H ls (k + n) (i div 2 ^ n)"
proof (induction n arbitrary: k i)
  case (Suc n)
  have "(if even i then compress H (node H ls k i) (node H ls k (flip_last_bit i))
         else compress H (node H ls k (flip_last_bit i)) (node H ls k i)) = node H ls (Suc k) (i div 2)"
    by (cases "even i") (auto simp: flip_last_bit_def elim!: evenE oddE)
  then show ?case using Suc.IH [of "i div 2" "Suc k"] by (simp add: div_mult2_eq)
qed simp

lemma path_spec_siblings: "i < m \<Longrightarrow> path_spec H ls None k n m i = map Some (siblings H ls k n i)"
proof (induction n arbitrary: k m i)
  case (Suc n)
  have "flip_last_bit i < 2 * ((m + 1) div 2)"
    using Suc.prems by (simp add: flip_last_bit_def) presburger
  moreover have "i div 2 < (m + 1) div 2" using Suc.prems by simp
  ultimately show ?case using Suc.IH by simp
qed simp

lemma merkle_root_and_path_spec:
  assumes rep: "represents H t ls d" and "start_index t \<le> i" "i < length ls"
  shows "merkle_root_and_path H t (i - start_index t) =
    Some (node H ls d 0, siblings H ls 0 d i)"
proof -
  have "start_index t < 2 ^ d" "ls \<noteq> []" using rep assms by (auto simp: represents_def)
  with assms show ?thesis
    using compute_spec [OF rep, of i None] path_spec_siblings [OF assms(3), of H ls 0 d]
    by (simp add: merkle_root_and_path_def represents_def list_all_iff comp_def)
qed

section \<open>Construction, pushing and trimming\<close>

lemma from_hashes_represents:
  assumes "from_hashes hs min_size = Some t"
  obtains d where "represents H t hs d"
proof -
  have "\<exists>d. binary_tree_size t = 2 ^ d" and size: "length hs \<le> binary_tree_size t"
    and t: "hashes t = hs" "start_index t = 0" "cache t = replicate (tree_depth_by_size (binary_tree_size t)) None"
    and depth: "tree_depth_by_size (binary_tree_size t) \<le> MAX_TREE_DEPTH"
    using assms le_next_power_of_two [of "length hs"]
    by (auto simp: from_hashes_def Let_def max_def next_power_of_two_def is_power_of_two_def
        split: option.splits if_splits)
  then obtain d where d: "binary_tree_size t = 2 ^ d" by blast
  with size t depth have "represents H t hs d"
    by (simp add: represents_def cache_ok_def)
  then show ?thesis by (rule that)
qed

definition grow :: "nat \<Rightarrow> nat \<Rightarrow> nat" where
  "grow d n = (if n < 2 ^ d then d else Suc d)"

lemma push_hash_represents:
  assumes rep: "represents H t ls d" and "length ls < 2 ^ MAX_TREE_DEPTH"
  shows "represents H (push_hash h t) (ls @ [h]) (grow d (length ls))"
proof -
  have cache: "cache_ok H (ls @ [h]) (start_index t) c" if "cache_ok H ls (start_index t) c" for c
  proof -
    have "node H (ls @ [h]) k (start_index t div 2 ^ k - 1) = node H ls k (start_index t div 2 ^ k - 1)"
      if "odd (start_index t div 2 ^ k)" for k
    proof (rule node_append)
      have "0 < start_index t div 2 ^ k" using that by (cases "start_index t div 2 ^ k") auto
      then have "(start_index t div 2 ^ k - 1 + 1) * 2 ^ k \<le> start_index t" by simp
      also have "\<dots> \<le> length ls" using rep by (simp add: represents_def)
      finally show "(start_index t div 2 ^ k - 1 + 1) * 2 ^ k \<le> length ls" .
    qed
    with that show ?thesis by (simp add: cache_ok_def)
  qed
  have ext: "cache_ok H (ls @ [h]) (start_index t) (c @ [x])"
    if "cache_ok H (ls @ [h]) (start_index t) c" for c x
    using that by (auto simp: cache_ok_def vec_get_def nth_append split: if_splits)
  have len: "start_index t + length (hashes t @ [h]) = length ls + 1"
    using rep by (simp add: represents_def)
  show ?thesis
  proof (cases "length ls < 2 ^ d")
    case True
    with rep len cache show ?thesis by (simp add: push_hash_def grow_def represents_def Let_def)
  next
    case False
    then have "length ls = 2 ^ d" using rep by (simp add: represents_def)
    with assms(2) have "d < MAX_TREE_DEPTH" by simp
    have "tree_depth_by_size (2 ^ d * 2) = Suc d" using tree_depth_pow [of "Suc d"] by (simp add: mult.commute)
    with rep len cache ext False \<open>d < MAX_TREE_DEPTH\<close> \<open>length ls = 2 ^ d\<close> show ?thesis
      by (auto simp: push_hash_def grow_def represents_def Let_def)
  qed
qed

lemma length_path_spec [simp]: "length (path_spec H ls side k n m i) = n"
  by (induction n arbitrary: k m i) simp_all

lemma path_spec_left:
  assumes "i \<le> m" "j < n" "odd (i div 2 ^ j)"
  shows "path_spec H ls (Some SideLeft) k n m i ! j = Some (node H ls (k + j) (i div 2 ^ j - 1))"
  using assms
proof (induction n arbitrary: k m i j)
  case (Suc n)
  show ?case
  proof (cases j)
    case 0
    with Suc.prems have "flip_last_bit i < 2 * ((m + 1) div 2)"
      by (auto simp: flip_last_bit_def elim!: oddE)
    with 0 Suc.prems show ?thesis by (simp add: flip_last_bit_def)
  next
    case (Suc j')
    moreover have "i div 2 \<le> (m + 1) div 2" using Suc.prems(1) by simp
    ultimately show ?thesis
      using Suc.IH [of "i div 2" "(m + 1) div 2" j' "Suc k"] Suc.prems(2,3) by (simp add: div_mult2_eq)
  qed
qed simp

lemma pow_div_odd: "n \<le> 2 ^ d \<Longrightarrow> odd (n div 2 ^ k) \<Longrightarrow> k < d \<or> k = d \<and> n = (2 ^ d :: nat)"
proof (rule ccontr)
  assume n: "n \<le> 2 ^ d" and odd: "odd (n div 2 ^ k)" and not: "\<not> (k < d \<or> k = d \<and> n = 2 ^ d)"
  have "(2 :: nat) ^ d \<le> 2 ^ k" using not by (intro power_increasing) auto
  moreover have "(2 :: nat) ^ d < 2 ^ k \<or> n < 2 ^ d"
    using not n by (metis le_neq_implies_less not_less_iff_gr_or_eq one_less_numeral_iff
        power_strict_increasing semiring_norm(76))
  ultimately have "n < 2 ^ k" using n by linarith
  with odd show False by simp
qed

lemma trim_start_represents:
  assumes rep: "represents H t ls d" and "ls \<noteq> []" "start_index t < 2 ^ d"
    and "count \<le> length (hashes t)"
  obtains t' where "trim_start H count t = Some t'" "represents H t' ls d"
    "start_index t' = start_index t + count" "hashes t' = drop count (hashes t)"
proof -
  let ?s = "start_index t + count"
  let ?path = "path_spec H ls (Some SideLeft) 0 d (length ls) ?s"
  let ?cache = "if ?s = 2 ^ d then ?path @ [Some (node H ls d 0)] else ?path"
  have s: "?s \<le> length ls" "?s \<le> 2 ^ d" using rep assms(4) by (auto simp: represents_def)
  have "compute_merkle_root_and_path H t count (Some SideLeft) = Some (node H ls d 0, ?path)"
    using compute_spec [OF rep assms(2,3), of ?s "Some SideLeft"] by simp
  then have trim: "trim_start H count t =
      Some (t\<lparr>hashes := drop count (hashes t), start_index := ?s, cache := ?cache\<rparr>)"
    using assms(4) rep by (simp add: trim_start_def represents_def Let_def)
  have "vec_get ?cache k = Some (Some (node H ls k (?s div 2 ^ k - 1)))" if "odd (?s div 2 ^ k)" for k
    using pow_div_odd [OF s(2) that]
  proof
    assume "k < d"
    with path_spec_left [OF s(1) this that, of H ls 0] show ?thesis
      by (auto simp: vec_get_def nth_append)
  next
    assume "k = d \<and> ?s = 2 ^ d"
    then show ?thesis by (simp add: vec_get_def nth_append)
  qed
  then have "represents H (t\<lparr>hashes := drop count (hashes t), start_index := ?s, cache := ?cache\<rparr>) ls d"
    using rep s by (simp add: represents_def cache_ok_def add.commute)
  with trim show ?thesis by (intro that [OF trim]) simp_all
qed

lemma compute_panics:
  assumes rep: "represents H t ls d" and "ls = [] \<or> start_index t = 2 ^ d"
  shows "compute_merkle_root_and_path H t idx side = None"
proof -
  have hs: "hashes t = map (node H ls 0) [start_index t ..< length ls]"
    using rep by (intro nth_equalityI) (auto simp: represents_def)
  have "root_loop d H (cache t) side 0 (map (node H ls 0) [start_index t ..< length ls]) (start_index t)
      (start_index t + idx - start_index t) [] =
    Some (map (node H ls d) [start_index t div 2 ^ d ..< nodes_above (length ls) d],
          path_spec H ls side 0 d (length ls) (start_index t + idx))"
    using root_loop_spec [of H ls "start_index t" "cache t" 0 d "length ls" "start_index t + idx" side "[]"] rep
    by (simp add: represents_def)
  moreover have "nodes_above (length ls) d \<le> start_index t div 2 ^ d"
    using assms nodes_above_1 [of "length ls" d] by (cases "ls = []") (auto simp: represents_def)
  ultimately show ?thesis
    using rep by (simp add: compute_merkle_root_and_path_def hs vec_get_def represents_def)
qed

lemma trim_start_SomeD:
  assumes rep: "represents H t ls d" and trim: "trim_start H count t = Some t'"
  shows "represents H t' ls d"
proof -
  have "ls \<noteq> [] \<and> start_index t \<noteq> 2 ^ d"
    using trim compute_panics [OF rep] by (auto simp: trim_start_def split: if_splits)
  moreover from this have "start_index t < 2 ^ d" using rep by (auto simp: represents_def)
  moreover have "count \<le> length (hashes t)" using trim by (simp add: trim_start_def split: if_splits)
  ultimately show ?thesis using trim_start_represents [OF rep] trim by (metis option.inject)
qed

section \<open>Sequences of operations\<close>

datatype 'h tree_op = PushLeaf 'h | TrimLeaves nat

fun run_ops :: "('h \<Rightarrow> 't \<Rightarrow> 't) \<Rightarrow> (nat \<Rightarrow> 't \<Rightarrow> 't option) \<Rightarrow> 'h tree_op list \<Rightarrow> 't \<Rightarrow> 't option" where
  "run_ops add trim [] t = Some t"
| "run_ops add trim (PushLeaf h # ops) t = run_ops add trim ops (add h t)"
| "run_ops add trim (TrimLeaves n # ops) t =
     (case trim n t of None \<Rightarrow> None | Some t' \<Rightarrow> run_ops add trim ops t')"

fun pushed :: "'h tree_op list \<Rightarrow> 'h list" where
  "pushed [] = []"
| "pushed (PushLeaf h # ops) = h # pushed ops"
| "pushed (TrimLeaves n # ops) = pushed ops"

fun grow_by :: "nat \<Rightarrow> nat \<Rightarrow> nat \<Rightarrow> nat" where
  "grow_by d n 0 = d"
| "grow_by d n (Suc c) = grow_by (grow d n) (Suc n) c"

text \<open>An append-only accumulator: adding a leaf appends it to the represented list, trimming changes
  nothing of what is represented, and the root is a function of the represented list and the depth.\<close>

locale leaf_accumulator =
  fixes rep :: "'t \<Rightarrow> 'h list \<Rightarrow> nat \<Rightarrow> bool"
    and add :: "'h \<Rightarrow> 't \<Rightarrow> 't"
    and trim :: "nat \<Rightarrow> 't \<Rightarrow> 't option"
    and root :: "'t \<Rightarrow> 'h option"
    and reference :: "'h list \<Rightarrow> nat \<Rightarrow> 'h"
    and cap :: nat
  assumes add_rep: "rep t ls d \<Longrightarrow> length ls < cap \<Longrightarrow> rep (add h t) (ls @ [h]) (grow d (length ls))"
    and trim_rep: "rep t ls d \<Longrightarrow> trim n t = Some t' \<Longrightarrow> rep t' ls d"
    and root_reference: "rep t ls d \<Longrightarrow> root t = Some (reference ls d)"
begin

lemma run_rep:
  assumes "run_ops add trim ops t = Some t'" "rep t ls d" "length ls + length (pushed ops) \<le> cap"
  shows "rep t' (ls @ pushed ops) (grow_by d (length ls) (length (pushed ops)))"
  using assms
proof (induction ops arbitrary: t ls d)
  case (Cons op ops)
  show ?case
  proof (cases op)
    case (PushLeaf h)
    then show ?thesis
      using Cons.IH [of "add h t" "ls @ [h]" "grow d (length ls)"] Cons.prems add_rep [of t ls d h]
      by simp
  next
    case (TrimLeaves n)
    then show ?thesis using Cons trim_rep by (auto split: option.splits)
  qed
qed simp

lemma run_root:
  assumes "run_ops add trim ops t = Some t'" "rep t ls d" "length ls + length (pushed ops) \<le> cap"
  shows "root t' = Some (reference (ls @ pushed ops) (grow_by d (length ls) (length (pushed ops))))"
  using root_reference [OF run_rep [OF assms]] .

lemma run_root_only_depends_on_pushes:
  assumes "run_ops add trim ops t = Some t'" "run_ops add trim ops' t = Some t''" "rep t ls d"
    and "pushed ops = pushed ops'" "length ls + length (pushed ops) \<le> cap"
  shows "root t' = root t''"
  using run_root [OF assms(1,3,5)] run_root [OF assms(2,3)] assms(4,5) by simp

end

interpretation mini_tree: leaf_accumulator "represents H" push_hash "trim_start H" "merkle_root H"
  "\<lambda>ls d. node H ls d 0" "2 ^ MAX_TREE_DEPTH" for H
  by unfold_locales (auto intro: push_hash_represents trim_start_SomeD merkle_root_spec)

section \<open>Properties\<close>

definition sample_hasher :: merkle_hasher where
  "sample_hasher = \<lparr>hash_bytes = (\<lambda>bs. of_nat (length bs)), compress = (\<lambda>a b. 3 * a + b + 1)\<rparr>"

definition sample_tree :: MiniMerkleTree where
  "sample_tree = \<lparr>hashes = [5], binary_tree_size = 1, start_index = 0, cache = []\<rparr>"

lemma sample_tree_from_hashes: "from_hashes [5] None = Some sample_tree"
  by (simp add: from_hashes_def next_power_of_two_def sample_tree_def tree_depth_by_size_def
      trailing_zeros.simps Let_def)

text \<open>C33. Whatever sequence of pushes and trims is applied to a tree built from a list of leaf
  hashes, the Merkle root that the optimised computation returns is the root of the perfect binary tree
  over all leaves ever added, padded with empty leaves to the size of the tree: it never panics, and it
  does not depend on what has been trimmed.\<close>

theorem merkle_root_matches_reference:
  assumes "from_hashes hs min_size = Some t" "run_ops push_hash (trim_start H) ops t = Some t'"
    and "length hs + length (pushed ops) \<le> 2 ^ MAX_TREE_DEPTH"
  shows "\<exists>d. binary_tree_size t' = 2 ^ d \<and> length (hs @ pushed ops) \<le> 2 ^ d
    \<and> merkle_root H t' = Some (node H (hs @ pushed ops) d 0)"
proof -
  obtain d where "represents H t hs d" by (rule from_hashes_represents [OF assms(1)])
  then have "represents H t' (hs @ pushed ops) (grow_by d (length hs) (length (pushed ops)))"
    using mini_tree.run_rep [OF assms(2) _ assms(3)] by blast
  then show ?thesis using merkle_root_spec by (auto simp: represents_def)
qed

theorem merkle_root_matches_reference_witness:
  "\<exists>t' d. run_ops push_hash (trim_start sample_hasher) [PushLeaf 7] sample_tree = Some t'
    \<and> binary_tree_size t' = 2 ^ d \<and> length [5, 7 :: h256] \<le> 2 ^ d
    \<and> merkle_root sample_hasher t' = Some (node sample_hasher [5, 7] d 0)"
proof -
  obtain t' where run: "run_ops push_hash (trim_start sample_hasher) [PushLeaf 7] sample_tree = Some t'"
    by simp
  show ?thesis
    using merkle_root_matches_reference [OF sample_tree_from_hashes run] run
    by (simp add: MAX_TREE_DEPTH_def)
qed

text \<open>C34. The Merkle path returned for an untrimmed leaf proves that leaf: recomputing the root from
  the leaf hash, its absolute index and the path gives the root of the tree.\<close>

theorem merkle_path_proves_leaf:
  assumes "from_hashes hs min_size = Some t" "run_ops push_hash (trim_start H) ops t = Some t'"
    and "length hs + length (pushed ops) \<le> 2 ^ MAX_TREE_DEPTH" "i < length (hashes t')"
  shows "\<exists>root path. merkle_root_and_path H t' i = Some (root, path) \<and> merkle_root H t' = Some root
    \<and> fold_path H (start_index t' + i) (hashes t' ! i) path = root"
proof -
  let ?ls = "hs @ pushed ops"
  obtain d where "represents H t hs d" by (rule from_hashes_represents [OF assms(1)])
  then obtain d' where rep: "represents H t' ?ls d'"
    using mini_tree.run_rep [OF assms(2) _ assms(3)] by blast
  have hs: "hashes t' = drop (start_index t') ?ls" and le: "length ?ls \<le> 2 ^ d'"
    using rep by (simp_all add: represents_def)
  then have i: "start_index t' + i < length ?ls" using assms(4) by simp
  then have "hashes t' ! i = node H ?ls 0 (start_index t' + i)"
    unfolding hs by (simp del: drop_append)
  moreover have "(start_index t' + i) div 2 ^ d' = 0" using i le by simp
  ultimately have "fold_path H (start_index t' + i) (hashes t' ! i)
      (siblings H ?ls 0 d' (start_index t' + i)) = node H ?ls d' 0"
    using fold_path_siblings [of H "start_index t' + i" ?ls 0 d'] by simp
  then show ?thesis
    using merkle_root_and_path_spec [OF rep _ i] merkle_root_spec [OF rep] by simp
qed

theorem merkle_path_proves_leaf_witness:
  "\<exists>t' root path. run_ops push_hash (trim_start sample_hasher) [PushLeaf 7] sample_tree = Some t'
    \<and> merkle_root_and_path sample_hasher t' 1 = Some (root, path)
    \<and> fold_path sample_hasher 1 7 path = root"
proof -
  obtain t' where run: "run_ops push_hash (trim_start sample_hasher) [PushLeaf 7] sample_tree = Some t'"
    by simp
  then have "hashes t' = [5, 7]" "start_index t' = 0"
    by (auto simp: push_hash_def sample_tree_def Let_def)
  then show ?thesis
    using merkle_path_proves_leaf [OF sample_tree_from_hashes run, of 1] run
    by (auto simp: MAX_TREE_DEPTH_def)
qed

text \<open>C38. Trimming zero leaves, which the documentation allows for every tree, panics on a tree
  without leaves and on a tree of which all leaves are trimmed and that is full.\<close>

theorem trim_nothing_panics:
  assumes "represents H t ls d" "ls = [] \<or> start_index t = binary_tree_size t"
  shows "trim_start H 0 t = None"
  using compute_panics [OF assms(1), of 0 "Some SideLeft"] assms
  by (auto simp: trim_start_def represents_def)

theorem trim_nothing_panics_witness:
  "\<exists>t. from_hashes [] None = Some t \<and> trim_start sample_hasher 0 t = None"
proof -
  obtain t where t: "from_hashes [] None = Some t"
    by (simp add: from_hashes_def next_power_of_two_def tree_depth_by_size_def trailing_zeros.simps
        Let_def)
  obtain d where "represents sample_hasher t [] d" by (rule from_hashes_represents [OF t])
  with trim_nothing_panics t show ?thesis by blast
qed

end
