(* ===== verification/State_Diffs.thy ===== *)
theory State_Diffs
  imports Utils "HOL-Library.Product_Lexorder"
begin

text \<open>
  State diffs and the pubdata built from them: the compression of a storage value relative to its
  previous value (\<^verbatim>\<open>core/lib/types/src/storage/writes/compression.rs\<close>), the encodings of a state diff
  record and of a whole batch of them (\<^verbatim>\<open>writes/mod.rs\<close>), the packed encoding of an L2-to-L1 log
  (\<^verbatim>\<open>core/lib/multivm/src/utils/events.rs\<close>) and the pubdata blob of a batch
  (\<^verbatim>\<open>vm_latest/types/internals/pubdata.rs\<close>).

  The reference side of the theory are decoders (\<open>decompress_value\<close>, \<open>decode_state_diffs\<close>,
  \<open>parse_pubdata\<close>) that a reader of the pubdata can run knowing only the previous values; the
  lemmas show that they recover what was encoded, and bound the sizes.
\<close>

unbundle bit_operations_syntax

section \<open>Compression of a value (compression.rs)\<close>

abbreviation (input) COMPRESSION_VERSION_NUMBER :: u8 where
  "COMPRESSION_VERSION_NUMBER \<equiv> 1"

datatype CompressionMode =
    CompressionByteAdd u256 u256
  | CompressionByteSub u256 u256
  | CompressionByteTransform u256
  | CompressionByteNone u256

fun operation_id :: "CompressionMode \<Rightarrow> nat" where
  "operation_id (CompressionByteAdd prev new) = 1"
| "operation_id (CompressionByteSub prev new) = 2"
| "operation_id (CompressionByteTransform new) = 3"
| "operation_id (CompressionByteNone new) = 0"

definition u256_bits :: "u256 \<Rightarrow> nat" where
  "u256_bits v = nat_bits (unat v)"

definition sized_diff :: "u256 \<Rightarrow> (u256 \<times> nat) option" where
  "sized_diff diff =
     (let size = (u256_bits diff + 7) div 8 in if size \<ge> 31 then None else Some (diff, size))"

fun get_diff_and_size :: "CompressionMode \<Rightarrow> (u256 \<times> nat) option" where
  "get_diff_and_size (CompressionByteAdd prev new) = sized_diff (new - prev)"
| "get_diff_and_size (CompressionByteSub prev new) = sized_diff (prev - new)"
| "get_diff_and_size (CompressionByteTransform new) = sized_diff new"
| "get_diff_and_size (CompressionByteNone new) = None"

fun output_size :: "CompressionMode \<Rightarrow> nat option" where
  "output_size (CompressionByteNone new) = Some 32"
| "output_size mode = map_option snd (get_diff_and_size mode)"

fun compress_value_only :: "CompressionMode \<Rightarrow> u8 list option" where
  "compress_value_only (CompressionByteNone new) = Some (word_be new)"
| "compress_value_only mode =
     map_option (\<lambda>(diff, size). drop (32 - size) (word_be diff)) (get_diff_and_size mode)"

definition metadata_byte :: "nat \<Rightarrow> nat \<Rightarrow> u8" where
  "metadata_byte out_size op_id = word_of_nat (push_bit 3 out_size OR op_id)"

fun compress_extended :: "CompressionMode \<Rightarrow> u8 list option" where
  "compress_extended (CompressionByteNone new) = Some (0 # word_be new)"
| "compress_extended mode =
     map_option (\<lambda>compressed_value.
         metadata_byte (the (output_size mode)) (operation_id mode) # compressed_value)
       (compress_value_only mode)"

definition default_passes :: "u256 \<Rightarrow> u256 \<Rightarrow> CompressionMode list" where
  "default_passes prev_value new_value =
     [CompressionByteAdd prev_value new_value, CompressionByteSub prev_value new_value,
      CompressionByteTransform new_value]"

text \<open>\<^verbatim>\<open>Iterator::min_by_key\<close> returns the first of the minimal elements.\<close>

fun min_by_len :: "'a list list \<Rightarrow> 'a list option" where
  "min_by_len [] = None"
| "min_by_len (x # xs) =
     (case min_by_len xs of
        None \<Rightarrow> Some x
      | Some y \<Rightarrow> if length x \<le> length y then Some x else Some y)"

definition compress_with_best_strategy :: "u256 \<Rightarrow> u256 \<Rightarrow> u8 list" where
  "compress_with_best_strategy prev_value new_value =
     (case min_by_len (List.map_filter compress_extended (default_passes prev_value new_value)) of
        Some bytes \<Rightarrow> bytes
      | None \<Rightarrow> the (compress_extended (CompressionByteNone new_value)))"

section \<open>State diff records (writes/mod.rs)\<close>

record StateDiffRecord =
  diff_address :: address
  diff_key :: u256
  derived_key :: h256
  enumeration_index :: u64
  initial_value :: u256
  final_value :: u256

abbreviation (input) BYTES_PER_ENUMERATION_INDEX :: u8 where
  "BYTES_PER_ENUMERATION_INDEX \<equiv> 4"

abbreviation (input) STATE_DIFF_RECORD_SIZE :: nat where
  "STATE_DIFF_RECORD_SIZE \<equiv> 156"

abbreviation (input) PADDED_ENCODED_STORAGE_DIFF_LEN_BYTES :: nat where
  "PADDED_ENCODED_STORAGE_DIFF_LEN_BYTES \<equiv> 272"

definition encode_diff :: "StateDiffRecord \<Rightarrow> u8 list" where
  "encode_diff d =
     word_be (diff_address d) @ word_be (diff_key d) @ word_be (derived_key d)
       @ word_be (enumeration_index d) @ word_be (initial_value d) @ word_be (final_value d)"

definition encode_padded :: "StateDiffRecord \<Rightarrow> u8 list" where
  "encode_padded d =
     (let packed_encoding = encode_diff d
      in packed_encoding
         @ replicate (PADDED_ENCODED_STORAGE_DIFF_LEN_BYTES - length packed_encoding) 0)"

definition slice :: "nat \<Rightarrow> nat \<Rightarrow> 'a list \<Rightarrow> 'a list" where
  "slice i j xs = drop i (take j xs)"

definition try_from_slice :: "u8 list \<Rightarrow> StateDiffRecord option" where
  "try_from_slice data =
     (if length data = 156
      then Some \<lparr>diff_address = word_from_be (slice 0 20 data),
                 diff_key = word_from_be (slice 20 52 data),
                 derived_key = word_from_be (slice 52 84 data),
                 enumeration_index = word_from_be (slice 84 92 data),
                 initial_value = word_from_be (slice 92 124 data),
                 final_value = word_from_be (slice 124 156 data)\<rparr>
      else None)"

text \<open>An enumeration index that does not fit 32 bits panics.\<close>

definition compress_diff :: "StateDiffRecord \<Rightarrow> u8 list option" where
  "compress_diff d =
     (if enumeration_index d = 0
      then Some (word_be (derived_key d)
                 @ compress_with_best_strategy (initial_value d) (final_value d))
      else if enumeration_index d \<le> ucast (- 1 :: u32)
      then Some (word_be (ucast (enumeration_index d) :: u32)
                 @ compress_with_best_strategy (initial_value d) (final_value d))
      else None)"

definition is_write_initial :: "StateDiffRecord \<Rightarrow> bool" where
  "is_write_initial d \<longleftrightarrow> enumeration_index d = 0"

fun compress_all :: "StateDiffRecord list \<Rightarrow> u8 list option" where
  "compress_all [] = Some []"
| "compress_all (d # ds) =
     (case compress_diff d of
        None \<Rightarrow> None
      | Some bs \<Rightarrow> map_option (\<lambda>rest. bs @ rest) (compress_all ds))"

definition prepend_header :: "u8 list \<Rightarrow> u8 list" where
  "prepend_header compressed_state_diffs =
     COMPRESSION_VERSION_NUMBER
       # slice 1 4 (word_be (of_nat (length compressed_state_diffs) :: u32))
       @ BYTES_PER_ENUMERATION_INDEX # compressed_state_diffs"

definition sort_diffs :: "StateDiffRecord list \<Rightarrow> StateDiffRecord list" where
  "sort_diffs ds = sort_key (\<lambda>d. (diff_address d, diff_key d)) ds"

definition compress_state_diffs :: "StateDiffRecord list \<Rightarrow> u8 list option" where
  "compress_state_diffs state_diffs =
     (let sorted = sort_diffs state_diffs;
          initial_writes = filter is_write_initial sorted;
          repeated_writes = filter (\<lambda>d. \<not> is_write_initial d) sorted
      in case compress_all initial_writes of
           None \<Rightarrow> None
         | Some is \<Rightarrow>
             (case compress_all repeated_writes of
                None \<Rightarrow> None
              | Some rs \<Rightarrow>
                  Some (prepend_header
                    (word_be (of_nat (length initial_writes) :: u16) @ is @ rs))))"

section \<open>Pubdata of a batch (events.rs, pubdata.rs)\<close>

record L1MessengerL2ToL1Log =
  l2_shard_id :: u8
  is_service :: bool
  tx_number_in_block :: u16
  log_sender :: address
  log_key :: u256
  log_value :: u256

definition packed_encoding :: "L1MessengerL2ToL1Log \<Rightarrow> u8 list" where
  "packed_encoding l =
     [l2_shard_id l, if is_service l then 1 else 0] @ word_be (tx_number_in_block l)
       @ word_be (log_sender l) @ u256_to_bytes_be (log_key l) @ u256_to_bytes_be (log_value l)"

record PubdataInput =
  user_logs :: "L1MessengerL2ToL1Log list"
  l2_to_l1_messages :: "u8 list list"
  published_bytecodes :: "u8 list list"
  state_diffs :: "StateDiffRecord list"

definition u32_be :: "nat \<Rightarrow> u8 list" where
  "u32_be n = word_be (of_nat n :: u32)"

definition with_lengths :: "u8 list list \<Rightarrow> u8 list" where
  "with_lengths xs = u32_be (length xs) @ concat (map (\<lambda>x. u32_be (length x) @ x) xs)"

definition build_pubdata :: "PubdataInput \<Rightarrow> bool \<Rightarrow> u8 list option" where
  "build_pubdata p with_uncompressed_state_diffs =
     map_option (\<lambda>state_diffs_compressed.
         u32_be (length (user_logs p)) @ concat (map packed_encoding (user_logs p))
         @ with_lengths (l2_to_l1_messages p)
         @ with_lengths (published_bytecodes p)
         @ state_diffs_compressed
         @ (if with_uncompressed_state_diffs
            then u32_be (length (state_diffs p)) @ concat (map encode_padded (state_diffs p))
            else []))
       (compress_state_diffs (state_diffs p))"

section \<open>Decoders\<close>

text \<open>Reading a value relative to its previous value: the new value and the bytes that follow.\<close>

definition decompress_value :: "u256 \<Rightarrow> u8 list \<Rightarrow> (u256 \<times> u8 list) option" where
  "decompress_value prev bs =
     (case bs of
        [] \<Rightarrow> None
      | m # rest \<Rightarrow>
          (let op = unat m mod 8;
               len = (if op = 0 then 32 else unat m div 8);
               v = word_from_be (take len rest)
           in if length rest < len then None
              else if op = 0 then Some (v, drop len rest)
              else if op = 1 then Some (prev + v, drop len rest)
              else if op = 2 then Some (prev - v, drop len rest)
              else if op = 3 then Some (v, drop len rest)
              else None))"

fun decode_entries :: "nat \<Rightarrow> u256 list \<Rightarrow> u8 list \<Rightarrow> ((u8 list \<times> u256) list \<times> u8 list) option" where
  "decode_entries key_len [] bs = Some ([], bs)"
| "decode_entries key_len (prev # prevs) bs =
     (if length bs < key_len then None
      else case decompress_value prev (drop key_len bs) of
             None \<Rightarrow> None
           | Some (v, rest) \<Rightarrow>
               map_option (\<lambda>(es, rest'). ((take key_len bs, v) # es, rest'))
                 (decode_entries key_len prevs rest))"

text \<open>The number of initial writes is read from the data; the previous values come from the state.\<close>

definition decode_state_diffs ::
    "u256 list \<Rightarrow> u8 list
     \<Rightarrow> ((u8 list \<times> u256) list \<times> (u8 list \<times> u256) list \<times> u8 list) option" where
  "decode_state_diffs prevs bs =
     (if length bs < 7 \<or> bs ! 0 \<noteq> COMPRESSION_VERSION_NUMBER then None
      else let index_len = unat (bs ! 4); n = from_be (slice 5 7 bs)
           in case decode_entries 32 (take n prevs) (drop 7 bs) of
                None \<Rightarrow> None
              | Some (is, rest) \<Rightarrow>
                  map_option (\<lambda>(rs, rest'). (is, rs, rest'))
                    (decode_entries index_len (drop n prevs) rest))"

text \<open>Reading the logs, messages and bytecodes at the start of the pubdata.\<close>

definition read_u32 :: "u8 list \<Rightarrow> (nat \<times> u8 list) option" where
  "read_u32 bs = (if length bs < 4 then None else Some (from_be (take 4 bs), drop 4 bs))"

fun read_fixed :: "nat \<Rightarrow> nat \<Rightarrow> u8 list \<Rightarrow> (u8 list list \<times> u8 list) option" where
  "read_fixed len 0 bs = Some ([], bs)"
| "read_fixed len (Suc n) bs =
     (if length bs < len then None
      else map_option (\<lambda>(xs, rest). (take len bs # xs, rest)) (read_fixed len n (drop len bs)))"

fun read_prefixed :: "nat \<Rightarrow> u8 list \<Rightarrow> (u8 list list \<times> u8 list) option" where
  "read_prefixed 0 bs = Some ([], bs)"
| "read_prefixed (Suc n) bs =
     (case read_u32 bs of
        None \<Rightarrow> None
      | Some (len, bs') \<Rightarrow>
          if length bs' < len then None
          else map_option (\<lambda>(xs, rest). (take len bs' # xs, rest)) (read_prefixed n (drop len bs')))"

definition parse_pubdata ::
    "u8 list \<Rightarrow> (u8 list list \<times> u8 list list \<times> u8 list list \<times> u8 list) option" where
  "parse_pubdata bs =
     do { (n_logs, bs) \<leftarrow> read_u32 bs;
          (logs, bs) \<leftarrow> read_fixed 88 n_logs bs;
          (n_messages, bs) \<leftarrow> read_u32 bs;
          (messages, bs) \<leftarrow> read_prefixed n_messages bs;
          (n_bytecodes, bs) \<leftarrow> read_u32 bs;
          (bytecodes, bs) \<leftarrow> read_prefixed n_bytecodes bs;
          Some (logs, messages, bytecodes, bs) }"

section \<open>Lemmas on value compression\<close>

lemma be_bytes_add: "be_bytes (m + n) x = be_bytes m (x div 256 ^ n) @ be_bytes n x"
proof (induction n arbitrary: x)
  case (Suc n)
  have "be_bytes (m + Suc n) x = be_bytes (m + n) (x div 256) @ [word_of_nat x]" by simp
  also have "\<dots> = be_bytes m (x div 256 div 256 ^ n) @ be_bytes n (x div 256) @ [word_of_nat x]"
    by (simp only: Suc.IH append_assoc)
  finally show ?case by (simp add: div_mult2_eq)
qed simp

lemma drop_word_be_256:
  assumes "s \<le> 32"
  shows "drop (32 - s) (word_be (v :: u256)) = be_bytes s (unat v)"
  using assms be_bytes_add [of "32 - s" s "unat v"] by (simp add: word_be_def)

lemma sized_diff_Some:
  assumes "sized_diff v = Some (d, s)"
  shows "d = v" "s < 31" "unat v < 256 ^ s"
proof -
  from assms show "d = v" "s < 31" by (auto simp: sized_diff_def Let_def split: if_splits)
  have "s = (u256_bits v + 7) div 8" using assms by (auto simp: sized_diff_def Let_def split: if_splits)
  then have "nat_bits (unat v) \<le> 8 * s" by (simp add: u256_bits_def)
  then have "unat v < 2 ^ (8 * s)" by (simp only: nat_bits_le_iff)
  then show "unat v < 256 ^ s" by (simp add: power_mult)
qed

lemma word_from_be_sized:
  assumes "unat (v :: u256) < 256 ^ s"
  shows "word_from_be (be_bytes s (unat v)) = v"
  using assms by (simp add: word_from_be_def from_be_be_bytes)

lemma metadata_byte_value:
  assumes "s < 31" "op < 8"
  shows "unat (metadata_byte s op) = 8 * s + op"
proof -
  have "push_bit 3 s AND op = 0"
  proof (rule bit_eqI)
    fix n
    have "\<not> bit op n" if "3 \<le> n"
    proof -
      have "(8 :: nat) \<le> 2 ^ n" using power_increasing [OF that, of "2 :: nat"] by simp
      then have "op div 2 ^ n = 0" using assms(2) by simp
      then show ?thesis by (simp add: bit_iff_odd)
    qed
    then show "bit (push_bit 3 s AND op) n = bit 0 n" by (auto simp: bit_simps)
  qed
  then have "push_bit 3 s OR op = push_bit 3 s + op" by (simp add: disjunctive_add_eq_or)
  also have "\<dots> = 8 * s + op" by (simp add: push_bit_eq_mult)
  finally have "metadata_byte s op = word_of_nat (8 * s + op)" by (simp only: metadata_byte_def)
  moreover have "8 * s + op < 256" using assms by simp
  ultimately show ?thesis by (simp only: unat_word8_of_nat mod_less)
qed

lemma decompress_sized:
  assumes "sized_diff v = Some (d, s)" "op \<in> {1, 2, 3}"
  shows "decompress_value prev (metadata_byte s op # drop (32 - s) (word_be d) @ rest) =
    Some (if op = 1 then prev + v else if op = 2 then prev - v else v, rest)"
proof -
  note sd = sized_diff_Some [OF assms(1)]
  have m: "unat (metadata_byte s op) = 8 * s + op"
    using sd(2) assms(2) by (intro metadata_byte_value) auto
  have op: "unat (metadata_byte s op) mod 8 = op" "unat (metadata_byte s op) div 8 = s"
    using m assms(2) by auto
  have "drop (32 - s) (word_be d) = be_bytes s (unat v)"
    using sd by (simp only: drop_word_be_256 less_imp_le)
  moreover have "op = 1 \<or> op = 2 \<or> op = 3" using assms(2) by simp
  ultimately show ?thesis
    unfolding decompress_value_def list.case op
    by (elim disjE) (simp_all add: word_from_be_sized [OF sd(3)])
qed

lemma decompress_none:
  "decompress_value prev (0 # word_be v @ rest) = Some (v, rest)"
  by (simp add: decompress_value_def Let_def)

lemma compress_extended_cases:
  assumes "mode \<in> set (default_passes prev new)" "compress_extended mode = Some bs"
  obtains (Add) d s where "sized_diff (new - prev) = Some (d, s)"
      "bs = metadata_byte s 1 # drop (32 - s) (word_be d)"
  | (Sub) d s where "sized_diff (prev - new) = Some (d, s)"
      "bs = metadata_byte s 2 # drop (32 - s) (word_be d)"
  | (Transform) d s where "sized_diff new = Some (d, s)"
      "bs = metadata_byte s 3 # drop (32 - s) (word_be d)"
  using assms by (auto simp: default_passes_def)

lemma compress_extended_roundtrip:
  assumes "mode \<in> set (default_passes prev new)" "compress_extended mode = Some bs"
  shows "decompress_value prev (bs @ rest) = Some (new, rest)" "length bs \<le> 31"
proof -
  have "decompress_value prev (bs @ rest) = Some (new, rest) \<and> length bs \<le> 31"
    using assms
  proof (cases rule: compress_extended_cases)
    case (Add d s)
    with decompress_sized [OF Add(1), of 1 prev rest] sized_diff_Some(2) [OF Add(1)]
    show ?thesis by simp
  next
    case (Sub d s)
    with decompress_sized [OF Sub(1), of 2 prev rest] sized_diff_Some(2) [OF Sub(1)]
    show ?thesis by simp
  next
    case (Transform d s)
    with decompress_sized [OF Transform(1), of 3 prev rest] sized_diff_Some(2) [OF Transform(1)]
    show ?thesis by simp
  qed
  then show "decompress_value prev (bs @ rest) = Some (new, rest)" "length bs \<le> 31" by simp_all
qed

lemma min_by_len_None [simp]: "min_by_len xs = None \<longleftrightarrow> xs = []"
  by (cases xs) (auto split: option.splits)

lemma min_by_len_Some:
  "min_by_len xs = Some y \<Longrightarrow> y \<in> set xs \<and> (\<forall>x \<in> set xs. length y \<le> length x)"
proof (induction xs arbitrary: y)
  case (Cons x xs)
  show ?case
  proof (cases "min_by_len xs")
    case None
    with Cons.prems show ?thesis by simp
  next
    case (Some z)
    with Cons.IH [OF Some] Cons.prems show ?thesis by (auto split: if_splits)
  qed
qed simp

lemma set_map_filter: "y \<in> set (List.map_filter f xs) \<longleftrightarrow> (\<exists>x \<in> set xs. f x = Some y)"
  by (induction xs) (auto simp: List.map_filter_simps split: option.splits)

lemma compress_best_cases:
  obtains mode where "mode \<in> set (default_passes prev new)"
      "compress_extended mode = Some (compress_with_best_strategy prev new)"
  | "compress_with_best_strategy prev new = 0 # word_be new"
    "\<forall>mode \<in> set (default_passes prev new). compress_extended mode = None"
proof (cases "min_by_len (List.map_filter compress_extended (default_passes prev new))")
  case None
  then have nil: "List.map_filter compress_extended (default_passes prev new) = []"
    by (simp only: min_by_len_None)
  have none: "\<forall>mode \<in> set (default_passes prev new). compress_extended mode = None"
  proof
    fix mode assume "mode \<in> set (default_passes prev new)"
    with nil set_map_filter [of _ compress_extended "default_passes prev new"]
    show "compress_extended mode = None" by (cases "compress_extended mode") auto
  qed
  have best: "compress_with_best_strategy prev new = 0 # word_be new"
    using None by (simp only: compress_with_best_strategy_def option.case compress_extended.simps option.sel)
  show thesis by (rule that(2) [OF best none])
next
  case (Some bs)
  then have "bs \<in> set (List.map_filter compress_extended (default_passes prev new))"
    using min_by_len_Some by blast
  then obtain mode where "mode \<in> set (default_passes prev new)" "compress_extended mode = Some bs"
    unfolding set_map_filter by (elim bexE)
  moreover have "compress_with_best_strategy prev new = bs"
    using Some by (simp only: compress_with_best_strategy_def option.case)
  ultimately show thesis using that(1) by blast
qed

lemma decompress_best:
  "decompress_value prev (compress_with_best_strategy prev new @ rest) = Some (new, rest)"
  by (rule compress_best_cases [of prev new])
    (simp_all add: compress_extended_roundtrip decompress_none)

lemma length_compress_best: "length (compress_with_best_strategy prev new) \<le> 33"
  by (rule compress_best_cases [of prev new]) (auto dest!: compress_extended_roundtrip(2))

lemma compress_best_optimal:
  assumes "mode \<in> set (default_passes prev new)" "compress_extended mode = Some bs"
  shows "length (compress_with_best_strategy prev new) \<le> length bs"
proof -
  have bs: "bs \<in> set (List.map_filter compress_extended (default_passes prev new))"
    using assms by (auto simp: set_map_filter)
  then obtain y where y: "min_by_len (List.map_filter compress_extended (default_passes prev new)) = Some y"
    by (cases "min_by_len (List.map_filter compress_extended (default_passes prev new))") auto
  then have "compress_with_best_strategy prev new = y"
    by (simp only: compress_with_best_strategy_def option.case)
  with min_by_len_Some [OF y] bs show ?thesis by blast
qed

section \<open>Lemmas on state diffs and pubdata\<close>

definition diff_key_bytes :: "StateDiffRecord \<Rightarrow> u8 list" where
  "diff_key_bytes d =
     (if is_write_initial d then word_be (derived_key d)
      else word_be (ucast (enumeration_index d) :: u32))"

abbreviation diff_entry :: "StateDiffRecord \<Rightarrow> u8 list \<times> u256" where
  "diff_entry d \<equiv> (diff_key_bytes d, final_value d)"

lemma compress_diff_Some:
  "compress_diff d = Some bs \<Longrightarrow>
   bs = diff_key_bytes d @ compress_with_best_strategy (initial_value d) (final_value d)"
  by (auto simp: compress_diff_def diff_key_bytes_def is_write_initial_def split: if_splits)

lemma length_diff_key_bytes:
  "length (diff_key_bytes d) = (if is_write_initial d then 32 else 4)"
  by (simp add: diff_key_bytes_def)

lemma decode_entries_compress_all:
  assumes "compress_all ds = Some bs" "\<And>d. d \<in> set ds \<Longrightarrow> length (diff_key_bytes d) = len"
  shows "decode_entries len (map initial_value ds) (bs @ rest) = Some (map diff_entry ds, rest)"
  using assms
proof (induction ds arbitrary: bs)
  case (Cons d ds)
  from Cons.prems(1) obtain b c where bc: "compress_diff d = Some b" "compress_all ds = Some c" "bs = b @ c"
    by (auto split: option.splits)
  have "decode_entries len (map initial_value ds) (c @ rest) = Some (map diff_entry ds, rest)"
    using Cons.IH [OF bc(2)] Cons.prems(2) by simp
  then show ?case
    using bc(3) compress_diff_Some [OF bc(1)] Cons.prems(2) [of d] by (simp add: decompress_best)
qed simp

lemma length_2E: assumes "length xs = 2" obtains x y where "xs = [x, y]"
  using assms by (auto simp: numeral_2_eq_2 length_Suc_conv)

lemma length_3E: assumes "length xs = 3" obtains x y z where "xs = [x, y, z]"
  using assms by (auto simp: numeral_3_eq_3 length_Suc_conv)

lemma word_be_u16: obtains x y where "word_be (w :: u16) = [x, y]" "from_be [x, y] = unat w"
proof -
  have "length (word_be w) = 2" by (simp add: word_be_def)
  then obtain x y where "word_be w = [x, y]" by (rule length_2E)
  moreover have "from_be (word_be w) = unat w"
    using unsigned_less [of w, where 'a = nat] by (simp add: word_be_def from_be_be_bytes)
  ultimately show thesis using that by simp
qed

lemma header_length_bytes:
  obtains a b c where "slice 1 4 (word_be (of_nat n :: u32)) = [a, b, c]"
    "from_be [a, b, c] = n mod 2 ^ 24"
proof -
  have "slice 1 4 (word_be (of_nat n :: u32)) = be_bytes 3 (unat (of_nat n :: u32))"
    using be_bytes_add [of 1 3 "unat (of_nat n :: u32)"] by (simp add: slice_def word_be_def)
  moreover have "length (be_bytes 3 (unat (of_nat n :: u32))) = 3" by simp
  then obtain a b c where "be_bytes 3 (unat (of_nat n :: u32)) = [a, b, c]" by (rule length_3E)
  moreover have "from_be (be_bytes 3 (unat (of_nat n :: u32))) = n mod 2 ^ 24"
    by (simp add: from_be_be_bytes unsigned_of_nat take_bit_eq_mod mod_mod_cancel)
  ultimately show thesis using that by simp
qed

lemma compress_state_diffs_Some:
  assumes "compress_state_diffs ds = Some bs"
  obtains iws rws where
    "compress_all (filter is_write_initial (sort_diffs ds)) = Some iws"
    "compress_all (filter (\<lambda>d. \<not> is_write_initial d) (sort_diffs ds)) = Some rws"
    "bs = prepend_header
       (word_be (of_nat (length (filter is_write_initial (sort_diffs ds))) :: u16) @ iws @ rws)"
  using assms by (auto simp: compress_state_diffs_def Let_def split: option.splits)

lemma decode_prepended:
  assumes "n < 2 ^ 16"
    "decode_entries 32 (take n prevs) (bs @ rest) = Some (is, bs')"
    "decode_entries 4 (drop n prevs) bs' = Some (rs, rest')"
  shows "decode_state_diffs prevs (prepend_header (word_be (of_nat n :: u16) @ bs) @ rest) =
    Some (is, rs, rest')"
proof -
  obtain x y where xy: "word_be (of_nat n :: u16) = [x, y]" "from_be [x, y] = unat (of_nat n :: u16)"
    by (rule word_be_u16)
  obtain a b c where abc: "slice 1 4 (word_be (of_nat (length (word_be (of_nat n :: u16) @ bs)) :: u32)) = [a, b, c]"
    by (rule header_length_bytes)
  have "unat (of_nat n :: u16) = n" using assms(1) by (simp add: unsigned_of_nat take_bit_eq_mod)
  then show ?thesis
    using xy(2) assms(2, 3)
    unfolding prepend_header_def abc unfolding xy(1)
    by (simp add: decode_state_diffs_def slice_def)
qed

lemma compress_all_total:
  "(\<exists>bs. compress_all ds = Some bs) \<longleftrightarrow> (\<forall>d \<in> set ds. compress_diff d \<noteq> None)"
  by (induction ds) (auto split: option.splits)

lemma compress_diff_None: "compress_diff d = None \<longleftrightarrow> 2 ^ 32 \<le> unat (enumeration_index d)"
proof -
  have "unat (ucast (- 1 :: u32) :: u64) = 2 ^ 32 - 1"
    by (simp add: unsigned_ucast_eq unsigned_minus_1_eq_mask mask_eq_exp_minus_1 take_bit_nat_eq_self)
  then show ?thesis
    by (auto simp: compress_diff_def word_le_nat_alt)
qed

lemma set_sort_diffs [simp]: "set (sort_diffs ds) = set ds"
  by (simp add: sort_diffs_def)

lemma compress_state_diffs_total:
  "(\<exists>bs. compress_state_diffs ds = Some bs) \<longleftrightarrow>
   (\<forall>d \<in> set ds. unat (enumeration_index d) < 2 ^ 32)"
proof -
  have "(\<exists>bs. compress_state_diffs ds = Some bs) \<longleftrightarrow>
      (\<exists>is. compress_all (filter is_write_initial (sort_diffs ds)) = Some is) \<and>
      (\<exists>rs. compress_all (filter (\<lambda>d. \<not> is_write_initial d) (sort_diffs ds)) = Some rs)"
    by (auto simp: compress_state_diffs_def Let_def split: option.splits)
  also have "\<dots> \<longleftrightarrow> (\<forall>d \<in> set ds. compress_diff d \<noteq> None)"
    unfolding compress_all_total by auto
  finally show ?thesis by (simp add: compress_diff_None not_le)
qed

lemma slice_header_length:
  "from_be (slice 1 4 (prepend_header body)) = length body mod 2 ^ 24"
  "length (prepend_header body) = length body + 5"
proof -
  obtain a b c where abc: "slice 1 4 (word_be (of_nat (length body) :: u32)) = [a, b, c]"
    "from_be [a, b, c] = length body mod 2 ^ 24" by (rule header_length_bytes)
  show "length (prepend_header body) = length body + 5" unfolding prepend_header_def abc(1) by simp
  have "slice 1 4 (prepend_header body) = [a, b, c]"
    unfolding prepend_header_def abc(1) by (simp add: slice_def)
  then show "from_be (slice 1 4 (prepend_header body)) = length body mod 2 ^ 24"
    using abc(2) by simp
qed

lemma length_filter_sort_diffs [simp]:
  "length (filter P (sort_diffs ds)) = length (filter P ds)"
  by (simp add: sort_diffs_def filter_sort)

lemma read_u32_u32_be [simp]: "n < 2 ^ 32 \<Longrightarrow> read_u32 (u32_be n @ bs) = Some (n, bs)"
  by (simp add: read_u32_def u32_be_def word_be_def from_be_be_bytes unsigned_of_nat take_bit_eq_mod)

lemma read_prefixed_concat:
  "(\<And>x. x \<in> set xs \<Longrightarrow> length x < 2 ^ 32) \<Longrightarrow>
   read_prefixed (length xs) (concat (map (\<lambda>x. u32_be (length x) @ x) xs) @ rest) = Some (xs, rest)"
  by (induction xs) auto

lemma length_packed_encoding: "length (packed_encoding l) = 88"
  by (simp add: packed_encoding_def u256_to_bytes_be_def)

lemma read_fixed_logs:
  "read_fixed 88 (length ls) (concat (map packed_encoding ls) @ rest) = Some (map packed_encoding ls, rest)"
  by (induction ls) (simp_all add: length_packed_encoding)

section \<open>Properties\<close>

text \<open>Value compression is lossless and bounded: whatever the previous and the new value of a
  slot are, the bytes of \<open>compress_with_best_strategy\<close> are self-delimiting, a reader that knows
  the previous value recovers the new value and the bytes that follow, and at most 33 bytes are
  used.\<close>
theorem compressed_value_roundtrip:
  "decompress_value prev (compress_with_best_strategy prev new @ rest) = Some (new, rest) \<and>
   length (compress_with_best_strategy prev new) \<le> 33"
  by (simp add: decompress_best length_compress_best)

text \<open>C37. The chosen strategy is the best one: no strategy that applies to the pair of values, the
  uncompressed one included, gives fewer bytes.\<close>
theorem best_strategy_is_shortest:
  assumes "mode \<in> set (CompressionByteNone new # default_passes prev new)"
    "compress_extended mode = Some bs"
  shows "length (compress_with_best_strategy prev new) \<le> length bs"
  using assms compress_best_optimal [of mode prev new bs] length_compress_best [of prev new] by auto

theorem best_strategy_is_shortest_witness:
  "length (compress_with_best_strategy 7 9) \<le> length (0 # word_be (9 :: u256))"
  by (rule best_strategy_is_shortest [of "CompressionByteNone 9"]) simp_all

text \<open>C35. The compressed state diffs of a batch are complete. When every enumeration index fits 32
  bits and there are fewer than 65536 initial writes, compression succeeds, the header carries the
  length of the body modulo 2 to the 24, and a reader that knows the previous values recovers the
  key and the new value of every initial write and the index and the new value of every repeated
  write, in the sorted order, and the bytes that follow.\<close>
theorem state_diffs_roundtrip:
  assumes "\<forall>d \<in> set ds. unat (enumeration_index d) < 2 ^ 32"
    "length (filter is_write_initial ds) < 2 ^ 16"
    "iw = filter is_write_initial (sort_diffs ds)"
    "rw = filter (\<lambda>d. \<not> is_write_initial d) (sort_diffs ds)"
  shows "\<exists>bs. compress_state_diffs ds = Some bs \<and>
    from_be (slice 1 4 bs) = (length bs - 5) mod 2 ^ 24 \<and>
    decode_state_diffs (map initial_value (iw @ rw)) (bs @ rest) =
      Some (map diff_entry iw, map diff_entry rw, rest)"
proof -
  obtain bs where bs: "compress_state_diffs ds = Some bs"
    using compress_state_diffs_total assms(1) by blast
  then obtain iws rws where iws: "compress_all iw = Some iws" "compress_all rw = Some rws"
    and body: "bs = prepend_header (word_be (of_nat (length iw) :: u16) @ iws @ rws)"
    unfolding assms(3, 4) by (rule compress_state_diffs_Some)
  have "decode_entries 32 (map initial_value iw) (iws @ rws @ rest) = Some (map diff_entry iw, rws @ rest)"
    by (rule decode_entries_compress_all [OF iws(1)]) (simp add: assms(3) length_diff_key_bytes)
  moreover have "decode_entries 4 (map initial_value rw) (rws @ rest) = Some (map diff_entry rw, rest)"
    by (rule decode_entries_compress_all [OF iws(2)]) (simp add: assms(4) length_diff_key_bytes)
  moreover have "length iw < 2 ^ 16" using assms(2) by (simp add: assms(3))
  ultimately have "decode_state_diffs (map initial_value (iw @ rw)) (bs @ rest) =
      Some (map diff_entry iw, map diff_entry rw, rest)"
    unfolding body by (intro decode_prepended) simp_all
  moreover have "from_be (slice 1 4 bs) = (length bs - 5) mod 2 ^ 24"
    unfolding body slice_header_length by simp
  ultimately show ?thesis using bs by blast
qed

abbreviation sample_diff :: "u64 \<Rightarrow> u256 \<Rightarrow> StateDiffRecord" where
  "sample_diff index value \<equiv>
     \<lparr>diff_address = 1, diff_key = 2, derived_key = 3, enumeration_index = index,
      initial_value = 5, final_value = value\<rparr>"

theorem state_diffs_roundtrip_witness:
  "\<exists>bs. compress_state_diffs [sample_diff 4 9, sample_diff 0 6] = Some bs \<and>
    from_be (slice 1 4 bs) = (length bs - 5) mod 2 ^ 24 \<and>
    decode_state_diffs [5, 5] (bs @ [7]) =
      Some ([diff_entry (sample_diff 0 6)], [diff_entry (sample_diff 4 9)], [7])"
  using state_diffs_roundtrip [of "[sample_diff 4 9, sample_diff 0 6]"
      "[sample_diff 0 6]" "[sample_diff 4 9]" "[7]"]
  by (auto simp: is_write_initial_def sort_diffs_def)

text \<open>A state diff record survives its fixed encoding: the encoding has the declared size, reading
  it gives the record, and the padded encoding is the encoding followed by zeros up to the declared
  padded size.\<close>
theorem state_diff_record_roundtrip:
  "length (encode_diff d) = STATE_DIFF_RECORD_SIZE \<and> try_from_slice (encode_diff d) = Some d \<and>
   length (encode_padded d) = PADDED_ENCODED_STORAGE_DIFF_LEN_BYTES \<and>
   encode_padded d = encode_diff d @ replicate 116 0"
proof -
  have len: "length (encode_diff d) = 156" by (simp add: encode_diff_def)
  then have "try_from_slice (encode_diff d) = Some d"
    by (simp add: try_from_slice_def) (simp add: encode_diff_def slice_def word_from_be_word_be)
  with len show ?thesis
    by (simp add: encode_padded_def Let_def)
qed



end
