(* ===== verification/Storage_Logs.thy ===== *)
theory Storage_Logs
  imports State_Diffs Protocol_Version
begin

text \<open>
  Storage logs (\<^verbatim>\<open>core/lib/types/src/storage/log.rs\<close>, \<^verbatim>\<open>zk_evm_types.rs\<close>) and the in-flight
  deduplication of storage writes (\<^verbatim>\<open>core/lib/multivm/src/utils/deduplicator.rs\<close>), which the sealing
  logic uses to predict the pubdata of a batch (\<^verbatim>\<open>DeduplicatedWritesMetrics\<close> in
  \<^verbatim>\<open>core/lib/vm_interface/src/types/outputs/statistic.rs\<close>). The counters of the metrics are
  \<^verbatim>\<open>usize\<close> values that the code increments and decrements: they are 64-bit words here, which wrap
  as in a release build. The lemmas relate the incremental bookkeeping to the net effect of the logs
  and show that a rollback restores it.
\<close>

section \<open>Logs\<close>

record StorageKey =
  key_account :: address
  key_slot :: h256

record LogQuery =
  lq_timestamp :: u32
  lq_tx_number_in_block :: u16
  lq_aux_byte :: u8
  lq_shard_id :: u8
  lq_address :: address
  lq_key :: u256
  lq_read_value :: u256
  lq_written_value :: u256
  lq_rw_flag :: bool
  lq_rollback :: bool
  lq_is_service :: bool

datatype StorageLogKind = Read | InitialWrite | RepeatedWrite

record StorageLog =
  sl_kind :: StorageLogKind
  sl_key :: StorageKey
  sl_value :: h256

record StorageLogWithPreviousValue =
  prev_log :: StorageLog
  previous_value :: h256

definition new_read_log :: "StorageKey \<Rightarrow> h256 \<Rightarrow> StorageLog" where
  "new_read_log key v = \<lparr>sl_kind = Read, sl_key = key, sl_value = v\<rparr>"

definition new_write_log :: "StorageKey \<Rightarrow> h256 \<Rightarrow> StorageLog" where
  "new_write_log key v = \<lparr>sl_kind = RepeatedWrite, sl_key = key, sl_value = v\<rparr>"

definition from_log_query :: "LogQuery \<Rightarrow> StorageLog" where
  "from_log_query q =
     (let key = \<lparr>key_account = lq_address q, key_slot = u256_to_h256 (lq_key q)\<rparr>
      in if lq_rw_flag q
         then if lq_rollback q then new_write_log key (u256_to_h256 (lq_read_value q))
              else new_write_log key (u256_to_h256 (lq_written_value q))
         else new_read_log key (u256_to_h256 (lq_read_value q)))"

definition sl_is_write :: "StorageLog \<Rightarrow> bool" where
  "sl_is_write l \<longleftrightarrow> sl_kind l \<noteq> Read"

definition to_test_log_query :: "StorageLog \<Rightarrow> LogQuery" where
  "to_test_log_query l =
     (let v = word_from_be (word_be (sl_value l));
          (read_value, written_value) = (if sl_kind l = Read then (v, 0) else (0, v))
      in \<lparr>lq_timestamp = 0, lq_tx_number_in_block = 0, lq_aux_byte = 0, lq_shard_id = 0,
          lq_address = key_account (sl_key l),
          lq_key = word_from_be (word_be (key_slot (sl_key l))),
          lq_read_value = read_value, lq_written_value = written_value,
          lq_rw_flag = sl_is_write l, lq_rollback = False, lq_is_service = False\<rparr>)"

record StorageLogQuery =
  log_query :: LogQuery
  log_type :: StorageLogKind

text \<open>The conversion of a VM log query to a storage log with the value it replaces.\<close>

definition log_with_previous_value :: "StorageLogQuery \<Rightarrow> StorageLogWithPreviousValue" where
  "log_with_previous_value q =
     \<lparr>prev_log = (from_log_query (log_query q))\<lparr>sl_kind := log_type q\<rparr>,
      previous_value = u256_to_h256 (if lq_rollback (log_query q) then lq_written_value (log_query q)
                                     else lq_read_value (log_query q))\<rparr>"

section \<open>Metrics\<close>

record DeduplicatedWritesMetrics =
  initial_storage_writes :: u64
  repeated_storage_writes :: u64
  total_updated_values_size :: u64

abbreviation (input) BYTES_PER_DERIVED_KEY :: u8 where
  "BYTES_PER_DERIVED_KEY \<equiv> 32"

abbreviation (input) initial_write_serialized_size :: u64 where
  "initial_write_serialized_size \<equiv> 64"

abbreviation (input) repeated_write_serialized_size :: u64 where
  "repeated_write_serialized_size \<equiv> 40"

definition metrics_size :: "DeduplicatedWritesMetrics \<Rightarrow> ProtocolVersionId \<Rightarrow> u64" where
  "metrics_size m protocol_version =
     (if is_pre_boojum protocol_version
      then initial_storage_writes m * initial_write_serialized_size
           + repeated_storage_writes m * repeated_write_serialized_size
      else total_updated_values_size m
           + ucast BYTES_PER_DERIVED_KEY * initial_storage_writes m
           + ucast BYTES_PER_ENUMERATION_INDEX * repeated_storage_writes m)"

section \<open>The deduplicator\<close>

record ModifiedSlot =
  slot_value :: h256
  slot_size :: u64

datatype UpdateType = Remove ModifiedSlot | Update ModifiedSlot | Insert

record UpdateItem =
  item_key :: StorageKey
  update_type :: UpdateType
  item_initial :: bool

record StorageWritesDeduplicator =
  initial_values :: "(StorageKey, h256) fmap"
  modified_key_values :: "(StorageKey, ModifiedSlot) fmap"
  dedup_metrics :: DeduplicatedWritesMetrics

definition dedup_new :: StorageWritesDeduplicator where
  "dedup_new =
     \<lparr>initial_values = fmempty, modified_key_values = fmempty,
      dedup_metrics = \<lparr>initial_storage_writes = 0, repeated_storage_writes = 0,
                       total_updated_values_size = 0\<rparr>\<rparr>"

text \<open>\<open>field_to_change\<close> of the source: the counter of initial or of repeated writes.\<close>

definition change_field ::
    "bool \<Rightarrow> (u64 \<Rightarrow> u64) \<Rightarrow> DeduplicatedWritesMetrics \<Rightarrow> DeduplicatedWritesMetrics" where
  "change_field write_initial f m =
     (if write_initial then m\<lparr>initial_storage_writes := f (initial_storage_writes m)\<rparr>
      else m\<lparr>repeated_storage_writes := f (repeated_storage_writes m)\<rparr>)"

abbreviation (input) change_total :: "(u64 \<Rightarrow> u64) \<Rightarrow> DeduplicatedWritesMetrics \<Rightarrow> DeduplicatedWritesMetrics" where
  "change_total f m \<equiv> m\<lparr>total_updated_values_size := f (total_updated_values_size m)\<rparr>"

definition modified_slot :: "h256 \<Rightarrow> h256 \<Rightarrow> ModifiedSlot" where
  "modified_slot value_before new_value =
     \<lparr>slot_value = new_value,
      slot_size = of_nat (length (compress_with_best_strategy (h256_to_u256 value_before)
                                    (h256_to_u256 new_value)))\<rparr>"

text \<open>The match of \<open>process_storage_logs\<close> on whether the key was modified and on whether the new value
  differs from the one before the first write: the new state and the recorded update. The lookup
  answers both \<open>contains_key\<close> and what \<open>remove\<close> and \<open>insert\<close> return.\<close>

definition record_write ::
    "StorageKey \<Rightarrow> h256 \<Rightarrow> h256 \<Rightarrow> bool \<Rightarrow> StorageWritesDeduplicator
     \<Rightarrow> StorageWritesDeduplicator \<times> UpdateItem list" where
  "record_write key value_before new_value write_initial s =
     (let slot = modified_slot value_before new_value;
          item = (\<lambda>u. \<lparr>item_key = key, update_type = u, item_initial = write_initial\<rparr>)
      in case fmlookup (modified_key_values s) key of
           Some old \<Rightarrow>
             if value_before = new_value
             then (s\<lparr>modified_key_values := fmdrop key (modified_key_values s),
                     dedup_metrics := change_total (\<lambda>x. x - slot_size old)
                       (change_field write_initial (\<lambda>x. x - 1) (dedup_metrics s))\<rparr>,
                   [item (Remove old)])
             else (s\<lparr>modified_key_values := fmupd key slot (modified_key_values s),
                     dedup_metrics := change_total (\<lambda>x. x - slot_size old + slot_size slot)
                       (dedup_metrics s)\<rparr>,
                   [item (Update old)])
         | None \<Rightarrow>
             if value_before = new_value then (s, [])
             else (s\<lparr>modified_key_values := fmupd key slot (modified_key_values s),
                     dedup_metrics := change_total (\<lambda>x. x + slot_size slot)
                       (change_field write_initial (\<lambda>x. x + 1) (dedup_metrics s))\<rparr>,
                   [item Insert]))"

definition value_before_writes :: "StorageWritesDeduplicator \<Rightarrow> StorageLogWithPreviousValue \<Rightarrow> h256" where
  "value_before_writes s l =
     (case fmlookup (initial_values s) (sl_key (prev_log l)) of
        Some v \<Rightarrow> v | None \<Rightarrow> previous_value l)"

definition process_storage_log ::
    "StorageWritesDeduplicator \<Rightarrow> StorageLogWithPreviousValue
     \<Rightarrow> StorageWritesDeduplicator \<times> UpdateItem list" where
  "process_storage_log s l =
     (let key = sl_key (prev_log l); before = value_before_writes s l
      in record_write key before (sl_value (prev_log l)) (sl_kind (prev_log l) = InitialWrite)
           (s\<lparr>initial_values := fmupd key before (initial_values s)\<rparr>))"

fun process_writes ::
    "StorageWritesDeduplicator \<Rightarrow> StorageLogWithPreviousValue list
     \<Rightarrow> StorageWritesDeduplicator \<times> UpdateItem list" where
  "process_writes s [] = (s, [])"
| "process_writes s (l # ls) =
     (let (s', us) = process_storage_log s l; (s'', us') = process_writes s' ls in (s'', us @ us'))"

definition process_storage_logs ::
    "StorageWritesDeduplicator \<Rightarrow> StorageLogWithPreviousValue list
     \<Rightarrow> StorageWritesDeduplicator \<times> UpdateItem list" where
  "process_storage_logs s logs = process_writes s (filter (\<lambda>l. sl_is_write (prev_log l)) logs)"

definition rollback_item ::
    "StorageWritesDeduplicator \<Rightarrow> UpdateItem \<Rightarrow> StorageWritesDeduplicator option" where
  "rollback_item s item =
     (let key = item_key item
      in case update_type item of
           Insert \<Rightarrow>
             (case fmlookup (modified_key_values s) key of
                None \<Rightarrow> None
              | Some v \<Rightarrow>
                  Some (s\<lparr>modified_key_values := fmdrop key (modified_key_values s),
                          dedup_metrics := change_total (\<lambda>x. x - slot_size v)
                            (change_field (item_initial item) (\<lambda>x. x - 1) (dedup_metrics s))\<rparr>))
         | Update v \<Rightarrow>
             (case fmlookup (modified_key_values s) key of
                None \<Rightarrow> None
              | Some old \<Rightarrow>
                  Some (s\<lparr>modified_key_values := fmupd key v (modified_key_values s),
                          dedup_metrics := change_total (\<lambda>x. x + slot_size v - slot_size old)
                            (dedup_metrics s)\<rparr>))
         | Remove v \<Rightarrow>
             Some (s\<lparr>modified_key_values := fmupd key v (modified_key_values s),
                     dedup_metrics := change_total (\<lambda>x. x + slot_size v)
                       (change_field (item_initial item) (\<lambda>x. x + 1) (dedup_metrics s))\<rparr>))"

fun rollback_items ::
    "StorageWritesDeduplicator \<Rightarrow> UpdateItem list \<Rightarrow> StorageWritesDeduplicator option" where
  "rollback_items s [] = Some s"
| "rollback_items s (u # us) =
     (case rollback_item s u of None \<Rightarrow> None | Some s' \<Rightarrow> rollback_items s' us)"

definition dedup_rollback ::
    "StorageWritesDeduplicator \<Rightarrow> UpdateItem list \<Rightarrow> StorageWritesDeduplicator option" where
  "dedup_rollback s updates = rollback_items s (rev updates)"

definition dedup_apply ::
    "StorageWritesDeduplicator \<Rightarrow> StorageLogWithPreviousValue list \<Rightarrow> StorageWritesDeduplicator" where
  "dedup_apply s logs = fst (process_storage_logs s logs)"

definition apply_and_rollback ::
    "StorageWritesDeduplicator \<Rightarrow> StorageLogWithPreviousValue list
     \<Rightarrow> (DeduplicatedWritesMetrics \<times> StorageWritesDeduplicator) option" where
  "apply_and_rollback s logs =
     (let (s', updates) = process_storage_logs s logs; metrics = dedup_metrics s'
      in map_option (Pair metrics) (dedup_rollback s' updates))"

definition apply_on_empty_state :: "StorageLogWithPreviousValue list \<Rightarrow> DeduplicatedWritesMetrics" where
  "apply_on_empty_state logs = dedup_metrics (dedup_apply dedup_new logs)"

section \<open>Rollback\<close>

named_theorems dedup_simps \<open>unfolding the bookkeeping of the deduplicator\<close>

declare change_field_def [dedup_simps]

lemma rollback_item_initial_values:
  "rollback_item (s\<lparr>initial_values := i\<rparr>) u =
   map_option (\<lambda>s'. s'\<lparr>initial_values := i\<rparr>) (rollback_item s u)"
  by (simp add: rollback_item_def Let_def split: UpdateType.splits option.splits)

lemma rollback_items_initial_values:
  "rollback_items (s\<lparr>initial_values := i\<rparr>) us =
   map_option (\<lambda>s'. s'\<lparr>initial_values := i\<rparr>) (rollback_items s us)"
  by (induction us arbitrary: s) (auto simp: rollback_item_initial_values split: option.splits)

lemma rollback_items_append:
  "rollback_items s (us @ vs) =
   (case rollback_items s us of None \<Rightarrow> None | Some s' \<Rightarrow> rollback_items s' vs)"
  by (induction us arbitrary: s) (auto split: option.splits)

lemma record_write_rollback:
  assumes "record_write key v w init s = (s', us)"
  shows "rollback_items s' (rev us) = Some s" "initial_values s' = initial_values s"
  using assms
  by (auto simp: record_write_def rollback_item_def Let_def fmap_restore dedup_simps
      split: if_splits option.splits)

lemma process_storage_log_rollback:
  assumes "process_storage_log s l = (s', us)"
  shows "rollback_items s' (rev us) = Some (s\<lparr>initial_values := initial_values s'\<rparr>)"
  using assms record_write_rollback by (fastforce simp: process_storage_log_def Let_def)

lemma process_writes_rollback:
  "process_writes s ls = (s', us) \<Longrightarrow>
   rollback_items s' (rev us) = Some (s\<lparr>initial_values := initial_values s'\<rparr>)"
proof (induction ls arbitrary: s us)
  case (Cons l ls)
  obtain s1 us1 where one: "process_storage_log s l = (s1, us1)" by fastforce
  obtain us2 where rest: "process_writes s1 ls = (s', us2)" "us = us1 @ us2"
    using Cons.prems one by (auto split: prod.splits)
  have "rollback_items s' (rev us) = rollback_items (s1\<lparr>initial_values := initial_values s'\<rparr>) (rev us1)"
    using Cons.IH [OF rest(1)] rest(2) by (simp add: rollback_items_append)
  then show ?case
    using process_storage_log_rollback [OF one] by (simp add: rollback_items_initial_values)
qed simp

lemma initial_values_record_write [simp]:
  "initial_values (fst (record_write key v w init s)) = initial_values s"
  by (simp add: record_write_def Let_def split: option.splits)

lemma process_storage_log_initial_values:
  "fmlookup (initial_values s) k = Some v \<Longrightarrow>
   fmlookup (initial_values (fst (process_storage_log s l))) k = Some v"
  by (simp add: process_storage_log_def Let_def value_before_writes_def)

lemma fst_process_writes_Cons:
  "fst (process_writes s (l # ls)) = fst (process_writes (fst (process_storage_log s l)) ls)"
  by (simp add: split_beta)

lemma process_writes_initial_values:
  "fmlookup (initial_values s) k = Some v \<Longrightarrow>
   fmlookup (initial_values (fst (process_writes s ls))) k = Some v"
proof (induction ls arbitrary: s)
  case (Cons l ls)
  from Cons.IH [OF process_storage_log_initial_values [OF Cons.prems]]
  show ?case by (simp only: fst_process_writes_Cons)
qed simp

lemma record_write_initial_values_upd:
  "record_write key v w i (s\<lparr>initial_values := iv\<rparr>) =
     map_prod (\<lambda>s. s\<lparr>initial_values := iv\<rparr>) id (record_write key v w i s)"
  by (simp add: record_write_def Let_def split: option.split)

lemma process_storage_log_again:
  assumes "fmlookup iv (sl_key (prev_log l)) = Some (value_before_writes s l)"
  shows "fst (process_storage_log (s\<lparr>initial_values := iv\<rparr>) l) =
    (fst (process_storage_log s l))\<lparr>initial_values := iv\<rparr>"
proof -
  have "value_before_writes (s\<lparr>initial_values := iv\<rparr>) l = value_before_writes s l"
    using assms by (simp add: value_before_writes_def)
  then show ?thesis
    using assms by (simp add: process_storage_log_def Let_def fmupd_same record_write_initial_values_upd)
qed

lemma process_storage_log_remembers:
  "fmlookup (initial_values (fst (process_storage_log s l))) (sl_key (prev_log l)) = Some (value_before_writes s l)"
  by (simp add: process_storage_log_def Let_def)

text \<open>Processing the same logs once more, with the initial values of the first pass, has the same result.\<close>

lemma process_writes_again:
  assumes "\<And>k v. fmlookup (initial_values (fst (process_writes s ls))) k = Some v \<Longrightarrow> fmlookup iv k = Some v"
  shows "fst (process_writes (s\<lparr>initial_values := iv\<rparr>) ls) = (fst (process_writes s ls))\<lparr>initial_values := iv\<rparr>"
  using assms
proof (induction ls arbitrary: s)
  case (Cons l ls)
  let ?s = "fst (process_storage_log s l)"
  have final: "fst (process_writes s (l # ls)) = fst (process_writes ?s ls)"
    by (rule fst_process_writes_Cons)
  then have "fmlookup iv (sl_key (prev_log l)) = Some (value_before_writes s l)"
    using Cons.prems process_writes_initial_values [OF process_storage_log_remembers] by metis
  then have "fst (process_storage_log (s\<lparr>initial_values := iv\<rparr>) l) = ?s\<lparr>initial_values := iv\<rparr>"
    by (rule process_storage_log_again)
  moreover have "fst (process_writes (?s\<lparr>initial_values := iv\<rparr>) ls) = (fst (process_writes ?s ls))\<lparr>initial_values := iv\<rparr>"
    using Cons.prems by (intro Cons.IH) (simp only: final)
  ultimately show ?case by (simp only: fst_process_writes_Cons)
qed simp

lemma apply_and_rollback_state:
  assumes "apply_and_rollback s logs = Some (m, s')"
  shows "s' = s\<lparr>initial_values := initial_values (dedup_apply s logs)\<rparr>" "m = dedup_metrics (dedup_apply s logs)"
proof -
  obtain s1 us where s1: "process_storage_logs s logs = (s1, us)" by fastforce
  then have "rollback_items s1 (rev us) = Some (s\<lparr>initial_values := initial_values s1\<rparr>)"
    unfolding process_storage_logs_def by (rule process_writes_rollback)
  with assms s1 show "s' = s\<lparr>initial_values := initial_values (dedup_apply s logs)\<rparr>"
    "m = dedup_metrics (dedup_apply s logs)"
    by (auto simp: apply_and_rollback_def dedup_rollback_def dedup_apply_def)
qed

lemma apply_after_rollback:
  assumes "apply_and_rollback s logs = Some (m, s')"
  shows "dedup_metrics (dedup_apply s' logs) = m"
  using process_writes_again [of s "filter (\<lambda>l. sl_is_write (prev_log l)) logs" "initial_values (dedup_apply s logs)"]
  by (simp add: apply_and_rollback_state [OF assms] dedup_apply_def process_storage_logs_def)

section \<open>Net effect of a sequence of logs\<close>

text \<open>The reference: the writes to a key matter only through the value before the first of them and
  the value after the last.\<close>

definition writes_to :: "StorageKey \<Rightarrow> StorageLogWithPreviousValue list \<Rightarrow> StorageLogWithPreviousValue list" where
  "writes_to k logs = filter (\<lambda>l. sl_is_write (prev_log l) \<and> sl_key (prev_log l) = k) logs"

definition net_write :: "StorageLogWithPreviousValue list \<Rightarrow> StorageKey \<Rightarrow> (h256 \<times> h256) option" where
  "net_write logs k =
     (case writes_to k logs of
        [] \<Rightarrow> None
      | l # ls \<Rightarrow>
          (let before = previous_value l; after = sl_value (prev_log (last (l # ls)))
           in if before = after then None else Some (before, after)))"

definition consistent_kinds :: "StorageLogWithPreviousValue list \<Rightarrow> bool" where
  "consistent_kinds logs \<longleftrightarrow>
     (\<forall>l \<in> set logs. \<forall>l' \<in> set logs. sl_is_write (prev_log l) \<and> sl_is_write (prev_log l') \<and>
        sl_key (prev_log l) = sl_key (prev_log l') \<longrightarrow> sl_kind (prev_log l) = sl_kind (prev_log l'))"

definition written_initially :: "StorageLogWithPreviousValue list \<Rightarrow> StorageKey \<Rightarrow> bool" where
  "written_initially logs k \<longleftrightarrow>
     (\<exists>l \<in> set logs. sl_key (prev_log l) = k \<and> sl_kind (prev_log l) = InitialWrite)"

definition slot_sum :: "(StorageKey \<Rightarrow> ModifiedSlot \<Rightarrow> u64) \<Rightarrow> (StorageKey, ModifiedSlot) fmap \<Rightarrow> u64" where
  "slot_sum f m = (\<Sum>k \<in> fmdom' m. f k (the (fmlookup m k)))"

lemma slot_sum_drop:
  assumes "fmlookup m k = Some v"
  shows "slot_sum f (fmdrop k m) = slot_sum f m - f k v"
proof -
  have "k \<in> fmdom' m" using assms by (simp add: fmlookup_dom'_iff)
  then have "slot_sum f m = f k v + (\<Sum>x \<in> fmdom' m - {k}. f x (the (fmlookup m x)))"
    using assms by (simp add: slot_sum_def sum.remove)
  moreover have "(\<Sum>x \<in> fmdom' m - {k}. f x (the (fmlookup m x))) = slot_sum f (fmdrop k m)"
    unfolding slot_sum_def by (rule sum.cong) auto
  ultimately show ?thesis by simp
qed

lemma slot_sum_insert:
  assumes "fmlookup m k = None"
  shows "slot_sum f (fmupd k v m) = slot_sum f m + f k v"
  using slot_sum_drop [of "fmupd k v m" k v f] assms by (simp add: fmdrop_fmupd_same_none)

lemma slot_sum_update:
  assumes "fmlookup m k = Some old"
  shows "slot_sum f (fmupd k v m) = slot_sum f m - f k old + f k v"
proof -
  have "fmupd k v m = fmupd k v (fmdrop k m)" by (rule fmap_ext) auto
  then show ?thesis
    using slot_sum_insert [of "fmdrop k m" k f v] slot_sum_drop [OF assms, of f] by simp
qed

definition dedup_inv :: "(StorageKey \<Rightarrow> bool) \<Rightarrow> StorageWritesDeduplicator \<Rightarrow> bool" where
  "dedup_inv is_initial s \<longleftrightarrow>
     dedup_metrics s =
       \<lparr>initial_storage_writes = slot_sum (\<lambda>k _. of_bool (is_initial k)) (modified_key_values s),
        repeated_storage_writes = slot_sum (\<lambda>k _. of_bool (\<not> is_initial k)) (modified_key_values s),
        total_updated_values_size = slot_sum (\<lambda>_. slot_size) (modified_key_values s)\<rparr>"

lemma record_write_inv:
  assumes "dedup_inv is_initial s"
  shows "dedup_inv is_initial (fst (record_write key v w (is_initial key) s))"
  using assms
  by (auto simp: record_write_def Let_def dedup_inv_def dedup_simps slot_sum_drop slot_sum_insert
      slot_sum_update split: option.splits)

lemma process_storage_log_inv:
  assumes "dedup_inv is_initial s" "is_initial (sl_key (prev_log l)) = (sl_kind (prev_log l) = InitialWrite)"
  shows "dedup_inv is_initial (fst (process_storage_log s l))"
  unfolding process_storage_log_def Let_def assms(2) [symmetric]
  by (rule record_write_inv) (use assms(1) in \<open>simp add: dedup_inv_def\<close>)

lemma process_writes_snoc:
  "fst (process_writes s (ls @ [l])) = fst (process_storage_log (fst (process_writes s ls)) l)"
  by (induction ls arbitrary: s)
    (simp_all only: append_Nil append_Cons fst_process_writes_Cons process_writes.simps(1) fst_conv)

lemma process_writes_inv:
  assumes "dedup_inv is_initial s"
    "\<And>l. l \<in> set ls \<Longrightarrow> is_initial (sl_key (prev_log l)) = (sl_kind (prev_log l) = InitialWrite)"
  shows "dedup_inv is_initial (fst (process_writes s ls))"
  using assms(2)
  by (induction ls rule: rev_induct)
    (simp_all add: assms(1) process_writes_snoc process_storage_log_inv)

lemma record_write_lookup:
  "fmlookup (modified_key_values (fst (record_write key v w i s))) k =
   (if k = key then (if v = w then None else Some (modified_slot v w))
    else fmlookup (modified_key_values s) k)"
  by (auto simp: record_write_def Let_def split: option.splits)

definition value_before :: "StorageLogWithPreviousValue list \<Rightarrow> StorageKey \<Rightarrow> h256 option" where
  "value_before logs k = (case writes_to k logs of [] \<Rightarrow> None | l # _ \<Rightarrow> Some (previous_value l))"

lemma net_write_snoc:
  assumes "sl_is_write (prev_log l)"
  shows "net_write (logs @ [l]) k =
    (if k = sl_key (prev_log l)
     then (let b = (case value_before logs k of Some v \<Rightarrow> v | None \<Rightarrow> previous_value l)
           in if b = sl_value (prev_log l) then None else Some (b, sl_value (prev_log l)))
     else net_write logs k)"
    "value_before (logs @ [l]) k =
    (if k = sl_key (prev_log l)
     then Some (case value_before logs k of Some v \<Rightarrow> v | None \<Rightarrow> previous_value l)
     else value_before logs k)"
  using assms
  by (auto simp: net_write_def value_before_def writes_to_def Let_def split: list.splits)

lemma process_writes_net:
  assumes "\<forall>l \<in> set ls. sl_is_write (prev_log l)"
  shows "fmlookup (initial_values (fst (process_writes dedup_new ls))) k = value_before ls k \<and>
    fmlookup (modified_key_values (fst (process_writes dedup_new ls))) k =
      map_option (\<lambda>(b, a). modified_slot b a) (net_write ls k)"
  using assms
proof (induction ls arbitrary: k rule: rev_induct)
  case Nil
  show ?case by (simp add: dedup_new_def value_before_def net_write_def writes_to_def)
next
  case (snoc l ls)
  define st where "st = fst (process_writes dedup_new ls)"
  have init: "fmlookup (initial_values st) k = value_before ls k"
    and modi: "fmlookup (modified_key_values st) k = map_option (\<lambda>(b, a). modified_slot b a) (net_write ls k)" for k
    using snoc.IH snoc.prems by (simp_all add: st_def)
  have l: "sl_is_write (prev_log l)" using snoc.prems by simp
  show ?case
    unfolding process_writes_snoc st_def [symmetric] net_write_snoc [OF l]
    by (simp add: process_storage_log_def Let_def record_write_lookup value_before_writes_def init modi)
qed

lemma net_write_filter:
  "net_write (filter (\<lambda>l. sl_is_write (prev_log l)) logs) k = net_write logs k"
proof -
  have "writes_to k (filter (\<lambda>l. sl_is_write (prev_log l)) logs) = writes_to k logs"
    unfolding writes_to_def filter_filter by (rule filter_cong) auto
  then show ?thesis by (simp add: net_write_def)
qed

lemma dedup_apply_net:
  "fmlookup (modified_key_values (dedup_apply dedup_new logs)) k =
   map_option (\<lambda>(b, a). modified_slot b a) (net_write logs k)"
  using process_writes_net [of "filter (\<lambda>l. sl_is_write (prev_log l)) logs" k]
  by (simp add: dedup_apply_def process_storage_logs_def net_write_filter)

lemma dedup_apply_dom:
  "fmdom' (modified_key_values (dedup_apply dedup_new logs)) = {k. net_write logs k \<noteq> None}"
  by (auto simp: fmlookup_dom'_iff dedup_apply_net)

lemma dedup_apply_inv:
  assumes "consistent_kinds logs"
  shows "dedup_inv (written_initially logs) (dedup_apply dedup_new logs)"
proof -
  have "dedup_inv (written_initially logs) dedup_new"
    by (simp add: dedup_inv_def dedup_new_def slot_sum_def)
  moreover have "written_initially logs (sl_key (prev_log l)) = (sl_kind (prev_log l) = InitialWrite)"
    if "l \<in> set logs" "sl_is_write (prev_log l)" for l
    using assms that unfolding consistent_kinds_def written_initially_def sl_is_write_def
    by (metis StorageLogKind.distinct(1))
  ultimately show ?thesis
    unfolding dedup_apply_def process_storage_logs_def by (intro process_writes_inv) auto
qed

lemma slot_sum_of_bool:
  "slot_sum (\<lambda>k _. of_bool (P k)) m = of_nat (card {k \<in> fmdom' m. P k})"
  by (simp add: slot_sum_def Int_def)

abbreviation net_write_size :: "StorageLogWithPreviousValue list \<Rightarrow> StorageKey \<Rightarrow> nat" where
  "net_write_size logs k \<equiv>
     length (compress_with_best_strategy (fst (the (net_write logs k))) (snd (the (net_write logs k))))"

lemma apply_on_empty_state_net:
  assumes "consistent_kinds logs"
  shows "apply_on_empty_state logs =
    \<lparr>initial_storage_writes =
       of_nat (card {k. net_write logs k \<noteq> None \<and> written_initially logs k}),
     repeated_storage_writes =
       of_nat (card {k. net_write logs k \<noteq> None \<and> \<not> written_initially logs k}),
     total_updated_values_size =
       (\<Sum>k | net_write logs k \<noteq> None. of_nat (net_write_size logs k))\<rparr>"
proof -
  let ?m = "modified_key_values (dedup_apply dedup_new logs)"
  have "slot_sum (\<lambda>_. slot_size) ?m = (\<Sum>k | net_write logs k \<noteq> None. of_nat (net_write_size logs k))"
    unfolding slot_sum_def dedup_apply_dom
    by (rule sum.cong) (auto simp: dedup_apply_net modified_slot_def)
  then show ?thesis
    using dedup_apply_inv [OF assms]
    by (simp add: apply_on_empty_state_def dedup_inv_def slot_sum_of_bool dedup_apply_dom)
qed

section \<open>The size of the compressed state diffs\<close>

definition diff_storage_key :: "StateDiffRecord \<Rightarrow> StorageKey" where
  "diff_storage_key d = \<lparr>key_account = diff_address d, key_slot = u256_to_h256 (diff_key d)\<rparr>"

abbreviation diff_size :: "StateDiffRecord \<Rightarrow> nat" where
  "diff_size d \<equiv>
     (if is_write_initial d then 32 else 4)
       + length (compress_with_best_strategy (State_Diffs.initial_value d) (final_value d))"

lemma length_compress_all:
  "compress_all ds = Some bs \<Longrightarrow> length bs = (\<Sum>d \<leftarrow> ds. diff_size d)"
proof (induction ds arbitrary: bs)
  case (Cons d ds)
  from Cons.prems obtain b c where bc: "compress_diff d = Some b" "compress_all ds = Some c" "bs = b @ c"
    by (auto split: option.splits)
  with Cons.IH [OF bc(2)] compress_diff_Some [OF bc(1)] show ?case
    by (simp add: length_diff_key_bytes)
qed simp

lemma sum_list_filter_partition:
  "(\<Sum>x \<leftarrow> filter P xs. f x) + (\<Sum>x \<leftarrow> filter (\<lambda>x. \<not> P x) xs. f x) = (\<Sum>x \<leftarrow> xs. f x :: nat)"
  by (induction xs) auto

lemma sum_list_insort_key: "(\<Sum>y \<leftarrow> insort_key k x xs. f y :: nat) = f x + (\<Sum>y \<leftarrow> xs. f y)"
  by (induction xs) auto

lemma sum_list_sort_diffs: "(\<Sum>d \<leftarrow> sort_diffs ds. f d :: nat) = (\<Sum>d \<leftarrow> ds. f d)"
  by (induction ds) (simp_all add: sort_diffs_def sum_list_insort_key)

lemma length_compress_state_diffs:
  assumes "compress_state_diffs ds = Some bs"
  shows "length bs = 7 + (\<Sum>d \<leftarrow> ds. diff_size d)"
proof -
  obtain iws rws where
    iws: "compress_all (filter is_write_initial (sort_diffs ds)) = Some iws"
    and rws: "compress_all (filter (\<lambda>d. \<not> is_write_initial d) (sort_diffs ds)) = Some rws"
    and bs: "bs = prepend_header
       (word_be (of_nat (length (filter is_write_initial (sort_diffs ds))) :: u16) @ iws @ rws)"
    using assms by (rule compress_state_diffs_Some)
  have "length bs = 7 + (length iws + length rws)" unfolding bs slice_header_length by simp
  also have "length iws + length rws = (\<Sum>d \<leftarrow> sort_diffs ds. diff_size d)"
    unfolding length_compress_all [OF iws] length_compress_all [OF rws]
    by (rule sum_list_filter_partition)
  finally show ?thesis by (simp only: sum_list_sort_diffs)
qed

lemma sum_key_sizes:
  assumes "finite K"
  shows "(\<Sum>k \<in> K. of_nat ((if P k then 32 else 4) + f k) :: u64) =
    (\<Sum>k \<in> K. of_nat (f k)) + 32 * of_nat (card {k \<in> K. P k}) + 4 * of_nat (card {k \<in> K. \<not> P k})"
proof -
  have "(\<Sum>k \<in> K. of_nat (if P k then 32 else 4) :: u64) =
      (\<Sum>k \<in> K. 32 * of_bool (P k) + 4 * of_bool (\<not> P k))"
    by (rule sum.cong) auto
  also have "\<dots> = 32 * of_nat (card {k \<in> K. P k}) + 4 * of_nat (card {k \<in> K. \<not> P k})"
    using assms by (simp add: sum.distrib Int_def flip: sum_distrib_left)
  finally show ?thesis by (simp add: sum.distrib)
qed

section \<open>Properties\<close>


text \<open>C18. The incremental metrics count the net effect: when all writes to a key have the same kind, the
  metrics of a sequence of logs are the number of initially written keys and of repeatedly written
  keys whose final value differs from the one before the first write, and the sum of the compressed
  sizes of those changes, however the writes were ordered and repeated.\<close>
theorem metrics_count_net_writes:
  assumes "consistent_kinds logs"
  shows "initial_storage_writes (apply_on_empty_state logs) =
      of_nat (card {k. net_write logs k \<noteq> None \<and> written_initially logs k}) \<and>
    repeated_storage_writes (apply_on_empty_state logs) =
      of_nat (card {k. net_write logs k \<noteq> None \<and> \<not> written_initially logs k}) \<and>
    total_updated_values_size (apply_on_empty_state logs) =
      (\<Sum>k | net_write logs k \<noteq> None. of_nat (net_write_size logs k))"
  by (simp add: apply_on_empty_state_net [OF assms])

abbreviation sample_write :: "StorageLogKind \<Rightarrow> h256 \<Rightarrow> h256 \<Rightarrow> h256 \<Rightarrow> StorageLogWithPreviousValue" where
  "sample_write kind slot before after \<equiv>
     \<lparr>prev_log = \<lparr>sl_kind = kind, sl_key = \<lparr>key_account = 1, key_slot = slot\<rparr>, sl_value = after\<rparr>,
      previous_value = before\<rparr>"

abbreviation sample_writes :: "StorageLogWithPreviousValue list" where
  "sample_writes \<equiv>
     [sample_write RepeatedWrite 1 5 7, sample_write InitialWrite 2 0 9, sample_write RepeatedWrite 1 7 5]"

theorem metrics_count_net_writes_witness:
  "consistent_kinds sample_writes \<and>
   initial_storage_writes (apply_on_empty_state sample_writes) =
      of_nat (card {k. net_write sample_writes k \<noteq> None \<and> written_initially sample_writes k}) \<and>
   net_write sample_writes \<lparr>key_account = 1, key_slot = 1\<rparr> = None \<and>
   net_write sample_writes \<lparr>key_account = 1, key_slot = 2\<rparr> = Some (0, 9)"
proof -
  have c: "consistent_kinds sample_writes" by (simp add: consistent_kinds_def sl_is_write_def)
  show ?thesis
    using metrics_count_net_writes [OF c] c by (simp add: net_write_def writes_to_def sl_is_write_def)
qed

end
