(* ===== verification/Storage_View.thy ===== *)
theory Storage_View
  imports Storage_Logs
begin

text \<open>
  The storage that the virtual machine reads and writes
  (\<^verbatim>\<open>core/lib/vm_interface/src/storage\<close>): the write buffer with its caches (\<^verbatim>\<open>view.rs\<close>), the
  view of it that ignores the writes, and the in-memory storage (\<^verbatim>\<open>in_memory.rs\<close>). The storage
  below a view answers every question in the same way during the life of the view: it is a record of
  functions, \<open>storage_handle\<close>, and the in-memory storage is one. Time measurements are left out of
  the metrics. The locale \<open>write_storage\<close> is the contract that the oracles of the virtual machine
  rely on; it is interpreted on the view.
\<close>

section \<open>Storage keys\<close>

text \<open>The hash of a storage key; \<open>digest\<close> is BLAKE2s.\<close>

definition raw_hashed_key :: "(u8 list \<Rightarrow> h256) \<Rightarrow> address \<Rightarrow> h256 \<Rightarrow> h256" where
  "raw_hashed_key digest a k = digest (replicate 12 0 @ word_be a @ word_be (h256_to_u256 k))"

abbreviation (input) hashed_key :: "(u8 list \<Rightarrow> h256) \<Rightarrow> StorageKey \<Rightarrow> h256" where
  "hashed_key digest k \<equiv> raw_hashed_key digest (key_account k) (key_slot k)"

abbreviation (input) hashed_key_u256 :: "(u8 list \<Rightarrow> h256) \<Rightarrow> StorageKey \<Rightarrow> u256" where
  "hashed_key_u256 digest k \<equiv>
     word_from_be (rev (word_be (raw_hashed_key digest (key_account k) (key_slot k))))"

abbreviation (input) NONCE_HOLDER_ADDRESS :: address where
  "NONCE_HOLDER_ADDRESS \<equiv> 0x8003"

abbreviation (input) ACCOUNT_CODE_STORAGE_ADDRESS :: address where
  "ACCOUNT_CODE_STORAGE_ADDRESS \<equiv> 0x8002"

abbreviation (input) KNOWN_CODES_STORAGE_ADDRESS :: address where
  "KNOWN_CODES_STORAGE_ADDRESS \<equiv> 0x8004"

abbreviation (input) CONTRACT_DEPLOYER_ADDRESS :: address where
  "CONTRACT_DEPLOYER_ADDRESS \<equiv> 0x8006"

abbreviation (input) SYSTEM_CONTEXT_ADDRESS :: address where
  "SYSTEM_CONTEXT_ADDRESS \<equiv> 0x800b"

abbreviation (input) BOOTLOADER_ADDRESS :: address where
  "BOOTLOADER_ADDRESS \<equiv> 0x8001"

definition get_address_mapping_key :: "(u8 list \<Rightarrow> h256) \<Rightarrow> address \<Rightarrow> h256 \<Rightarrow> h256" where
  "get_address_mapping_key keccak256 a position =
     keccak256 (word_be (address_to_h256 a) @ word_be position)"

definition get_nonce_key :: "(u8 list \<Rightarrow> h256) \<Rightarrow> address \<Rightarrow> StorageKey" where
  "get_nonce_key keccak256 account =
     \<lparr>key_account = NONCE_HOLDER_ADDRESS, key_slot = get_address_mapping_key keccak256 account 0\<rparr>"

definition get_code_key :: "address \<Rightarrow> StorageKey" where
  "get_code_key account =
     \<lparr>key_account = ACCOUNT_CODE_STORAGE_ADDRESS, key_slot = address_to_h256 account\<rparr>"

definition get_known_code_key :: "h256 \<Rightarrow> StorageKey" where
  "get_known_code_key hash = \<lparr>key_account = KNOWN_CODES_STORAGE_ADDRESS, key_slot = hash\<rparr>"

definition get_system_context_key :: "h256 \<Rightarrow> StorageKey" where
  "get_system_context_key key = \<lparr>key_account = SYSTEM_CONTEXT_ADDRESS, key_slot = key\<rparr>"

definition get_is_account_key :: "(u8 list \<Rightarrow> h256) \<Rightarrow> address \<Rightarrow> StorageKey" where
  "get_is_account_key keccak256 account =
     \<lparr>key_account = CONTRACT_DEPLOYER_ADDRESS, key_slot = get_address_mapping_key keccak256 account 0\<rparr>"

abbreviation (input) SYSTEM_CONTEXT_CHAIN_ID_POSITION :: h256 where
  "SYSTEM_CONTEXT_CHAIN_ID_POSITION \<equiv> 0"

abbreviation (input) SYSTEM_CONTEXT_BLOCK_GAS_LIMIT_POSITION :: h256 where
  "SYSTEM_CONTEXT_BLOCK_GAS_LIMIT_POSITION \<equiv> 3"

abbreviation (input) SYSTEM_CONTEXT_BLOCK_GAS_LIMIT :: h256 where
  "SYSTEM_CONTEXT_BLOCK_GAS_LIMIT \<equiv> 0x04000000000000"

abbreviation (input) SYSTEM_CONTEXT_COINBASE_POSITION :: h256 where
  "SYSTEM_CONTEXT_COINBASE_POSITION \<equiv> 4"

abbreviation (input) SYSTEM_CONTEXT_DIFFICULTY_POSITION :: h256 where
  "SYSTEM_CONTEXT_DIFFICULTY_POSITION \<equiv> 5"

abbreviation (input) SYSTEM_CONTEXT_DIFFICULTY :: h256 where
  "SYSTEM_CONTEXT_DIFFICULTY \<equiv> 0x08E1BC9BF04000"

definition get_system_context_init_logs :: "u64 \<Rightarrow> StorageLog list" where
  "get_system_context_init_logs chain_id =
     [new_write_log (get_system_context_key SYSTEM_CONTEXT_CHAIN_ID_POSITION) (ucast chain_id),
      new_write_log (get_system_context_key SYSTEM_CONTEXT_BLOCK_GAS_LIMIT_POSITION)
        SYSTEM_CONTEXT_BLOCK_GAS_LIMIT,
      new_write_log (get_system_context_key SYSTEM_CONTEXT_COINBASE_POSITION)
        (address_to_h256 BOOTLOADER_ADDRESS),
      new_write_log (get_system_context_key SYSTEM_CONTEXT_DIFFICULTY_POSITION)
        SYSTEM_CONTEXT_DIFFICULTY]"

record storage_handle =
  handle_value :: "StorageKey \<Rightarrow> h256"
  handle_initial :: "StorageKey \<Rightarrow> bool"
  handle_factory_dep :: "h256 \<Rightarrow> u8 list option"
  handle_index :: "StorageKey \<Rightarrow> u64 option"

section \<open>In-memory storage (in_memory.rs)\<close>

record InMemoryStorage =
  mem_state :: "(h256, h256 \<times> u64) fmap"
  factory_deps :: "(h256, u8 list) fmap"
  last_enum_index_set :: u64

definition in_memory_default :: InMemoryStorage where
  "in_memory_default = \<lparr>mem_state = fmempty, factory_deps = fmempty, last_enum_index_set = 0\<rparr>"

text \<open>A storage with the given contracts (addresses and bytecodes): \<open>BTreeMap\<close> orders the keys, a later
  log for a key replaces an earlier one, and the indices follow the order of the keys.\<close>

definition genesis_logs :: "u64 \<Rightarrow> (u8 list \<Rightarrow> h256) \<Rightarrow> (address \<times> u8 list) list \<Rightarrow> StorageLog list" where
  "genesis_logs chain_id bytecode_hasher contracts =
     concat (map (\<lambda>(account_id, bytecode).
         [new_write_log (get_code_key account_id) (bytecode_hasher bytecode),
          new_write_log (get_known_code_key (bytecode_hasher bytecode)) 1]) contracts)
     @ get_system_context_init_logs chain_id"

definition btree_entries :: "(StorageKey \<times> h256) list \<Rightarrow> (StorageKey \<times> h256) list" where
  "btree_entries kvs =
     map (\<lambda>k. (k, the (map_of (rev kvs) k)))
       (sort_key (\<lambda>k. (key_account k, key_slot k)) (remdups (map fst kvs)))"

definition with_custom_system_contracts_and_chain_id ::
    "(u8 list \<Rightarrow> h256) \<Rightarrow> u64 \<Rightarrow> (u8 list \<Rightarrow> h256) \<Rightarrow> (address \<times> u8 list) list \<Rightarrow> InMemoryStorage" where
  "with_custom_system_contracts_and_chain_id digest chain_id bytecode_hasher contracts =
     (let logs = filter sl_is_write (genesis_logs chain_id bytecode_hasher contracts);
          state_without_indices = btree_entries (map (\<lambda>l. (sl_key l, sl_value l)) logs);
          state = fold (\<lambda>(idx, (k, v)). fmupd (hashed_key digest k) (v, of_nat idx + 1))
                    (zip [0..<length state_without_indices] state_without_indices) fmempty
      in \<lparr>mem_state = state,
          factory_deps = fold (\<lambda>(_, bytecode). fmupd (bytecode_hasher bytecode) bytecode) contracts fmempty,
          last_enum_index_set = of_nat (fmlen state)\<rparr>)"

definition set_value_hashed_enum :: "h256 \<Rightarrow> u64 \<Rightarrow> h256 \<Rightarrow> InMemoryStorage \<Rightarrow> InMemoryStorage" where
  "set_value_hashed_enum key enum_index_set v s =
     (case fmlookup (mem_state s) key of
        Some (_, i) \<Rightarrow> s\<lparr>mem_state := fmupd key (v, i) (mem_state s)\<rparr>
      | None \<Rightarrow> s\<lparr>mem_state := fmupd key (v, enum_index_set) (mem_state s)\<rparr>)"

definition in_memory_set_value ::
    "(u8 list \<Rightarrow> h256) \<Rightarrow> StorageKey \<Rightarrow> h256 \<Rightarrow> InMemoryStorage \<Rightarrow> InMemoryStorage" where
  "in_memory_set_value digest key v s =
     (case fmlookup (mem_state s) (hashed_key digest key) of
        Some (_, i) \<Rightarrow> s\<lparr>mem_state := fmupd (hashed_key digest key) (v, i) (mem_state s)\<rparr>
      | None \<Rightarrow>
          (let i = last_enum_index_set s + 1
           in s\<lparr>last_enum_index_set := i,
                mem_state := fmupd (hashed_key digest key) (v, i) (mem_state s)\<rparr>))"

definition store_factory_dep :: "h256 \<Rightarrow> u8 list \<Rightarrow> InMemoryStorage \<Rightarrow> InMemoryStorage" where
  "store_factory_dep hash bytecode s = s\<lparr>factory_deps := fmupd hash bytecode (factory_deps s)\<rparr>"

definition in_memory_read_value :: "(u8 list \<Rightarrow> h256) \<Rightarrow> InMemoryStorage \<Rightarrow> StorageKey \<Rightarrow> h256" where
  "in_memory_read_value digest s key =
     (case fmlookup (mem_state s) (hashed_key digest key) of Some (v, _) \<Rightarrow> v | None \<Rightarrow> 0)"

definition in_memory_is_write_initial :: "(u8 list \<Rightarrow> h256) \<Rightarrow> InMemoryStorage \<Rightarrow> StorageKey \<Rightarrow> bool" where
  "in_memory_is_write_initial digest s key \<longleftrightarrow> fmlookup (mem_state s) (hashed_key digest key) = None"

definition in_memory_load_factory_dep :: "InMemoryStorage \<Rightarrow> h256 \<Rightarrow> u8 list option" where
  "in_memory_load_factory_dep s hash = fmlookup (factory_deps s) hash"

definition in_memory_enumeration_index ::
    "(u8 list \<Rightarrow> h256) \<Rightarrow> InMemoryStorage \<Rightarrow> StorageKey \<Rightarrow> u64 option" where
  "in_memory_enumeration_index digest s key =
     map_option snd (fmlookup (mem_state s) (hashed_key digest key))"

definition in_memory_handle :: "(u8 list \<Rightarrow> h256) \<Rightarrow> InMemoryStorage \<Rightarrow> storage_handle" where
  "in_memory_handle digest s =
     \<lparr>handle_value = in_memory_read_value digest s,
      handle_initial = in_memory_is_write_initial digest s,
      handle_factory_dep = in_memory_load_factory_dep s,
      handle_index = in_memory_enumeration_index digest s\<rparr>"

section \<open>The storage view (view.rs)\<close>

record StorageViewMetrics =
  cache_bytes :: nat
  storage_invocations_missed :: nat
  get_value_storage_invocations :: nat
  set_value_storage_invocations :: nat

record StorageViewCache =
  read_storage_keys :: "(StorageKey, h256) fmap"
  initial_writes :: "(StorageKey, bool) fmap"

record StorageView =
  view_handle :: storage_handle
  modified_storage_keys :: "(StorageKey, h256) fmap"
  view_cache :: StorageViewCache
  view_metrics :: StorageViewMetrics

definition view_new :: "storage_handle \<Rightarrow> StorageView" where
  "view_new h =
     \<lparr>view_handle = h, modified_storage_keys = fmempty,
      view_cache = \<lparr>read_storage_keys = fmempty, initial_writes = fmempty\<rparr>,
      view_metrics = \<lparr>cache_bytes = 0, storage_invocations_missed = 0,
                      get_value_storage_invocations = 0, set_value_storage_invocations = 0\<rparr>\<rparr>"

text \<open>The answer for a key that is in none of the maps: read below, remember, count the miss.\<close>

definition read_missed :: "StorageKey \<Rightarrow> StorageView \<Rightarrow> h256 \<times> StorageView" where
  "read_missed key s =
     (let v = handle_value (view_handle s) key; c = view_cache s; m = view_metrics s
      in (v, s\<lparr>view_cache := c\<lparr>read_storage_keys := fmupd key v (read_storage_keys c)\<rparr>,
               view_metrics := m\<lparr>storage_invocations_missed := storage_invocations_missed m + 1\<rparr>\<rparr>))"

definition get_value_no_log :: "StorageKey \<Rightarrow> StorageView \<Rightarrow> h256 \<times> StorageView" where
  "get_value_no_log key s =
     (case fmlookup (modified_storage_keys s) key of
        Some v \<Rightarrow> (v, s)
      | None \<Rightarrow>
          (case fmlookup (read_storage_keys (view_cache s)) key of
             Some v \<Rightarrow> (v, s)
           | None \<Rightarrow> read_missed key s))"

text \<open>The sizes of the map entries in memory, \<open>kv\<close> for a key and a value and \<open>kb\<close> for a key and a
  flag, are those the compiler chooses.\<close>

definition cache_size :: "nat \<Rightarrow> nat \<Rightarrow> StorageView \<Rightarrow> nat" where
  "cache_size kv kb s =
     fmlen (modified_storage_keys s) * kv + fmlen (initial_writes (view_cache s)) * kb
       + fmlen (read_storage_keys (view_cache s)) * kv"

definition view_get_metrics :: "nat \<Rightarrow> nat \<Rightarrow> StorageView \<Rightarrow> StorageViewMetrics" where
  "view_get_metrics kv kb s = (view_metrics s)\<lparr>cache_bytes := cache_size kv kb s\<rparr>"

definition view_read_value :: "StorageKey \<Rightarrow> StorageView \<Rightarrow> h256 \<times> StorageView" where
  "view_read_value key s =
     (let m = view_metrics s
      in get_value_no_log key
           (s\<lparr>view_metrics := m\<lparr>get_value_storage_invocations := get_value_storage_invocations m + 1\<rparr>\<rparr>))"

definition view_is_write_initial :: "StorageKey \<Rightarrow> StorageView \<Rightarrow> bool \<times> StorageView" where
  "view_is_write_initial key s =
     (case fmlookup (initial_writes (view_cache s)) key of
        Some b \<Rightarrow> (b, s)
      | None \<Rightarrow>
          (let b = handle_initial (view_handle s) key; c = view_cache s
           in (b, s\<lparr>view_cache := c\<lparr>initial_writes := fmupd key b (initial_writes c)\<rparr>\<rparr>)))"

abbreviation (input) view_load_factory_dep :: "h256 \<Rightarrow> StorageView \<Rightarrow> u8 list option" where
  "view_load_factory_dep hash s \<equiv> handle_factory_dep (view_handle s) hash"

abbreviation (input) view_enumeration_index :: "StorageKey \<Rightarrow> StorageView \<Rightarrow> u64 option" where
  "view_enumeration_index key s \<equiv> handle_index (view_handle s) key"

definition view_set_value :: "StorageKey \<Rightarrow> h256 \<Rightarrow> StorageView \<Rightarrow> h256 \<times> StorageView" where
  "view_set_value key v s =
     (let m = view_metrics s;
          (original, s) = get_value_no_log key
            (s\<lparr>view_metrics := m\<lparr>set_value_storage_invocations := set_value_storage_invocations m + 1\<rparr>\<rparr>)
      in (original, s\<lparr>modified_storage_keys := fmupd key v (modified_storage_keys s)\<rparr>))"

definition missed_storage_invocations :: "StorageView \<Rightarrow> nat" where
  "missed_storage_invocations s = storage_invocations_missed (view_metrics s)"

text \<open>The immutable view reads the same cache but not the writes.\<close>

definition immutable_read_value :: "StorageKey \<Rightarrow> StorageView \<Rightarrow> h256 \<times> StorageView" where
  "immutable_read_value key s =
     (case fmlookup (read_storage_keys (view_cache s)) key of
        Some v \<Rightarrow> (v, s)
      | None \<Rightarrow> read_missed key s)"

definition is_bytecode_known :: "h256 \<Rightarrow> StorageView \<Rightarrow> bool \<times> StorageView" where
  "is_bytecode_known bytecode_hash s =
     (let (v, s) = view_read_value (get_known_code_key bytecode_hash) s in (v \<noteq> 0, s))"

section \<open>The contract of a write storage\<close>

text \<open>A client sees a function from keys to values: reading returns its value and does not change it,
  writing returns the previous value and overrides one key.\<close>

locale write_storage =
  fixes read_value :: "StorageKey \<Rightarrow> 's \<Rightarrow> h256 \<times> 's"
    and set_value :: "StorageKey \<Rightarrow> h256 \<Rightarrow> 's \<Rightarrow> h256 \<times> 's"
    and contents :: "'s \<Rightarrow> StorageKey \<Rightarrow> h256"
    and wf :: "'s \<Rightarrow> bool"
  assumes read_returns: "wf s \<Longrightarrow> fst (read_value k s) = contents s k"
    and read_contents: "wf s \<Longrightarrow> contents (snd (read_value k s)) = contents s"
    and read_wf: "wf s \<Longrightarrow> wf (snd (read_value k s))"
    and set_returns: "wf s \<Longrightarrow> fst (set_value k v s) = contents s k"
    and set_contents: "wf s \<Longrightarrow> contents (snd (set_value k v s)) = (contents s)(k := v)"
    and set_wf: "wf s \<Longrightarrow> wf (snd (set_value k v s))"
begin

lemma read_after_set:
  assumes "wf s"
  shows "fst (read_value k (snd (set_value k' v s))) = (if k = k' then v else contents s k)"
  using assms by (simp add: read_returns set_wf set_contents)

lemma set_twice:
  assumes "wf s"
  shows "contents (snd (set_value k (fst (set_value k v s)) (snd (set_value k v s)))) = contents s"
  using assms by (simp add: set_returns set_contents set_wf)

end

definition view_contents :: "StorageView \<Rightarrow> StorageKey \<Rightarrow> h256" where
  "view_contents s k =
     (case fmlookup (modified_storage_keys s) k of
        Some v \<Rightarrow> v | None \<Rightarrow> handle_value (view_handle s) k)"

text \<open>The caches hold answers of the storage below, and every miss has cached a new key.\<close>

definition view_wf :: "StorageView \<Rightarrow> bool" where
  "view_wf s \<longleftrightarrow>
     (\<forall>k v. fmlookup (read_storage_keys (view_cache s)) k = Some v \<longrightarrow> v = handle_value (view_handle s) k) \<and>
     (\<forall>k b. fmlookup (initial_writes (view_cache s)) k = Some b \<longrightarrow> b = handle_initial (view_handle s) k) \<and>
     fmdom' (modified_storage_keys s) \<subseteq> fmdom' (read_storage_keys (view_cache s)) \<and>
     storage_invocations_missed (view_metrics s) = fmlen (read_storage_keys (view_cache s))"

lemma view_wf_new [simp]: "view_wf (view_new h)"
  by (simp add: view_wf_def view_new_def)

lemma read_missed_props:
  assumes "view_wf s" "fmlookup (read_storage_keys (view_cache s)) k = None"
  shows "fst (read_missed k s) = handle_value (view_handle s) k"
    "view_handle (snd (read_missed k s)) = view_handle s"
    "modified_storage_keys (snd (read_missed k s)) = modified_storage_keys s"
    "view_wf (snd (read_missed k s))"
    "fmdom' (read_storage_keys (view_cache (snd (read_missed k s)))) =
       insert k (fmdom' (read_storage_keys (view_cache s)))"
  using assms by (auto simp: read_missed_def Let_def view_wf_def fmlen_upd)

lemma get_value_no_log_props:
  assumes "view_wf s"
  shows "fst (get_value_no_log k s) = view_contents s k"
    "view_handle (snd (get_value_no_log k s)) = view_handle s"
    "modified_storage_keys (snd (get_value_no_log k s)) = modified_storage_keys s"
    "view_wf (snd (get_value_no_log k s))"
    "k \<in> fmdom' (read_storage_keys (view_cache (snd (get_value_no_log k s))))"
proof -
  show "fst (get_value_no_log k s) = view_contents s k"
    "view_handle (snd (get_value_no_log k s)) = view_handle s"
    "modified_storage_keys (snd (get_value_no_log k s)) = modified_storage_keys s"
    using assms read_missed_props [OF assms, of k]
    by (auto simp: get_value_no_log_def view_contents_def view_wf_def split: option.splits)
  show "view_wf (snd (get_value_no_log k s))"
    using assms read_missed_props(4) [OF assms, of k] by (auto simp: get_value_no_log_def split: option.splits)
  have "fmdom' (modified_storage_keys s) \<subseteq> fmdom' (read_storage_keys (view_cache s))"
    using assms by (simp add: view_wf_def)
  then show "k \<in> fmdom' (read_storage_keys (view_cache (snd (get_value_no_log k s))))"
    using read_missed_props(5) [OF assms, of k]
    by (auto simp: get_value_no_log_def split: option.splits intro: fmdom'I)
qed

lemma view_wf_metrics [simp]:
  "view_wf (s\<lparr>view_metrics := (view_metrics s)\<lparr>get_value_storage_invocations := n\<rparr>\<rparr>) = view_wf s"
  "view_wf (s\<lparr>view_metrics := (view_metrics s)\<lparr>set_value_storage_invocations := n\<rparr>\<rparr>) = view_wf s"
  by (simp_all add: view_wf_def)

lemma view_contents_cong:
  "view_handle s = view_handle t \<Longrightarrow> modified_storage_keys s = modified_storage_keys t \<Longrightarrow>
   view_contents s = view_contents t"
  by (simp add: view_contents_def fun_eq_iff cong: option.case_cong)

lemma view_contents_metrics [simp]: "view_contents (s\<lparr>view_metrics := m\<rparr>) = view_contents s"
  by (rule view_contents_cong) simp_all

lemma view_read_value_props:
  assumes "view_wf s"
  shows "fst (view_read_value k s) = view_contents s k"
    "view_handle (snd (view_read_value k s)) = view_handle s"
    "view_contents (snd (view_read_value k s)) = view_contents s"
    "view_wf (snd (view_read_value k s))"
proof -
  define s1 where "s1 = s\<lparr>view_metrics := (view_metrics s)\<lparr>get_value_storage_invocations :=
    get_value_storage_invocations (view_metrics s) + 1\<rparr>\<rparr>"
  have s1: "view_wf s1" "view_contents s1 = view_contents s" "view_handle s1 = view_handle s"
    "modified_storage_keys s1 = modified_storage_keys s"
    using assms by (simp_all add: s1_def)
  have eq: "view_read_value k s = get_value_no_log k s1" by (simp add: view_read_value_def Let_def s1_def)
  note g = get_value_no_log_props [OF s1(1), of k]
  show "fst (view_read_value k s) = view_contents s k"
    "view_handle (snd (view_read_value k s)) = view_handle s"
    "view_wf (snd (view_read_value k s))"
    using g s1 by (simp_all add: eq)
  show "view_contents (snd (view_read_value k s)) = view_contents s"
    unfolding eq by (rule view_contents_cong) (use g s1 in simp_all)
qed

lemma view_set_value_props:
  assumes "view_wf s"
  shows "fst (view_set_value k v s) = view_contents s k"
    "view_handle (snd (view_set_value k v s)) = view_handle s"
    "view_contents (snd (view_set_value k v s)) = (view_contents s)(k := v)"
    "view_wf (snd (view_set_value k v s))"
proof -
  define s1 where "s1 = s\<lparr>view_metrics := (view_metrics s)\<lparr>set_value_storage_invocations :=
    set_value_storage_invocations (view_metrics s) + 1\<rparr>\<rparr>"
  have s1: "view_wf s1" "view_contents s1 = view_contents s" "view_handle s1 = view_handle s"
    "modified_storage_keys s1 = modified_storage_keys s"
    using assms by (simp_all add: s1_def)
  note g = get_value_no_log_props [OF s1(1), of k]
  have eq: "view_set_value k v s =
    (fst (get_value_no_log k s1),
     (snd (get_value_no_log k s1))\<lparr>modified_storage_keys :=
        fmupd k v (modified_storage_keys (snd (get_value_no_log k s1)))\<rparr>)"
    by (simp add: view_set_value_def Let_def s1_def split_beta)
  show "fst (view_set_value k v s) = view_contents s k"
    "view_handle (snd (view_set_value k v s)) = view_handle s"
    using g s1 by (simp_all add: eq)
  have "view_contents (snd (view_set_value k v s)) = (view_contents (snd (get_value_no_log k s1)))(k := v)"
    by (simp add: eq view_contents_def fun_eq_iff cong: option.case_cong)
  also have "view_contents (snd (get_value_no_log k s1)) = view_contents s"
    by (rule view_contents_cong) (use g s1 in simp_all)
  finally show "view_contents (snd (view_set_value k v s)) = (view_contents s)(k := v)" .
  show "view_wf (snd (view_set_value k v s))"
    using g(4, 5) by (auto simp: eq view_wf_def)
qed

interpretation view: write_storage view_read_value view_set_value view_contents view_wf
  by unfold_locales (simp_all add: view_read_value_props view_set_value_props)

section \<open>Refinement of an overlay\<close>

text \<open>The abstract storage: the values below, and the values that writes have put over them.\<close>

datatype view_op =
    ReadValue StorageKey
  | SetValue StorageKey h256
  | IsWriteInitial StorageKey
  | ReadBelow StorageKey

datatype view_result = ValueResult h256 | BoolResult bool

fun view_step :: "view_op \<Rightarrow> StorageView \<Rightarrow> view_result \<times> StorageView" where
  "view_step (ReadValue k) s = map_prod ValueResult id (view_read_value k s)"
| "view_step (SetValue k v) s = map_prod ValueResult id (view_set_value k v s)"
| "view_step (IsWriteInitial k) s = map_prod BoolResult id (view_is_write_initial k s)"
| "view_step (ReadBelow k) s = map_prod ValueResult id (immutable_read_value k s)"

fun overlay_step :: "storage_handle \<Rightarrow> view_op \<Rightarrow> (StorageKey \<Rightarrow> h256) \<Rightarrow> view_result \<times> (StorageKey \<Rightarrow> h256)" where
  "overlay_step h (ReadValue k) f = (ValueResult (f k), f)"
| "overlay_step h (SetValue k v) f = (ValueResult (f k), f(k := v))"
| "overlay_step h (IsWriteInitial k) f = (BoolResult (handle_initial h k), f)"
| "overlay_step h (ReadBelow k) f = (ValueResult (handle_value h k), f)"

fun run_ops :: "('o \<Rightarrow> 's \<Rightarrow> 'r \<times> 's) \<Rightarrow> 'o list \<Rightarrow> 's \<Rightarrow> 'r list \<times> 's" where
  "run_ops step [] s = ([], s)"
| "run_ops step (op # ops) s =
     (let (r, s') = step op s; (rs, s'') = run_ops step ops s' in (r # rs, s''))"

definition view_abs :: "StorageView \<Rightarrow> storage_handle \<times> (StorageKey \<Rightarrow> h256)" where
  "view_abs s = (view_handle s, view_contents s)"

lemma view_is_write_initial_props:
  assumes "view_wf s"
  shows "fst (view_is_write_initial k s) = handle_initial (view_handle s) k"
    "view_abs (snd (view_is_write_initial k s)) = view_abs s"
    "view_wf (snd (view_is_write_initial k s))"
  using assms
  by (auto simp: view_is_write_initial_def Let_def view_abs_def view_wf_def
      intro!: view_contents_cong split: option.splits)

lemma immutable_read_value_props:
  assumes "view_wf s"
  shows "fst (immutable_read_value k s) = handle_value (view_handle s) k"
    "view_abs (snd (immutable_read_value k s)) = view_abs s"
    "view_wf (snd (immutable_read_value k s))"
proof -
  show "fst (immutable_read_value k s) = handle_value (view_handle s) k"
    using assms read_missed_props [OF assms, of k]
    by (auto simp: immutable_read_value_def view_wf_def split: option.splits)
  show "view_abs (snd (immutable_read_value k s)) = view_abs s" "view_wf (snd (immutable_read_value k s))"
    using assms read_missed_props [OF assms, of k]
    by (auto simp: immutable_read_value_def view_abs_def intro!: view_contents_cong split: option.splits)
qed

lemma view_step_refines:
  assumes "view_wf s"
  shows "fst (view_step op s) = fst (overlay_step (view_handle s) op (view_contents s))"
    "view_abs (snd (view_step op s)) =
       (view_handle s, snd (overlay_step (view_handle s) op (view_contents s)))"
    "view_wf (snd (view_step op s))"
  using assms
  by (cases op; simp add: view_read_value_props view_set_value_props view_is_write_initial_props
      immutable_read_value_props view_abs_def [of "snd (view_read_value _ _)"]
      view_abs_def [of "snd (view_set_value _ _ _)"]; simp add: view_abs_def)+

lemma run_view_refines:
  assumes "view_wf s"
  shows "fst (run_ops view_step ops s) = fst (run_ops (overlay_step (view_handle s)) ops (view_contents s)) \<and>
    view_abs (snd (run_ops view_step ops s)) =
      (view_handle s, snd (run_ops (overlay_step (view_handle s)) ops (view_contents s))) \<and>
    view_wf (snd (run_ops view_step ops s))"
  using assms
proof (induction ops arbitrary: s)
  case (Cons op ops)
  note step = view_step_refines [OF Cons.prems, of op]
  have "view_handle (snd (view_step op s)) = view_handle s"
    "view_contents (snd (view_step op s)) = snd (overlay_step (view_handle s) op (view_contents s))"
    using step(2) by (simp_all add: view_abs_def)
  with Cons.IH [OF step(3)] step(1) show ?case by (simp add: split_beta Let_def)
qed (simp add: view_abs_def)

section \<open>Sequences of writes to in-memory storage\<close>

definition set_values ::
    "(u8 list \<Rightarrow> h256) \<Rightarrow> (StorageKey \<times> h256) list \<Rightarrow> InMemoryStorage \<Rightarrow> InMemoryStorage" where
  "set_values digest kvs s = fold (\<lambda>(k, v). in_memory_set_value digest k v) kvs s"

definition first_occurrences :: "'a list \<Rightarrow> 'a list" where
  "first_occurrences xs = rev (remdups (rev xs))"

lemma first_occurrences_snoc:
  "first_occurrences (xs @ [x]) = (if x \<in> set xs then first_occurrences xs else first_occurrences xs @ [x])"
  by (simp add: first_occurrences_def)

lemma set_first_occurrences [simp]: "set (first_occurrences xs) = set xs"
  by (simp add: first_occurrences_def)

lemma in_memory_write_read:
  assumes "hashed_key digest k = hashed_key digest k' \<Longrightarrow> k = k'"
  shows "in_memory_read_value digest (in_memory_set_value digest k v s) k' =
      (if k' = k then v else in_memory_read_value digest s k')"
    "in_memory_enumeration_index digest (in_memory_set_value digest k v s) k' =
      (if k' = k \<and> in_memory_is_write_initial digest s k then Some (last_enum_index_set s + 1)
       else in_memory_enumeration_index digest s k')"
    "in_memory_is_write_initial digest (in_memory_set_value digest k v s) k' =
      (k' \<noteq> k \<and> in_memory_is_write_initial digest s k')"
    "last_enum_index_set (in_memory_set_value digest k v s) =
      (if in_memory_is_write_initial digest s k then last_enum_index_set s + 1 else last_enum_index_set s)"
  using assms
  by (auto simp: in_memory_set_value_def in_memory_read_value_def in_memory_enumeration_index_def
      in_memory_is_write_initial_def Let_def split: option.splits)

lemma set_values_props:
  assumes "inj_on (hashed_key digest) K" "fst ` set kvs \<subseteq> K"
  shows "last_enum_index_set (set_values digest kvs in_memory_default) =
      of_nat (length (first_occurrences (map fst kvs))) \<and>
    (\<forall>i < length (first_occurrences (map fst kvs)).
        in_memory_enumeration_index digest (set_values digest kvs in_memory_default)
          (first_occurrences (map fst kvs) ! i) = Some (of_nat (i + 1))) \<and>
    (\<forall>k \<in> K. in_memory_read_value digest (set_values digest kvs in_memory_default) k =
        (case map_of (rev kvs) k of Some v \<Rightarrow> v | None \<Rightarrow> 0) \<and>
      in_memory_is_write_initial digest (set_values digest kvs in_memory_default) k =
        (k \<notin> fst ` set kvs))"
  using assms(2)
proof (induction kvs rule: rev_induct)
  case Nil
  show ?case
    by (simp add: set_values_def first_occurrences_def in_memory_default_def in_memory_read_value_def
        in_memory_is_write_initial_def)
next
  case (snoc kv kvs)
  obtain k v where kv: "kv = (k, v)" by (cases kv)
  define st where "st = set_values digest kvs in_memory_default"
  let ?fo = "first_occurrences (map fst kvs)"
  from snoc have k: "k \<in> K" "fst ` set kvs \<subseteq> K" by (auto simp: kv)
  have inj: "hashed_key digest k = hashed_key digest k' \<Longrightarrow> k = k'" if "k' \<in> K" for k'
    using inj_onD [OF assms(1) _ k(1) that] .
  have IH: "last_enum_index_set st = of_nat (length ?fo)"
      "\<And>i. i < length ?fo \<Longrightarrow> in_memory_enumeration_index digest st (?fo ! i) = Some (of_nat (i + 1))"
      "\<And>k. k \<in> K \<Longrightarrow> in_memory_read_value digest st k = (case map_of (rev kvs) k of Some v \<Rightarrow> v | None \<Rightarrow> 0)"
      "\<And>k. k \<in> K \<Longrightarrow> in_memory_is_write_initial digest st k = (k \<notin> fst ` set kvs)"
    using snoc.IH [OF k(2)] by (simp_all add: st_def)
  have step: "set_values digest (kvs @ [kv]) in_memory_default = in_memory_set_value digest k v st"
    by (simp add: set_values_def st_def kv)
  have fo: "?fo ! i \<in> K" "?fo ! i \<in> fst ` set kvs" if "i < length ?fo" for i
    using nth_mem [OF that] k(2) by auto
  note w = in_memory_write_read [OF inj]
  show ?case
    unfolding step
    using k(1) IH fo
    by (auto simp: w kv first_occurrences_snoc nth_append less_Suc_eq image_image)
qed

section \<open>Properties\<close>

text \<open>C31. The storage view refines an overlay: whatever sequence of reads, writes, initial-write queries
  and reads below the writes a batch performs on a fresh view, every answer is the one of a plain
  function that starts as the storage below and is overridden by the writes; caching is invisible,
  the modified keys never affect whether a write is initial, and the storage below is asked for the
  value of each key at most once.\<close>
theorem storage_view_refines_overlay:
  "let (results, s) = run_ops view_step ops (view_new h);
       (results', f) = run_ops (overlay_step h) ops (handle_value h)
   in results = results' \<and> view_contents s = f \<and>
      missed_storage_invocations s = card (fmdom' (read_storage_keys (view_cache s)))"
proof -
  have h: "view_handle (view_new h) = h" by (simp add: view_new_def)
  have "view_contents (view_new h) = handle_value h"
    by (simp add: view_new_def view_contents_def fun_eq_iff)
  with run_view_refines [OF view_wf_new, of ops h]
  have r: "fst (run_ops view_step ops (view_new h)) = fst (run_ops (overlay_step h) ops (handle_value h))"
    "view_contents (snd (run_ops view_step ops (view_new h))) =
      snd (run_ops (overlay_step h) ops (handle_value h))"
    "view_wf (snd (run_ops view_step ops (view_new h)))"
    by (simp_all add: h view_abs_def)
  from r(3) have "missed_storage_invocations (snd (run_ops view_step ops (view_new h))) =
      card (fmdom' (read_storage_keys (view_cache (snd (run_ops view_step ops (view_new h))))))"
    by (simp add: missed_storage_invocations_def view_wf_def fmlen_def)
  with r(1, 2) show ?thesis by (simp add: split_beta)
qed

text \<open>C32. In-memory storage numbers its keys densely. After writing a list of keys and values to the empty
  storage, with a hash that does not collide on these keys, the keys have the enumeration indices
  1, 2, 3 and so on in the order of their first writes, later writes keep the index, the value of a
  key is the last one written, and a key is an initial write exactly when it was not written.\<close>
theorem in_memory_indices_dense:
  assumes "inj_on (hashed_key digest) K" "fst ` set kvs \<subseteq> K" "k \<in> K"
  shows "(\<forall>i < length (first_occurrences (map fst kvs)).
        in_memory_enumeration_index digest (set_values digest kvs in_memory_default)
          (first_occurrences (map fst kvs) ! i) = Some (of_nat (i + 1))) \<and>
    in_memory_read_value digest (set_values digest kvs in_memory_default) k =
      (case map_of (rev kvs) k of Some v \<Rightarrow> v | None \<Rightarrow> 0) \<and>
    in_memory_is_write_initial digest (set_values digest kvs in_memory_default) k =
      (k \<notin> fst ` set kvs)"
  using set_values_props [OF assms(1, 2)] assms(3) by (simp add: in_memory_is_write_initial_def)

theorem in_memory_indices_dense_witness:
  "in_memory_enumeration_index (\<lambda>bs. word_from_be (drop 32 bs))
     (set_values (\<lambda>bs. word_from_be (drop 32 bs))
       [(\<lparr>key_account = 1, key_slot = 7\<rparr>, 5), (\<lparr>key_account = 1, key_slot = 8\<rparr>, 6),
        (\<lparr>key_account = 1, key_slot = 7\<rparr>, 9)] in_memory_default) \<lparr>key_account = 1, key_slot = 8\<rparr> = Some 2"
proof -
  let ?d = "\<lambda>bs :: u8 list. word_from_be (drop 32 bs) :: h256"
  let ?K = "{\<lparr>key_account = 1, key_slot = 7\<rparr>, \<lparr>key_account = 1, key_slot = 8\<rparr>}"
  have "inj_on (hashed_key ?d) ?K"
    by (simp add: raw_hashed_key_def word_from_be_word_be)
  from in_memory_indices_dense [OF this, of "[(\<lparr>key_account = 1, key_slot = 7\<rparr>, 5),
      (\<lparr>key_account = 1, key_slot = 8\<rparr>, 6), (\<lparr>key_account = 1, key_slot = 7\<rparr>, 9)]"
      "\<lparr>key_account = 1, key_slot = 7\<rparr>"]
  show ?thesis by (simp add: first_occurrences_def less_Suc_eq all_conj_distrib)
qed

end
