(* ===== verification/History_Recorder.thy ===== *)
theory History_Recorder
  imports Storage_View
begin

text \<open>
  The history of the oracles of the virtual machine
  (\<^verbatim>\<open>core/lib/multivm/src/versions/vm_latest/old_vm/history_recorder.rs\<close>): every change of a component
  is an action that returns the action undoing it, a recorder keeps these with timestamps, and
  \<open>rollback_to_timestamp\<close> undoes the recent ones. The trait \<^verbatim>\<open>WithHistory\<close> is the locale
  \<open>with_history\<close>: its law is that the returned action undoes the change, up to an equivalence that
  the component's readers cannot distinguish. It is interpreted on vectors, hash maps, stacks of
  frames, the storage and the transient storage here, and on the memory in \<open>Vm_Memory\<close>. The length
  of a VM cycle in timestamps (\<open>TIME_DELTA_PER_CYCLE\<close> of the \<^verbatim>\<open>zkevm_opcode_defs\<close> crate) is the
  parameter \<open>delta\<close>.
\<close>

type_synonym ('s, 'r, 'v) historic = "'r \<Rightarrow> 's \<Rightarrow> ('r \<times> 'v \<times> 's) option"

section \<open>The recorder\<close>

definition normalize_timestamp :: "u32 \<Rightarrow> u32 \<Rightarrow> u32" where
  "normalize_timestamp delta timestamp = timestamp - timestamp mod delta"

record ('s, 'r) HistoryRecorder =
  rec_inner :: 's
  rec_history :: "(u32 \<times> 'r) list"

definition from_inner :: "'s \<Rightarrow> ('s, 'r) HistoryRecorder" where
  "from_inner s = \<lparr>rec_inner = s, rec_history = []\<rparr>"

definition apply_historic_record ::
    "('s, 'r, 'v) historic \<Rightarrow> u32 \<Rightarrow> 'r \<Rightarrow> u32 \<Rightarrow> ('s, 'r) HistoryRecorder
     \<Rightarrow> ('v \<times> ('s, 'r) HistoryRecorder) option" where
  "apply_historic_record ap delta item timestamp r =
     (case ap item (rec_inner r) of
        None \<Rightarrow> None
      | Some (reversed_item, return_value, s) \<Rightarrow>
          (let last_recorded_timestamp = (if rec_history r = [] then 0 else fst (last (rec_history r)));
               timestamp = normalize_timestamp delta timestamp
           in if last_recorded_timestamp \<le> timestamp
              then Some (return_value,
                         \<lparr>rec_inner = s, rec_history = rec_history r @ [(timestamp, reversed_item)]\<rparr>)
              else None))"

text \<open>With \<^verbatim>\<open>HistoryDisabled\<close> there is no history and no check of the timestamps.\<close>

definition apply_without_history :: "('s, 'r, 'v) historic \<Rightarrow> 'r \<Rightarrow> 's \<Rightarrow> ('v \<times> 's) option" where
  "apply_without_history ap item s = map_option snd (ap item s)"

definition delete_history :: "('s, 'r) HistoryRecorder \<Rightarrow> ('s, 'r) HistoryRecorder" where
  "delete_history r = r\<lparr>rec_history := []\<rparr>"

text \<open>The loop pops the history from its end: its argument is the reversed history.\<close>

fun rollback_loop ::
    "('s, 'r, 'v) historic \<Rightarrow> u32 \<Rightarrow> (u32 \<times> 'r) list \<Rightarrow> 's \<Rightarrow> ((u32 \<times> 'r) list \<times> 's) option" where
  "rollback_loop ap timestamp [] s = Some ([], s)"
| "rollback_loop ap timestamp ((t, item) # h) s =
     (if timestamp \<le> t
      then (case ap item s of None \<Rightarrow> None | Some (_, _, s') \<Rightarrow> rollback_loop ap timestamp h s')
      else Some ((t, item) # h, s))"

definition rollback_to_timestamp ::
    "('s, 'r, 'v) historic \<Rightarrow> u32 \<Rightarrow> ('s, 'r) HistoryRecorder \<Rightarrow> ('s, 'r) HistoryRecorder option" where
  "rollback_to_timestamp ap timestamp r =
     map_option (\<lambda>(h, s). \<lparr>rec_inner = s, rec_history = rev h\<rparr>)
       (rollback_loop ap timestamp (rev (rec_history r)) (rec_inner r))"

section \<open>Components with a history\<close>

datatype 'a VectorHistoryEvent = VPush 'a | VPop

fun vec_apply :: "('a list, 'a VectorHistoryEvent, 'a option) historic" where
  "vec_apply VPop s = (if s = [] then None else Some (VPush (last s), Some (last s), butlast s))"
| "vec_apply (VPush x) s = Some (VPop, None, s @ [x])"

definition vec_push :: "u32 \<Rightarrow> 'a \<Rightarrow> u32 \<Rightarrow> ('a list, 'a VectorHistoryEvent) HistoryRecorder
    \<Rightarrow> ('a list, 'a VectorHistoryEvent) HistoryRecorder option" where
  "vec_push delta x timestamp r = map_option snd (apply_historic_record vec_apply delta (VPush x) timestamp r)"

definition vec_pop :: "u32 \<Rightarrow> u32 \<Rightarrow> ('a list, 'a VectorHistoryEvent) HistoryRecorder
    \<Rightarrow> ('a \<times> ('a list, 'a VectorHistoryEvent) HistoryRecorder) option" where
  "vec_pop delta timestamp r =
     (case apply_historic_record vec_apply delta VPop timestamp r of
        Some (Some x, r') \<Rightarrow> Some (x, r')
      | _ \<Rightarrow> None)"

record ('k, 'v) HashMapHistoryEvent =
  event_key :: 'k
  event_value :: "'v option"

definition hashmap_apply :: "(('k, 'v) fmap, ('k, 'v) HashMapHistoryEvent, 'v option) historic" where
  "hashmap_apply item m =
     (let prev_value = fmlookup m (event_key item)
      in Some (\<lparr>event_key = event_key item, event_value = prev_value\<rparr>, prev_value,
               (case event_value item of
                  Some x \<Rightarrow> fmupd (event_key item) x m
                | None \<Rightarrow> fmdrop (event_key item) m)))"

definition hashmap_insert :: "u32 \<Rightarrow> 'k \<Rightarrow> 'v \<Rightarrow> u32
    \<Rightarrow> (('k, 'v) fmap, ('k, 'v) HashMapHistoryEvent) HistoryRecorder
    \<Rightarrow> ('v option \<times> (('k, 'v) fmap, ('k, 'v) HashMapHistoryEvent) HistoryRecorder) option" where
  "hashmap_insert delta k v timestamp r =
     apply_historic_record hashmap_apply delta \<lparr>event_key = k, event_value = Some v\<rparr> timestamp r"

record 'a FramedStack =
  fs_data :: "'a list"
  frame_start_indices :: "nat list"

definition framed_default :: "'a FramedStack" where
  "framed_default = \<lparr>fs_data = [], frame_start_indices = [0]\<rparr>"

datatype 'a FramedStackEvent = FPush 'a | FPop | FPushFrame nat | FMergeFrame

fun framed_apply :: "('a FramedStack, 'a FramedStackEvent, unit) historic" where
  "framed_apply (FPush x) s = Some (FPop, (), s\<lparr>fs_data := fs_data s @ [x]\<rparr>)"
| "framed_apply FPop s =
     (if fs_data s = [] then None
      else Some (FPush (last (fs_data s)), (), s\<lparr>fs_data := butlast (fs_data s)\<rparr>))"
| "framed_apply (FPushFrame i) s =
     Some (FMergeFrame, (), s\<lparr>frame_start_indices := frame_start_indices s @ [i]\<rparr>)"
| "framed_apply FMergeFrame s =
     (if frame_start_indices s = [] then None
      else Some (FPushFrame (last (frame_start_indices s)), (),
                 s\<lparr>frame_start_indices := butlast (frame_start_indices s)\<rparr>))"

definition current_frame :: "'a FramedStack \<Rightarrow> 'a list option" where
  "current_frame s =
     (if frame_start_indices s = [] \<or> length (fs_data s) < last (frame_start_indices s) then None
      else Some (drop (last (frame_start_indices s)) (fs_data s)))"

definition frames_len :: "'a FramedStack \<Rightarrow> nat" where
  "frames_len s = length (frame_start_indices s)"

type_synonym 'a framed_recorder = "('a FramedStack, 'a FramedStackEvent) HistoryRecorder"

definition framed_record :: "u32 \<Rightarrow> 'a FramedStackEvent \<Rightarrow> u32 \<Rightarrow> 'a framed_recorder \<Rightarrow> 'a framed_recorder option" where
  "framed_record delta item timestamp r =
     map_option snd (apply_historic_record framed_apply delta item timestamp r)"

definition push_to_frame :: "u32 \<Rightarrow> 'a \<Rightarrow> u32 \<Rightarrow> 'a framed_recorder \<Rightarrow> 'a framed_recorder option" where
  "push_to_frame delta x timestamp r = framed_record delta (FPush x) timestamp r"

fun pop_times :: "u32 \<Rightarrow> nat \<Rightarrow> u32 \<Rightarrow> 'a framed_recorder \<Rightarrow> 'a framed_recorder option" where
  "pop_times delta 0 timestamp r = Some r"
| "pop_times delta (Suc n) timestamp r =
     Option.bind (framed_record delta FPop timestamp r) (pop_times delta n timestamp)"

text \<open>The loop of \<open>clear_frame\<close> pops while the data is longer than the start of the frame.\<close>

definition clear_frame :: "u32 \<Rightarrow> u32 \<Rightarrow> 'a framed_recorder \<Rightarrow> 'a framed_recorder option" where
  "clear_frame delta timestamp r =
     (if frame_start_indices (rec_inner r) = [] then None
      else pop_times delta
             (length (fs_data (rec_inner r)) - last (frame_start_indices (rec_inner r))) timestamp r)"

fun extend_frame :: "u32 \<Rightarrow> 'a list \<Rightarrow> u32 \<Rightarrow> 'a framed_recorder \<Rightarrow> 'a framed_recorder option" where
  "extend_frame delta [] timestamp r = Some r"
| "extend_frame delta (x # xs) timestamp r =
     Option.bind (push_to_frame delta x timestamp r) (extend_frame delta xs timestamp)"

definition push_frame :: "u32 \<Rightarrow> u32 \<Rightarrow> 'a framed_recorder \<Rightarrow> 'a framed_recorder option" where
  "push_frame delta timestamp r =
     framed_record delta (FPushFrame (length (fs_data (rec_inner r)))) timestamp r"

definition merge_frame :: "u32 \<Rightarrow> u32 \<Rightarrow> 'a framed_recorder \<Rightarrow> 'a framed_recorder option" where
  "merge_frame delta timestamp r = framed_record delta FMergeFrame timestamp r"

record StorageHistoryRecord =
  shr_key :: StorageKey
  shr_value :: u256

definition storage_apply :: "(StorageView, StorageHistoryRecord, u256) historic" where
  "storage_apply item s =
     (let (original, s') = view_set_value (shr_key item) (u256_to_h256 (shr_value item)) s;
          prev_value = h256_to_u256 original
      in Some (\<lparr>shr_key = shr_key item, shr_value = prev_value\<rparr>, prev_value, s'))"

definition read_from_storage :: "StorageKey \<Rightarrow> StorageView \<Rightarrow> u256 \<times> StorageView" where
  "read_from_storage key s = map_prod h256_to_u256 id (view_read_value key s)"

definition write_to_storage :: "u32 \<Rightarrow> StorageKey \<Rightarrow> u256 \<Rightarrow> u32
    \<Rightarrow> (StorageView, StorageHistoryRecord) HistoryRecorder
    \<Rightarrow> (u256 \<times> (StorageView, StorageHistoryRecord) HistoryRecorder) option" where
  "write_to_storage delta key v timestamp r =
     apply_historic_record storage_apply delta \<lparr>shr_key = key, shr_value = v\<rparr> timestamp r"

definition transient_apply :: "((StorageKey, u256) fmap, StorageHistoryRecord, u256) historic" where
  "transient_apply item m =
     (let prev_value = (case fmlookup m (shr_key item) of Some v \<Rightarrow> v | None \<Rightarrow> 0)
      in Some (\<lparr>shr_key = shr_key item, shr_value = prev_value\<rparr>, prev_value,
               fmupd (shr_key item) (shr_value item) m))"

definition read_from_transient_storage :: "StorageKey \<Rightarrow> (StorageKey, u256) fmap \<Rightarrow> u256" where
  "read_from_transient_storage key m = (case fmlookup m key of Some v \<Rightarrow> v | None \<Rightarrow> 0)"

definition write_to_transient_storage :: "u32 \<Rightarrow> StorageKey \<Rightarrow> u256 \<Rightarrow> u32
    \<Rightarrow> ((StorageKey, u256) fmap, StorageHistoryRecord) HistoryRecorder
    \<Rightarrow> (u256 \<times> ((StorageKey, u256) fmap, StorageHistoryRecord) HistoryRecorder) option" where
  "write_to_transient_storage delta key v timestamp r =
     apply_historic_record transient_apply delta \<lparr>shr_key = key, shr_value = v\<rparr> timestamp r"

section \<open>Forward and rollback frames\<close>

record 'a AppDataFrameManager =
  adf_forward :: "'a framed_recorder"
  adf_rollback :: "'a framed_recorder"

definition adf_default :: "'a AppDataFrameManager" where
  "adf_default = \<lparr>adf_forward = from_inner framed_default, adf_rollback = from_inner framed_default\<rparr>"

definition adf_delete_history :: "'a AppDataFrameManager \<Rightarrow> 'a AppDataFrameManager" where
  "adf_delete_history m =
     \<lparr>adf_forward = delete_history (adf_forward m), adf_rollback = delete_history (adf_rollback m)\<rparr>"

definition push_forward :: "u32 \<Rightarrow> 'a \<Rightarrow> u32 \<Rightarrow> 'a AppDataFrameManager \<Rightarrow> 'a AppDataFrameManager option" where
  "push_forward delta item timestamp m =
     map_option (\<lambda>f. m\<lparr>adf_forward := f\<rparr>) (push_to_frame delta item timestamp (adf_forward m))"

definition push_rollback :: "u32 \<Rightarrow> 'a \<Rightarrow> u32 \<Rightarrow> 'a AppDataFrameManager \<Rightarrow> 'a AppDataFrameManager option" where
  "push_rollback delta item timestamp m =
     map_option (\<lambda>b. m\<lparr>adf_rollback := b\<rparr>) (push_to_frame delta item timestamp (adf_rollback m))"

definition on_both :: "('a framed_recorder \<Rightarrow> 'a framed_recorder option)
    \<Rightarrow> 'a AppDataFrameManager \<Rightarrow> 'a AppDataFrameManager option" where
  "on_both f m =
     do { forward \<leftarrow> f (adf_forward m);
          rollback \<leftarrow> f (adf_rollback m);
          Some \<lparr>adf_forward = forward, adf_rollback = rollback\<rparr> }"

definition adf_push_frame :: "u32 \<Rightarrow> u32 \<Rightarrow> 'a AppDataFrameManager \<Rightarrow> 'a AppDataFrameManager option" where
  "adf_push_frame delta timestamp = on_both (push_frame delta timestamp)"

definition adf_merge_frame :: "u32 \<Rightarrow> u32 \<Rightarrow> 'a AppDataFrameManager \<Rightarrow> 'a AppDataFrameManager option" where
  "adf_merge_frame delta timestamp = on_both (merge_frame delta timestamp)"

definition adf_rollback_to_timestamp :: "u32 \<Rightarrow> 'a AppDataFrameManager \<Rightarrow> 'a AppDataFrameManager option" where
  "adf_rollback_to_timestamp timestamp = on_both (rollback_to_timestamp framed_apply timestamp)"

definition move_rollback_to_forward ::
    "u32 \<Rightarrow> ('a \<Rightarrow> bool) \<Rightarrow> u32 \<Rightarrow> 'a AppDataFrameManager \<Rightarrow> 'a AppDataFrameManager option" where
  "move_rollback_to_forward delta p timestamp m =
     do { items \<leftarrow> current_frame (rec_inner (adf_rollback m));
          forward \<leftarrow> extend_frame delta (filter p (rev items)) timestamp (adf_forward m);
          rollback \<leftarrow> clear_frame delta timestamp (adf_rollback m);
          Some \<lparr>adf_forward = forward, adf_rollback = rollback\<rparr> }"

section \<open>The contract of a component with a history\<close>

fun undo_all :: "('s, 'r, 'v) historic \<Rightarrow> 'r list \<Rightarrow> 's \<Rightarrow> 's option" where
  "undo_all ap [] s = Some s"
| "undo_all ap (item # items) s =
     (case ap item s of None \<Rightarrow> None | Some (_, _, s') \<Rightarrow> undo_all ap items s')"

text \<open>A recorder extends an earlier one when its additional history, all at or after a timestamp, undoes
  its changes.\<close>

definition extends ::
    "('s, 'r, 'v) historic \<Rightarrow> ('s \<Rightarrow> 's \<Rightarrow> bool) \<Rightarrow> ('s \<Rightarrow> bool) \<Rightarrow> u32
     \<Rightarrow> ('s, 'r) HistoryRecorder \<Rightarrow> ('s, 'r) HistoryRecorder \<Rightarrow> bool" where
  "extends ap eqv ok T r r' \<longleftrightarrow>
     (\<exists>es. rec_history r' = rec_history r @ es \<and> (\<forall>e \<in> set es. T \<le> fst e) \<and> ok (rec_inner r') \<and>
        (\<forall>s. ok s \<and> eqv s (rec_inner r') \<longrightarrow>
           (\<exists>s'. undo_all ap (rev (map snd es)) s = Some s' \<and> ok s' \<and> eqv s' (rec_inner r))))"

definition history_before :: "u32 \<Rightarrow> ('s, 'r) HistoryRecorder \<Rightarrow> bool" where
  "history_before T r \<longleftrightarrow> rec_history r = [] \<or> fst (last (rec_history r)) < T"

lemma undo_all_append:
  "undo_all ap (xs @ ys) s = Option.bind (undo_all ap xs s) (undo_all ap ys)"
  by (induction xs arbitrary: s) (auto split: option.splits)

lemma rollback_loop_undo:
  assumes "\<forall>e \<in> set es. T \<le> fst e" "h = [] \<or> fst (hd h) < T"
  shows "rollback_loop ap T (es @ h) s = map_option (Pair h) (undo_all ap (map snd es) s)"
  using assms(1)
proof (induction es arbitrary: s)
  case Nil
  show ?case using assms(2) by (cases h; cases "hd h") (auto simp: not_le)
next
  case (Cons e es)
  then show ?case by (cases e) (auto split: option.splits)
qed

locale with_history =
  fixes ap :: "('s, 'r, 'v) historic"
    and eqv :: "'s \<Rightarrow> 's \<Rightarrow> bool"
    and ok :: "'s \<Rightarrow> bool"
  assumes eqv_refl: "eqv s s"
    and apply_ok: "ok s \<Longrightarrow> ap r s = Some (u, v, s') \<Longrightarrow> ok s'"
    and apply_undo: "ok s \<Longrightarrow> ap r s = Some (u, v, s') \<Longrightarrow> ok t \<Longrightarrow> eqv t s' \<Longrightarrow>
      \<exists>u' v' t'. ap u t = Some (u', v', t') \<and> eqv t' s"
begin

lemma extends_refl: "ok (rec_inner r) \<Longrightarrow> extends ap eqv ok T r r"
  by (auto simp: extends_def)

lemma extends_trans:
  assumes "extends ap eqv ok T r1 r2" "extends ap eqv ok T r2 r3"
  shows "extends ap eqv ok T r1 r3"
proof -
  obtain es1 where es1: "rec_history r2 = rec_history r1 @ es1" "\<forall>e \<in> set es1. T \<le> fst e"
    and un1: "\<And>s. ok s \<Longrightarrow> eqv s (rec_inner r2) \<Longrightarrow>
      \<exists>s'. undo_all ap (rev (map snd es1)) s = Some s' \<and> ok s' \<and> eqv s' (rec_inner r1)"
    using assms(1) unfolding extends_def by blast
  obtain es2 where es2: "rec_history r3 = rec_history r2 @ es2" "\<forall>e \<in> set es2. T \<le> fst e"
    and ok3: "ok (rec_inner r3)"
    and un2: "\<And>s. ok s \<Longrightarrow> eqv s (rec_inner r3) \<Longrightarrow>
      \<exists>s'. undo_all ap (rev (map snd es2)) s = Some s' \<and> ok s' \<and> eqv s' (rec_inner r2)"
    using assms(2) unfolding extends_def by blast
  have "\<exists>s'. undo_all ap (rev (map snd (es1 @ es2))) s = Some s' \<and> ok s' \<and> eqv s' (rec_inner r1)"
    if s: "ok s" "eqv s (rec_inner r3)" for s
  proof -
    obtain s2 where s2: "undo_all ap (rev (map snd es2)) s = Some s2" "ok s2" "eqv s2 (rec_inner r2)"
      using un2 [OF s] by blast
    with un1 [OF s2(2, 3)] show ?thesis by (simp add: undo_all_append)
  qed
  then show ?thesis
    unfolding extends_def using es1 es2 ok3
    by (intro exI [of _ "es1 @ es2"]) auto
qed

lemma extends_apply:
  assumes "ok (rec_inner r)" "apply_historic_record ap delta item t r = Some (v, r')"
    "T \<le> normalize_timestamp delta t"
  shows "extends ap eqv ok T r r'"
proof -
  obtain u s' where step: "ap item (rec_inner r) = Some (u, v, s')"
    and r': "r' = \<lparr>rec_inner = s', rec_history = rec_history r @ [(normalize_timestamp delta t, u)]\<rparr>"
    using assms(2) by (auto simp: apply_historic_record_def Let_def split: option.splits if_splits)
  have "\<exists>s2. undo_all ap [u] s = Some s2 \<and> ok s2 \<and> eqv s2 (rec_inner r)"
    if s: "ok s" "eqv s s'" for s
    using apply_undo [OF assms(1) step s] apply_ok [OF s(1)] by fastforce
  with apply_ok [OF assms(1) step] assms(3) show ?thesis
    by (auto simp: extends_def r')
qed

lemma rollback_extends:
  assumes "extends ap eqv ok T r r'" "history_before T r"
  obtains r2 where "rollback_to_timestamp ap T r' = Some r2" "rec_history r2 = rec_history r"
    "eqv (rec_inner r2) (rec_inner r)" "ok (rec_inner r2)"
proof -
  obtain es where es: "rec_history r' = rec_history r @ es" "\<forall>e \<in> set es. T \<le> fst e" "ok (rec_inner r')"
    and un: "\<And>s. ok s \<Longrightarrow> eqv s (rec_inner r') \<Longrightarrow>
      \<exists>s'. undo_all ap (rev (map snd es)) s = Some s' \<and> ok s' \<and> eqv s' (rec_inner r)"
    using assms(1) unfolding extends_def by blast
  obtain s' where s': "undo_all ap (rev (map snd es)) (rec_inner r') = Some s'" "ok s'" "eqv s' (rec_inner r)"
    using un [OF es(3) eqv_refl] by blast
  have "rev (rec_history r) = [] \<or> fst (hd (rev (rec_history r))) < T"
    using assms(2) by (auto simp: history_before_def hd_rev)
  then have "rollback_loop ap T (rev es @ rev (rec_history r)) (rec_inner r') =
      Some (rev (rec_history r), s')"
    using es(2) s'(1) by (simp add: rollback_loop_undo rev_map)
  then show thesis
    using es(1) s' that [of "\<lparr>rec_inner = s', rec_history = rec_history r\<rparr>"]
    by (simp add: rollback_to_timestamp_def)
qed

lemma apply_agrees_without_history:
  "apply_historic_record ap delta item t r = Some (v, r') \<Longrightarrow>
   apply_without_history ap item (rec_inner r) = Some (v, rec_inner r')"
  by (auto simp: apply_historic_record_def apply_without_history_def Let_def
      split: option.splits if_splits)

end

section \<open>Every component keeps the contract\<close>

lemma vec_apply_undo:
  "vec_apply r s = Some (u, v, s') \<Longrightarrow> \<exists>u' v'. vec_apply u s' = Some (u', v', s)"
  by (cases r) (auto split: if_splits)

lemma hashmap_apply_undo:
  "hashmap_apply r s = Some (u, v, s') \<Longrightarrow> \<exists>u' v'. hashmap_apply u s' = Some (u', v', s)"
  by (auto simp: hashmap_apply_def Let_def fmap_restore split: option.splits)

lemma framed_apply_undo:
  "framed_apply r s = Some (u, v, s') \<Longrightarrow> \<exists>u' v'. framed_apply u s' = Some (u', v', s)"
  by (cases r) (auto split: if_splits)

definition transient_contents :: "(StorageKey, u256) fmap \<Rightarrow> StorageKey \<Rightarrow> u256" where
  "transient_contents m k = read_from_transient_storage k m"

lemma transient_apply_props:
  "transient_apply r s = Some (u, v, s') \<Longrightarrow>
   v = transient_contents s (shr_key r) \<and> u = \<lparr>shr_key = shr_key r, shr_value = v\<rparr> \<and>
   transient_contents s' = (transient_contents s)(shr_key r := shr_value r)"
  by (auto simp: transient_apply_def Let_def transient_contents_def read_from_transient_storage_def
      fun_eq_iff)

lemma storage_apply_props:
  assumes "view_wf s" "storage_apply r s = Some (u, v, s')"
  shows "v = view_contents s (shr_key r)" "u = \<lparr>shr_key = shr_key r, shr_value = v\<rparr>"
    "view_contents s' = (view_contents s)(shr_key r := shr_value r)" "view_wf s'"
    "view_handle s' = view_handle s"
  using assms view_set_value_props [OF assms(1), of "shr_key r" "shr_value r"]
  by (auto simp: storage_apply_def split_beta Let_def)

interpretation vec_history: with_history vec_apply "(=)" "\<lambda>_. True"
  by unfold_locales (auto dest: vec_apply_undo)

interpretation hashmap_history: with_history hashmap_apply "(=)" "\<lambda>_. True"
  by unfold_locales (auto dest: hashmap_apply_undo)

interpretation framed_history: with_history framed_apply "(=)" "\<lambda>_. True"
  by unfold_locales (auto dest: framed_apply_undo)

interpretation transient_history: with_history transient_apply
    "\<lambda>s t. transient_contents s = transient_contents t" "\<lambda>_. True"
proof unfold_locales
  fix s r u v s' and t :: "(StorageKey, u256) fmap"
  assume s: "transient_apply r s = Some (u, v, s')" and t: "transient_contents t = transient_contents s'"
  obtain u' v' t' where t': "transient_apply u t = Some (u', v', t')"
    by (simp add: transient_apply_def Let_def)
  have "transient_contents t' = transient_contents s"
    using transient_apply_props [OF s] transient_apply_props [OF t'] t by (simp add: fun_eq_iff)
  with t' show "\<exists>u' v' t'. transient_apply u t = Some (u', v', t') \<and> transient_contents t' = transient_contents s"
    by blast
qed simp_all

interpretation storage_history: with_history storage_apply
    "\<lambda>s t. view_handle s = view_handle t \<and> view_contents s = view_contents t" view_wf
proof unfold_locales
  fix s r u v s' t
  assume s: "view_wf s" "storage_apply r s = Some (u, v, s')" and wf: "view_wf t"
    and t: "view_handle t = view_handle s' \<and> view_contents t = view_contents s'"
  obtain u' v' t' where t': "storage_apply u t = Some (u', v', t')"
    unfolding storage_apply_def split_beta Let_def by blast
  have "view_handle t' = view_handle s \<and> view_contents t' = view_contents s"
    using storage_apply_props [OF s] storage_apply_props [OF wf t'] t by (simp add: fun_eq_iff)
  with t' show "\<exists>u' v' t'. storage_apply u t = Some (u', v', t') \<and>
      view_handle t' = view_handle s \<and> view_contents t' = view_contents s"
    by blast
qed (simp_all add: storage_apply_props)

section \<open>Stacks of frames\<close>

text \<open>A successful step of a recorded stack: the state it leads to, the time that was recorded last, and
  that every earlier point in time can be restored.\<close>

definition last_time :: "('s, 'r) HistoryRecorder \<Rightarrow> u32" where
  "last_time r = (if rec_history r = [] then 0 else fst (last (rec_history r)))"

abbreviation framed_extends :: "u32 \<Rightarrow> 'a framed_recorder \<Rightarrow> 'a framed_recorder \<Rightarrow> bool" where
  "framed_extends \<equiv> extends framed_apply (=) (\<lambda>_. True)"

definition evolves :: "u32 \<Rightarrow> 'a framed_recorder \<Rightarrow> 'a FramedStack \<Rightarrow> 'a framed_recorder option \<Rightarrow> bool" where
  "evolves now r s result \<longleftrightarrow>
     (\<exists>r'. result = Some r' \<and> rec_inner r' = s \<and> last_time r' \<le> now \<and>
        (\<forall>T \<le> now. framed_extends T r r'))"

lemma evolves_refl: "last_time r \<le> now \<Longrightarrow> evolves now r (rec_inner r) (Some r)"
  by (simp add: evolves_def framed_history.extends_refl)

lemma evolves_bind:
  assumes "evolves now r s result"
    "\<And>r'. rec_inner r' = s \<Longrightarrow> last_time r' \<le> now \<Longrightarrow> evolves now r' s' (g r')"
  shows "evolves now r s' (Option.bind result g)"
proof -
  obtain r1 where r1: "result = Some r1" "rec_inner r1 = s" "last_time r1 \<le> now"
    "\<And>T. T \<le> now \<Longrightarrow> framed_extends T r r1"
    using assms(1) unfolding evolves_def by blast
  obtain r2 where r2: "g r1 = Some r2" "rec_inner r2 = s'" "last_time r2 \<le> now"
    "\<And>T. T \<le> now \<Longrightarrow> framed_extends T r1 r2"
    using assms(2) [OF r1(2, 3)] unfolding evolves_def by blast
  have "framed_extends T r r2" if "T \<le> now" for T
    by (rule framed_history.extends_trans [OF r1(4) [OF that] r2(4) [OF that]])
  with r1 r2 show ?thesis unfolding evolves_def by simp
qed

lemma evolves_record:
  assumes "last_time r \<le> normalize_timestamp delta t" "framed_apply item (rec_inner r) = Some (u, v, s)"
  shows "evolves (normalize_timestamp delta t) r s (framed_record delta item t r)"
proof -
  obtain r' where r': "apply_historic_record framed_apply delta item t r = Some (v, r')"
    "rec_inner r' = s" "last_time r' = normalize_timestamp delta t"
    using assms by (simp add: apply_historic_record_def last_time_def Let_def)
  moreover have "framed_extends T r r'" if "T \<le> normalize_timestamp delta t" for T
    by (rule framed_history.extends_apply [OF TrueI r'(1) that])
  ultimately show ?thesis by (simp add: evolves_def framed_record_def)
qed

lemma push_to_frame_evolves:
  "last_time r \<le> normalize_timestamp delta t \<Longrightarrow>
   evolves (normalize_timestamp delta t) r ((rec_inner r)\<lparr>fs_data := fs_data (rec_inner r) @ [x]\<rparr>)
     (push_to_frame delta x t r)"
  unfolding push_to_frame_def by (rule evolves_record) simp_all

lemma extend_frame_evolves:
  "last_time r \<le> normalize_timestamp delta t \<Longrightarrow>
   evolves (normalize_timestamp delta t) r ((rec_inner r)\<lparr>fs_data := fs_data (rec_inner r) @ xs\<rparr>)
     (extend_frame delta xs t r)"
proof (induction xs arbitrary: r)
  case Nil
  then show ?case using evolves_refl [of r] by simp
next
  case (Cons x xs)
  have "evolves (normalize_timestamp delta t) r' ((rec_inner r)\<lparr>fs_data := fs_data (rec_inner r) @ x # xs\<rparr>)
      (extend_frame delta xs t r')"
    if "rec_inner r' = (rec_inner r)\<lparr>fs_data := fs_data (rec_inner r) @ [x]\<rparr>"
      "last_time r' \<le> normalize_timestamp delta t" for r'
    using Cons.IH [OF that(2)] that(1) by simp
  then show ?case
    unfolding extend_frame.simps by (rule evolves_bind [OF push_to_frame_evolves [OF Cons.prems]])
qed

lemma pop_times_evolves:
  "last_time r \<le> normalize_timestamp delta t \<Longrightarrow> n \<le> length (fs_data (rec_inner r)) \<Longrightarrow>
   evolves (normalize_timestamp delta t) r
     ((rec_inner r)\<lparr>fs_data := take (length (fs_data (rec_inner r)) - n) (fs_data (rec_inner r))\<rparr>)
     (pop_times delta n t r)"
proof (induction n arbitrary: r)
  case 0
  then show ?case using evolves_refl [of r] by simp
next
  case (Suc n)
  let ?d = "fs_data (rec_inner r)"
  have ne: "?d \<noteq> []" using Suc.prems(2) by auto
  have pop: "evolves (normalize_timestamp delta t) r ((rec_inner r)\<lparr>fs_data := butlast ?d\<rparr>)
      (framed_record delta FPop t r)"
    using ne by (intro evolves_record [OF Suc.prems(1)]) simp
  have "evolves (normalize_timestamp delta t) r' ((rec_inner r)\<lparr>fs_data := take (length ?d - Suc n) ?d\<rparr>)
      (pop_times delta n t r')"
    if "rec_inner r' = (rec_inner r)\<lparr>fs_data := butlast ?d\<rparr>" "last_time r' \<le> normalize_timestamp delta t" for r'
    using Suc.IH [OF that(2)] that(1) Suc.prems(2) by (simp add: take_butlast)
  then show ?case unfolding pop_times.simps by (rule evolves_bind [OF pop])
qed

text \<open>A well-formed stack has a frame, and its top frame starts within the data.\<close>

definition framed_wf :: "'a FramedStack \<Rightarrow> bool" where
  "framed_wf s \<longleftrightarrow> frame_start_indices s \<noteq> [] \<and> last (frame_start_indices s) \<le> length (fs_data s)"

lemma current_frame_wf:
  "framed_wf s \<Longrightarrow> current_frame s = Some (drop (last (frame_start_indices s)) (fs_data s))"
  by (simp add: current_frame_def framed_wf_def)

lemma clear_frame_evolves:
  assumes "last_time r \<le> normalize_timestamp delta t" "framed_wf (rec_inner r)"
  shows "evolves (normalize_timestamp delta t) r
     ((rec_inner r)\<lparr>fs_data := take (last (frame_start_indices (rec_inner r))) (fs_data (rec_inner r))\<rparr>)
     (clear_frame delta t r)"
  using pop_times_evolves [OF assms(1), of "length (fs_data (rec_inner r)) - last (frame_start_indices (rec_inner r))"]
    assms(2) by (simp add: clear_frame_def framed_wf_def)

lemma push_frame_evolves:
  "last_time r \<le> normalize_timestamp delta t \<Longrightarrow>
   evolves (normalize_timestamp delta t) r
     ((rec_inner r)\<lparr>frame_start_indices :=
        frame_start_indices (rec_inner r) @ [length (fs_data (rec_inner r))]\<rparr>)
     (push_frame delta t r)"
  unfolding push_frame_def by (rule evolves_record) simp_all

lemma merge_frame_evolves:
  "last_time r \<le> normalize_timestamp delta t \<Longrightarrow> frame_start_indices (rec_inner r) \<noteq> [] \<Longrightarrow>
   evolves (normalize_timestamp delta t) r
     ((rec_inner r)\<lparr>frame_start_indices := butlast (frame_start_indices (rec_inner r))\<rparr>)
     (merge_frame delta t r)"
  unfolding merge_frame_def by (rule evolves_record) simp_all

section \<open>Properties\<close>

text \<open>Writes of a component one after the other, at the given timestamps.\<close>

fun record_all ::
    "('s, 'r, 'v) historic \<Rightarrow> u32 \<Rightarrow> ('r \<times> u32) list \<Rightarrow> ('s, 'r) HistoryRecorder
     \<Rightarrow> ('s, 'r) HistoryRecorder option" where
  "record_all ap delta [] r = Some r"
| "record_all ap delta ((item, t) # items) r =
     (case apply_historic_record ap delta item t r of
        None \<Rightarrow> None | Some (_, r') \<Rightarrow> record_all ap delta items r')"

lemma storage_record_total:
  assumes "view_wf (rec_inner r)" "last_time r \<le> normalize_timestamp delta t"
  obtains v r' where "apply_historic_record storage_apply delta item t r = Some (v, r')"
    "view_wf (rec_inner r')" "last_time r' = normalize_timestamp delta t"
    "\<And>T. T \<le> normalize_timestamp delta t \<Longrightarrow>
       extends storage_apply (\<lambda>s t. view_handle s = view_handle t \<and> view_contents s = view_contents t)
         view_wf T r r'"
proof -
  obtain u v s where s: "storage_apply item (rec_inner r) = Some (u, v, s)"
    unfolding storage_apply_def split_beta Let_def by blast
  obtain r' where r': "apply_historic_record storage_apply delta item t r = Some (v, r')"
    "rec_inner r' = s" "last_time r' = normalize_timestamp delta t"
    using s assms(2) by (simp add: apply_historic_record_def last_time_def Let_def)
  show thesis
    using that [OF r'(1) _ r'(3)] storage_apply_props(4) [OF assms(1) s] r'(2)
      storage_history.extends_apply [OF assms(1) r'(1)] by simp
qed

lemma storage_record_all:
  assumes "view_wf (rec_inner r)" "\<forall>(item, t) \<in> set items. T \<le> normalize_timestamp delta t"
    "sorted (last_time r # map (normalize_timestamp delta \<circ> snd) items)"
  shows "\<exists>r'. record_all storage_apply delta items r = Some r' \<and>
    extends storage_apply (\<lambda>s t. view_handle s = view_handle t \<and> view_contents s = view_contents t)
      view_wf T r r'"
  using assms
proof (induction items arbitrary: r)
  case Nil
  then show ?case by (simp add: storage_history.extends_refl)
next
  case (Cons i items)
  obtain item t where i: "i = (item, t)" by (cases i)
  have t: "last_time r \<le> normalize_timestamp delta t" "T \<le> normalize_timestamp delta t"
    using Cons.prems(2, 3) i by auto
  obtain v r1 where r1: "apply_historic_record storage_apply delta item t r = Some (v, r1)"
    "view_wf (rec_inner r1)" "last_time r1 = normalize_timestamp delta t"
    "extends storage_apply (\<lambda>s t. view_handle s = view_handle t \<and> view_contents s = view_contents t)
       view_wf T r r1"
    using storage_record_total [OF Cons.prems(1) t(1), of item] t(2) by blast
  have "\<exists>r'. record_all storage_apply delta items r1 = Some r' \<and>
    extends storage_apply (\<lambda>s t. view_handle s = view_handle t \<and> view_contents s = view_contents t)
      view_wf T r1 r'"
    using Cons.prems r1 i by (intro Cons.IH) auto
  then show ?case
    using r1(1) storage_history.extends_trans [OF r1(4)] i by auto
qed

text \<open>Rolling the storage back restores it. Start from a well-formed storage whose recorded history
  ends before a time \<open>T\<close>, and perform any writes whose cycle starts are at or after \<open>T\<close> and do not go
  backwards. Then no write panics, \<open>rollback_to_timestamp T\<close> does not panic, and afterwards every key
  has the value it had at the start and the history is the one at the start.\<close>
theorem storage_rollback_restores:
  assumes "view_wf (rec_inner r)" "history_before T r"
    "\<forall>(item, t) \<in> set items. T \<le> normalize_timestamp delta t"
    "sorted (last_time r # map (normalize_timestamp delta \<circ> snd) items)"
  shows "\<exists>r' r''. record_all storage_apply delta items r = Some r' \<and>
    rollback_to_timestamp storage_apply T r' = Some r'' \<and>
    view_contents (rec_inner r'') = view_contents (rec_inner r) \<and> rec_history r'' = rec_history r"
proof -
  obtain r' where r': "record_all storage_apply delta items r = Some r'"
    "extends storage_apply (\<lambda>s t. view_handle s = view_handle t \<and> view_contents s = view_contents t)
      view_wf T r r'"
    using storage_record_all [OF assms(1, 3, 4)] by blast
  obtain r2 where "rollback_to_timestamp storage_apply T r' = Some r2"
    "rec_history r2 = rec_history r"
    "view_handle (rec_inner r2) = view_handle (rec_inner r) \<and>
      view_contents (rec_inner r2) = view_contents (rec_inner r)"
    by (rule storage_history.rollback_extends [OF r'(2) assms(2)])
  with r'(1) show ?thesis by blast
qed

theorem storage_rollback_restores_witness:
  "let r = from_inner (view_new (in_memory_handle (\<lambda>bs. word_from_be (drop 32 bs)) in_memory_default))
   in \<exists>r' r''. record_all storage_apply 4
        [(\<lparr>shr_key = \<lparr>key_account = 1, key_slot = 2\<rparr>, shr_value = 3\<rparr>, 9),
         (\<lparr>shr_key = \<lparr>key_account = 1, key_slot = 2\<rparr>, shr_value = 5\<rparr>, 13)] r = Some r' \<and>
      rollback_to_timestamp storage_apply 8 r' = Some r'' \<and>
      view_contents (rec_inner r'') = view_contents (rec_inner r) \<and> rec_history r'' = rec_history r"
  unfolding Let_def
  by (rule storage_rollback_restores)
    (simp_all add: from_inner_def history_before_def normalize_timestamp_def last_time_def)

end
