(* ===== verification/Event_Sink.thy ===== *)
theory Event_Sink
  imports History_Recorder "HOL-Library.Sublist"
begin

text \<open>
  The event sink of the virtual machine
  (\<^verbatim>\<open>core/lib/multivm/src/versions/vm_latest/old_vm/event_sink.rs\<close>): it records events and messages to
  L1 with the call frames they were emitted in, takes back those of a frame that panicked, and
  extracts what is left at the end. The constants of the \<^verbatim>\<open>zkevm_opcode_defs\<close> crate are the record
  \<open>sink_params\<close>. The lemmas relate the forward and rollback stacks to the tree of calls of an
  execution, and the extracted events to the queries that no panicking frame encloses.
\<close>

record sink_params =
  time_delta :: u32
  EVENT_AUX_BYTE :: u8
  L1_MESSAGE_AUX_BYTE :: u8
  BOOTLOADER_FORMAL_ADDRESS :: address

record EventMessage =
  em_shard_id :: u8
  em_is_first :: bool
  em_tx_number_in_block :: u16
  em_address :: address
  em_key :: u256
  em_value :: u256

type_synonym InMemoryEventSink = "LogQuery AppDataFrameManager"

definition sink_default :: InMemoryEventSink where
  "sink_default = adf_default"

definition sink_rollback_to_timestamp :: "u32 \<Rightarrow> InMemoryEventSink \<Rightarrow> InMemoryEventSink option" where
  "sink_rollback_to_timestamp timestamp s = adf_rollback_to_timestamp timestamp s"

definition sink_delete_history :: "InMemoryEventSink \<Rightarrow> InMemoryEventSink" where
  "sink_delete_history s = adf_delete_history s"

text \<open>The loop over the history: a second entry with the timestamp of a stored one is its rollback.\<close>

fun collect_history :: "LogQuery list \<Rightarrow> (u32, LogQuery) fmap \<Rightarrow> (u32, LogQuery) fmap option" where
  "collect_history [] tmp = Some tmp"
| "collect_history (el # history) tmp =
     (if fmlookup tmp (lq_timestamp el) \<noteq> None
      then if lq_rollback el then collect_history history (fmdrop (lq_timestamp el) tmp) else None
      else if \<not> lq_rollback el then collect_history history (fmupd (lq_timestamp el) el tmp) else None)"

definition event_message :: "LogQuery \<Rightarrow> EventMessage" where
  "event_message el =
     \<lparr>em_shard_id = lq_shard_id el, em_is_first = lq_is_service el,
      em_tx_number_in_block = lq_tx_number_in_block el, em_address = lq_address el,
      em_key = lq_key el, em_value = lq_written_value el\<rparr>"

definition events_and_l1_messages_from_history ::
    "sink_params \<Rightarrow> LogQuery list \<Rightarrow> (EventMessage list \<times> EventMessage list) option" where
  "events_and_l1_messages_from_history P history =
     map_option (\<lambda>tmp.
         let els = map (\<lambda>k. the (fmlookup tmp k)) (sorted_list_of_fset (fmdom tmp))
         in (map event_message (filter (\<lambda>el. lq_aux_byte el = EVENT_AUX_BYTE P) els),
             map event_message (filter (\<lambda>el. lq_aux_byte el \<noteq> EVENT_AUX_BYTE P) els)))
       (collect_history history fmempty)"

definition sink_flatten :: "sink_params \<Rightarrow> InMemoryEventSink \<Rightarrow> (EventMessage list \<times> EventMessage list) option" where
  "sink_flatten P s =
     (if frames_len (rec_inner (adf_forward s)) = 1
      then Option.bind (current_frame (rec_inner (adf_forward s))) (events_and_l1_messages_from_history P)
      else None)"

abbreviation (input) get_log_queries :: "InMemoryEventSink \<Rightarrow> nat option" where
  "get_log_queries s \<equiv> map_option length (current_frame (rec_inner (adf_forward s)))"

text \<open>The first piece of \<^verbatim>\<open>rsplit\<close>: the longest suffix without an element before the timestamp.\<close>

definition log_queries_after_timestamp :: "u32 \<Rightarrow> InMemoryEventSink \<Rightarrow> LogQuery list option" where
  "log_queries_after_timestamp from_timestamp s =
     map_option (\<lambda>events. rev (takeWhile (\<lambda>e. \<not> lq_timestamp e < from_timestamp) (rev events)))
       (current_frame (rec_inner (adf_forward s)))"

definition get_events_and_l2_l1_logs_after_timestamp ::
    "sink_params \<Rightarrow> u32 \<Rightarrow> InMemoryEventSink \<Rightarrow> (EventMessage list \<times> EventMessage list) option" where
  "get_events_and_l2_l1_logs_after_timestamp P from_timestamp s =
     Option.bind (log_queries_after_timestamp from_timestamp s) (events_and_l1_messages_from_history P)"

definition add_partial_query :: "sink_params \<Rightarrow> LogQuery \<Rightarrow> InMemoryEventSink \<Rightarrow> InMemoryEventSink option" where
  "add_partial_query P query s =
     (if lq_rw_flag query
         \<and> (lq_aux_byte query = EVENT_AUX_BYTE P \<or> lq_aux_byte query = L1_MESSAGE_AUX_BYTE P)
         \<and> \<not> lq_rollback query
      then Option.bind (push_forward (time_delta P) query (lq_timestamp query) s)
             (push_rollback (time_delta P) (query\<lparr>lq_rollback := True\<rparr>) (lq_timestamp query))
      else None)"

definition start_frame :: "sink_params \<Rightarrow> u32 \<Rightarrow> InMemoryEventSink \<Rightarrow> InMemoryEventSink option" where
  "start_frame P timestamp s = adf_push_frame (time_delta P) timestamp s"

definition finish_frame :: "sink_params \<Rightarrow> bool \<Rightarrow> u32 \<Rightarrow> InMemoryEventSink \<Rightarrow> InMemoryEventSink option" where
  "finish_frame P panicked timestamp s =
     Option.bind
       (if panicked
        then move_rollback_to_forward (time_delta P)
               (\<lambda>q. lq_address q \<noteq> BOOTLOADER_FORMAL_ADDRESS P \<or> lq_aux_byte q \<noteq> EVENT_AUX_BYTE P)
               timestamp s
        else Some s)
       (adf_merge_frame (time_delta P) timestamp)"

section \<open>Executions\<close>

text \<open>The calls of an execution as a tree: a query, or a call that starts and finishes at given times.\<close>

datatype action = Emit LogQuery | Call u32 "action list" bool u32

datatype sink_op = AddQuery LogQuery | StartFrame u32 | FinishFrame bool u32

fun sink_step :: "sink_params \<Rightarrow> sink_op \<Rightarrow> InMemoryEventSink \<Rightarrow> InMemoryEventSink option" where
  "sink_step P (AddQuery q) s = add_partial_query P q s"
| "sink_step P (StartFrame t) s = start_frame P t s"
| "sink_step P (FinishFrame panicked t) s = finish_frame P panicked t s"

fun sink_run :: "sink_params \<Rightarrow> sink_op list \<Rightarrow> InMemoryEventSink \<Rightarrow> InMemoryEventSink option" where
  "sink_run P [] s = Some s"
| "sink_run P (op # ops) s = Option.bind (sink_step P op s) (sink_run P ops)"

fun op_time :: "sink_op \<Rightarrow> u32" where
  "op_time (AddQuery q) = lq_timestamp q"
| "op_time (StartFrame t) = t"
| "op_time (FinishFrame panicked t) = t"

fun ops_of :: "action \<Rightarrow> sink_op list" where
  "ops_of (Emit q) = [AddQuery q]"
| "ops_of (Call t0 acts panicked t1) =
     StartFrame t0 # concat (map ops_of acts) @ [FinishFrame panicked t1]"

fun queries_of :: "action \<Rightarrow> LogQuery list" where
  "queries_of (Emit q) = [q]"
| "queries_of (Call t0 acts panicked t1) = concat (map queries_of acts)"

definition bootloader_event :: "sink_params \<Rightarrow> LogQuery \<Rightarrow> bool" where
  "bootloader_event P q \<longleftrightarrow>
     lq_address q = BOOTLOADER_FORMAL_ADDRESS P \<and> lq_aux_byte q = EVENT_AUX_BYTE P"

text \<open>The specification: a panic takes back everything emitted inside the frame, except the events of
  the bootloader.\<close>

fun surviving :: "sink_params \<Rightarrow> action \<Rightarrow> LogQuery list" where
  "surviving P (Emit q) = [q]"
| "surviving P (Call t0 acts panicked t1) =
     (if panicked then filter (bootloader_event P) (concat (map (surviving P) acts))
      else concat (map (surviving P) acts))"

text \<open>What an execution appends to the forward and to the rollback stack.\<close>

definition undone :: "LogQuery \<Rightarrow> LogQuery" where
  "undone q = q\<lparr>lq_rollback := True\<rparr>"

fun rollbacks :: "action \<Rightarrow> LogQuery list" where
  "rollbacks (Emit q) = [undone q]"
| "rollbacks (Call t0 acts panicked t1) = (if panicked then [] else concat (map rollbacks acts))"

fun forwards :: "sink_params \<Rightarrow> action \<Rightarrow> LogQuery list" where
  "forwards P (Emit q) = [q]"
| "forwards P (Call t0 acts panicked t1) =
     concat (map (forwards P) acts)
       @ (if panicked
          then filter (\<lambda>q. \<not> bootloader_event P q) (rev (concat (map rollbacks acts)))
          else [])"

definition valid_query :: "sink_params \<Rightarrow> LogQuery \<Rightarrow> bool" where
  "valid_query P q \<longleftrightarrow> lq_rw_flag q \<and> \<not> lq_rollback q
     \<and> (lq_aux_byte q = EVENT_AUX_BYTE P \<or> lq_aux_byte q = L1_MESSAGE_AUX_BYTE P)"

section \<open>The stacks follow the tree of calls\<close>

definition reaches ::
    "u32 \<Rightarrow> u32 \<Rightarrow> InMemoryEventSink \<Rightarrow> LogQuery FramedStack \<Rightarrow> LogQuery FramedStack
     \<Rightarrow> InMemoryEventSink option \<Rightarrow> bool" where
  "reaches T now s F B result \<longleftrightarrow>
     (\<exists>s'. result = Some s' \<and> rec_inner (adf_forward s') = F \<and> rec_inner (adf_rollback s') = B \<and>
        last_time (adf_forward s') \<le> now \<and> last_time (adf_rollback s') \<le> now \<and>
        framed_extends T (adf_forward s) (adf_forward s') \<and>
        framed_extends T (adf_rollback s) (adf_rollback s'))"

definition sink_time_le :: "InMemoryEventSink \<Rightarrow> u32 \<Rightarrow> bool" where
  "sink_time_le s now \<longleftrightarrow> last_time (adf_forward s) \<le> now \<and> last_time (adf_rollback s) \<le> now"

lemma reaches_bind:
  assumes "reaches T now s F B result"
    "\<And>s'. rec_inner (adf_forward s') = F \<Longrightarrow> rec_inner (adf_rollback s') = B \<Longrightarrow> sink_time_le s' now \<Longrightarrow>
       reaches T now' s' F' B' (g s')"
  shows "reaches T now' s F' B' (Option.bind result g)"
proof -
  obtain s1 where s1: "result = Some s1" "rec_inner (adf_forward s1) = F" "rec_inner (adf_rollback s1) = B"
    "last_time (adf_forward s1) \<le> now" "last_time (adf_rollback s1) \<le> now"
    "framed_extends T (adf_forward s) (adf_forward s1)" "framed_extends T (adf_rollback s) (adf_rollback s1)"
    using assms(1) unfolding reaches_def by blast
  obtain s2 where s2: "g s1 = Some s2" "rec_inner (adf_forward s2) = F'" "rec_inner (adf_rollback s2) = B'"
    "last_time (adf_forward s2) \<le> now'" "last_time (adf_rollback s2) \<le> now'"
    "framed_extends T (adf_forward s1) (adf_forward s2)" "framed_extends T (adf_rollback s1) (adf_rollback s2)"
    using assms(2) [OF s1(2, 3)] s1(4, 5) unfolding reaches_def sink_time_le_def by blast
  show ?thesis
    unfolding reaches_def
    using s1(1) s2 framed_history.extends_trans [OF s1(6) s2(6)] framed_history.extends_trans [OF s1(7) s2(7)]
    by auto
qed

lemma reaches_refl:
  "sink_time_le s now \<Longrightarrow>
   reaches T now s (rec_inner (adf_forward s)) (rec_inner (adf_rollback s)) (Some s)"
  by (simp add: reaches_def sink_time_le_def framed_history.extends_refl)

lemma evolves_obtain:
  assumes "evolves now r s result" "T \<le> now"
  obtains r' where "result = Some r'" "rec_inner r' = s" "last_time r' \<le> now" "framed_extends T r r'"
  using assms unfolding evolves_def by blast

lemma reaches_both:
  assumes "evolves now (adf_forward s) F (f (adf_forward s))" "evolves now (adf_rollback s) B (g (adf_rollback s))"
    "T \<le> now"
  shows "reaches T now s F B
    (do { forward \<leftarrow> f (adf_forward s); rollback \<leftarrow> g (adf_rollback s);
          Some \<lparr>adf_forward = forward, adf_rollback = rollback\<rparr> })"
proof -
  obtain f' where f': "f (adf_forward s) = Some f'" "rec_inner f' = F" "last_time f' \<le> now"
    "framed_extends T (adf_forward s) f'" by (rule evolves_obtain [OF assms(1, 3)])
  obtain g' where g': "g (adf_rollback s) = Some g'" "rec_inner g' = B" "last_time g' \<le> now"
    "framed_extends T (adf_rollback s) g'" by (rule evolves_obtain [OF assms(2, 3)])
  show ?thesis using f' g' by (simp add: reaches_def)
qed

lemma push_both:
  "Option.bind (push_forward delta x t s) (push_rollback delta y t) =
   (do { forward \<leftarrow> push_to_frame delta x t (adf_forward s);
         rollback \<leftarrow> push_to_frame delta y t (adf_rollback s);
         Some \<lparr>adf_forward = forward, adf_rollback = rollback\<rparr> })"
  by (cases "push_to_frame delta x t (adf_forward s)"; cases "push_to_frame delta y t (adf_rollback s)")
    (auto simp: push_forward_def push_rollback_def)

abbreviation op_cycle :: "sink_params \<Rightarrow> sink_op \<Rightarrow> u32" where
  "op_cycle P op \<equiv> normalize_timestamp (time_delta P) (op_time op)"

abbreviation append_data :: "'a FramedStack \<Rightarrow> 'a list \<Rightarrow> 'a FramedStack" where
  "append_data F xs \<equiv> F\<lparr>fs_data := fs_data F @ xs\<rparr>"

abbreviation add_frame :: "'a FramedStack \<Rightarrow> 'a FramedStack" where
  "add_frame F \<equiv> F\<lparr>frame_start_indices := frame_start_indices F @ [length (fs_data F)]\<rparr>"

lemma add_partial_query_reaches:
  assumes "valid_query P q" "sink_time_le s now" "now = normalize_timestamp (time_delta P) (lq_timestamp q)" "T \<le> now"
  shows "reaches T now s (append_data (rec_inner (adf_forward s)) [q])
    (append_data (rec_inner (adf_rollback s)) [undone q]) (add_partial_query P q s)"
proof -
  have "add_partial_query P q s =
      Option.bind (push_forward (time_delta P) q (lq_timestamp q) s)
        (push_rollback (time_delta P) (undone q) (lq_timestamp q))"
    using assms(1) by (simp add: add_partial_query_def valid_query_def undone_def)
  then show ?thesis
    unfolding push_both using assms(2-4)
    by (auto simp: sink_time_le_def intro!: reaches_both push_to_frame_evolves)
qed

lemma start_frame_reaches:
  assumes "sink_time_le s now" "now = normalize_timestamp (time_delta P) t" "T \<le> now"
  shows "reaches T now s (add_frame (rec_inner (adf_forward s))) (add_frame (rec_inner (adf_rollback s)))
    (start_frame P t s)"
  unfolding start_frame_def adf_push_frame_def on_both_def using assms
  by (auto simp: sink_time_le_def intro!: reaches_both push_frame_evolves)

lemma merge_reaches:
  assumes "sink_time_le s now" "now = normalize_timestamp (time_delta P) t" "T \<le> now"
    "frame_start_indices (rec_inner (adf_forward s)) \<noteq> []"
    "frame_start_indices (rec_inner (adf_rollback s)) \<noteq> []"
  shows "reaches T now s
    ((rec_inner (adf_forward s))\<lparr>frame_start_indices := butlast (frame_start_indices (rec_inner (adf_forward s)))\<rparr>)
    ((rec_inner (adf_rollback s))\<lparr>frame_start_indices := butlast (frame_start_indices (rec_inner (adf_rollback s)))\<rparr>)
    (adf_merge_frame (time_delta P) t s)"
  unfolding adf_merge_frame_def on_both_def using assms
  by (auto simp: sink_time_le_def intro!: reaches_both merge_frame_evolves)

lemma move_reaches:
  assumes "sink_time_le s now" "now = normalize_timestamp (time_delta P) t" "T \<le> now"
    "rec_inner (adf_rollback s) = append_data (add_frame B) R"
  shows "reaches T now s (append_data (rec_inner (adf_forward s)) (filter p (rev R))) (add_frame B)
    (move_rollback_to_forward (time_delta P) p t s)"
proof -
  have "current_frame (rec_inner (adf_rollback s)) = Some R" by (simp add: assms(4) current_frame_def)
  moreover have "evolves now (adf_rollback s) (add_frame B) (clear_frame (time_delta P) t (adf_rollback s))"
    using clear_frame_evolves [of "adf_rollback s" "time_delta P" t] assms
    by (simp add: sink_time_le_def framed_wf_def)
  moreover have "evolves now (adf_forward s) (append_data (rec_inner (adf_forward s)) (filter p (rev R)))
      (extend_frame (time_delta P) (filter p (rev R)) t (adf_forward s))"
    using extend_frame_evolves assms(1, 2) by (auto simp: sink_time_le_def)
  ultimately show ?thesis
    unfolding move_rollback_to_forward_def using assms(3) by (simp add: reaches_both)
qed

lemma finish_frame_reaches:
  assumes "sink_time_le s now" "now = normalize_timestamp (time_delta P) t" "T \<le> now"
    "rec_inner (adf_forward s) = append_data (add_frame F) Fw"
    "rec_inner (adf_rollback s) = append_data (add_frame B) R"
  shows "reaches T now s
    (append_data F (Fw @ (if panicked then filter (\<lambda>q. \<not> bootloader_event P q) (rev R) else [])))
    (append_data B (if panicked then [] else R)) (finish_frame P panicked t s)"
proof (cases panicked)
  case True
  have p: "(\<lambda>q. lq_address q \<noteq> BOOTLOADER_FORMAL_ADDRESS P \<or> lq_aux_byte q \<noteq> EVENT_AUX_BYTE P) =
      (\<lambda>q. \<not> bootloader_event P q)" by (simp add: bootloader_event_def fun_eq_iff)
  show ?thesis
    unfolding finish_frame_def p if_P [OF True]
  proof (rule reaches_bind [OF move_reaches [OF assms(1-3, 5)]])
    fix s' assume s': "rec_inner (adf_forward s') =
        append_data (rec_inner (adf_forward s)) (filter (\<lambda>q. \<not> bootloader_event P q) (rev R))"
      "rec_inner (adf_rollback s') = add_frame B" "sink_time_le s' now"
    show "reaches T now s' (append_data F (Fw @ filter (\<lambda>q. \<not> bootloader_event P q) (rev R)))
        (append_data B []) (adf_merge_frame (time_delta P) t s')"
      using merge_reaches [OF s'(3) assms(2, 3)] s'(1, 2) assms(4) by simp
  qed
next
  case False
  then show ?thesis
    unfolding finish_frame_def
    using merge_reaches [OF assms(1-3)] assms(4, 5) by simp
qed

lemma sink_run_append: "sink_run P (xs @ ys) s = Option.bind (sink_run P xs s) (sink_run P ys)"
  by (induction xs arbitrary: s) (auto split: Option.bind_splits)

lemma sink_run_Nil [simp]: "sink_run P [] = Some"
  by (rule ext) simp

text \<open>Running an action from time \<open>t\<close> on: the times of its operations do not decrease.\<close>

definition runs :: "sink_params \<Rightarrow> u32 \<Rightarrow> sink_op list \<Rightarrow> LogQuery list \<Rightarrow> LogQuery list \<Rightarrow> bool" where
  "runs P T ops Fw R \<longleftrightarrow>
     (\<forall>s t. sink_time_le s t \<longrightarrow> T \<le> t \<longrightarrow> sorted (t # map (op_cycle P) ops) \<longrightarrow>
        reaches T (last (t # map (op_cycle P) ops)) s (append_data (rec_inner (adf_forward s)) Fw)
          (append_data (rec_inner (adf_rollback s)) R) (sink_run P ops s))"

lemma sink_time_le_trans: "sink_time_le s t \<Longrightarrow> t \<le> t' \<Longrightarrow> sink_time_le s t'"
  by (auto simp: sink_time_le_def)

lemma sorted_last_mid:
  "sorted (t # xs @ ys) \<Longrightarrow> sorted (t # xs) \<and> sorted (last (t # xs) # ys) \<and> t \<le> last (t # xs)"
  by (auto simp: sorted_append)

lemma runs_append:
  assumes "runs P T ops Fw R" "runs P T ops' Fw' R'"
  shows "runs P T (ops @ ops') (Fw @ Fw') (R @ R')"
  unfolding runs_def
proof (intro allI impI)
  fix s t assume st: "sink_time_le s t" "T \<le> t" "sorted (t # map (op_cycle P) (ops @ ops'))"
  define m where "m = last (t # map (op_cycle P) ops)"
  have m: "sorted (t # map (op_cycle P) ops)" "sorted (m # map (op_cycle P) ops')" "t \<le> m"
    using sorted_last_mid [of t "map (op_cycle P) ops" "map (op_cycle P) ops'"] st(3) by (simp_all add: m_def)
  have l: "last (t # map (op_cycle P) (ops @ ops')) = last (m # map (op_cycle P) ops')"
    by (simp add: m_def)
  have one: "reaches T m s (append_data (rec_inner (adf_forward s)) Fw)
      (append_data (rec_inner (adf_rollback s)) R) (sink_run P ops s)"
    using assms(1) st(1, 2) m(1) unfolding runs_def m_def by blast
  show "reaches T (last (t # map (op_cycle P) (ops @ ops'))) s
      (append_data (rec_inner (adf_forward s)) (Fw @ Fw'))
      (append_data (rec_inner (adf_rollback s)) (R @ R')) (sink_run P (ops @ ops') s)"
    unfolding l sink_run_append
  proof (rule reaches_bind [OF one])
    fix s' assume s': "rec_inner (adf_forward s') = append_data (rec_inner (adf_forward s)) Fw"
      "rec_inner (adf_rollback s') = append_data (rec_inner (adf_rollback s)) R" "sink_time_le s' m"
    have "T \<le> m" using st(2) m(3) by simp
    with assms(2) s'(3) m(2) have "reaches T (last (m # map (op_cycle P) ops')) s'
        (append_data (rec_inner (adf_forward s')) Fw') (append_data (rec_inner (adf_rollback s')) R')
        (sink_run P ops' s')"
      unfolding runs_def by blast
    with s' show "reaches T (last (m # map (op_cycle P) ops')) s'
        (append_data (rec_inner (adf_forward s)) (Fw @ Fw'))
        (append_data (rec_inner (adf_rollback s)) (R @ R')) (sink_run P ops' s')"
      by simp
  qed
qed

lemma runs_Nil: "runs P T [] [] []"
  by (simp add: runs_def reaches_refl)

lemma runs_concat:
  assumes "\<And>a. a \<in> set acts \<Longrightarrow> runs P T (ops_of a) (forwards P a) (rollbacks a)"
  shows "runs P T (concat (map ops_of acts)) (concat (map (forwards P) acts)) (concat (map rollbacks acts))"
  using assms by (induction acts) (auto intro: runs_Nil runs_append)

lemma runs_Emit:
  assumes "valid_query P q"
  shows "runs P T [AddQuery q] [q] [undone q]"
  unfolding runs_def
proof (intro allI impI)
  fix s t assume st: "sink_time_le s t" "T \<le> t" "sorted (t # map (op_cycle P) [AddQuery q])"
  let ?now = "normalize_timestamp (time_delta P) (lq_timestamp q)"
  have "sink_time_le s ?now" "T \<le> ?now" using st sink_time_le_trans [OF st(1)] by auto
  from add_partial_query_reaches [OF assms this(1) refl this(2)]
  show "reaches T (last (t # map (op_cycle P) [AddQuery q])) s (append_data (rec_inner (adf_forward s)) [q])
      (append_data (rec_inner (adf_rollback s)) [undone q]) (sink_run P [AddQuery q] s)"
    by simp
qed

lemma runs_Call:
  assumes "runs P T ops Fw R"
  shows "runs P T (StartFrame t0 # ops @ [FinishFrame panicked t1])
    (Fw @ (if panicked then filter (\<lambda>q. \<not> bootloader_event P q) (rev R) else []))
    (if panicked then [] else R)"
  unfolding runs_def
proof (intro allI impI)
  fix s :: InMemoryEventSink and t
  let ?n0 = "normalize_timestamp (time_delta P) t0" and ?n1 = "normalize_timestamp (time_delta P) t1"
  let ?m = "last (?n0 # map (op_cycle P) ops)"
  let ?F = "rec_inner (adf_forward s)" and ?B = "rec_inner (adf_rollback s)"
  assume st: "sink_time_le s t" "T \<le> t"
    "sorted (t # map (op_cycle P) (StartFrame t0 # ops @ [FinishFrame panicked t1]))"
  have "sorted (?n0 # map (op_cycle P) ops @ [?n1])" "t \<le> ?n0" using st(3) by simp_all
  with sorted_last_mid [of ?n0 "map (op_cycle P) ops" "[?n1]"]
  have times: "t \<le> ?n0" "sorted (?n0 # map (op_cycle P) ops)" "?m \<le> ?n1" "?n0 \<le> ?m" by simp_all
  have T: "T \<le> ?n0" "T \<le> ?n1" using st(2) times by (meson order_trans)+
  have "reaches T ?n1 s
      (append_data ?F (Fw @ (if panicked then filter (\<lambda>q. \<not> bootloader_event P q) (rev R) else [])))
      (append_data ?B (if panicked then [] else R))
      (Option.bind (start_frame P t0 s) (\<lambda>s1. Option.bind (sink_run P ops s1) (finish_frame P panicked t1)))"
  proof (rule reaches_bind [OF start_frame_reaches [OF sink_time_le_trans [OF st(1) times(1)] refl T(1)]])
    fix s1 assume s1: "rec_inner (adf_forward s1) = add_frame ?F" "rec_inner (adf_rollback s1) = add_frame ?B"
      "sink_time_le s1 ?n0"
    have inner: "reaches T ?m s1 (append_data (add_frame ?F) Fw) (append_data (add_frame ?B) R) (sink_run P ops s1)"
      using assms s1 T(1) times(2) unfolding runs_def by metis
    show "reaches T ?n1 s1
      (append_data ?F (Fw @ (if panicked then filter (\<lambda>q. \<not> bootloader_event P q) (rev R) else [])))
      (append_data ?B (if panicked then [] else R)) (Option.bind (sink_run P ops s1) (finish_frame P panicked t1))"
      by (rule reaches_bind [OF inner], rule finish_frame_reaches [OF _ refl T(2)])
        (use sink_time_le_trans [OF _ times(3)] in simp_all)
  qed
  moreover have "sink_run P (StartFrame t0 # ops @ [FinishFrame panicked t1]) s =
      Option.bind (start_frame P t0 s) (\<lambda>s1. Option.bind (sink_run P ops s1) (finish_frame P panicked t1))"
    by (cases "start_frame P t0 s"; cases "sink_run P ops (the (start_frame P t0 s))")
      (simp_all add: sink_run_append)
  moreover have "last (t # map (op_cycle P) (StartFrame t0 # ops @ [FinishFrame panicked t1])) = ?n1" by simp
  ultimately show "reaches T (last (t # map (op_cycle P) (StartFrame t0 # ops @ [FinishFrame panicked t1]))) s
      (append_data ?F (Fw @ (if panicked then filter (\<lambda>q. \<not> bootloader_event P q) (rev R) else [])))
      (append_data ?B (if panicked then [] else R))
      (sink_run P (StartFrame t0 # ops @ [FinishFrame panicked t1]) s)"
    by (simp only:)
qed

lemma runs_action:
  "(\<forall>q \<in> set (queries_of a). valid_query P q) \<Longrightarrow> runs P T (ops_of a) (forwards P a) (rollbacks a)"
proof (induction a)
  case (Emit q)
  then show ?case by (simp add: runs_Emit)
next
  case (Call t0 acts panicked t1)
  then have "runs P T (concat (map ops_of acts)) (concat (map (forwards P) acts)) (concat (map rollbacks acts))"
    by (intro runs_concat) auto
  then show ?case using runs_Call by simp
qed

section \<open>What survives\<close>

definition add_all :: "LogQuery list \<Rightarrow> (u32, LogQuery) fmap \<Rightarrow> (u32, LogQuery) fmap" where
  "add_all qs tmp = fold (\<lambda>q. fmupd (lq_timestamp q) q) qs tmp"

lemma undone_simps [simp]:
  "lq_timestamp (undone q) = lq_timestamp q" "lq_rollback (undone q)"
  "bootloader_event P (undone q) = bootloader_event P q"
  by (simp_all add: undone_def bootloader_event_def)

lemma add_all_append: "add_all (xs @ ys) tmp = add_all ys (add_all xs tmp)"
  by (simp add: add_all_def)

lemma add_all_other: "t \<notin> lq_timestamp ` set qs \<Longrightarrow> fmlookup (add_all qs tmp) t = fmlookup tmp t"
  by (induction qs arbitrary: tmp) (auto simp: add_all_def)

lemma add_all_member:
  "distinct (map lq_timestamp qs) \<Longrightarrow> q \<in> set qs \<Longrightarrow> fmlookup (add_all qs tmp) (lq_timestamp q) = Some q"
proof (induction qs arbitrary: tmp)
  case (Cons x qs)
  show ?case
  proof (cases "q = x")
    case True
    then have "lq_timestamp q \<notin> lq_timestamp ` set qs" using Cons.prems(1) by auto
    with add_all_other [OF this, of "fmupd (lq_timestamp x) x tmp"] True show ?thesis
      by (simp add: add_all_def)
  next
    case False
    with Cons show ?thesis by (simp add: add_all_def)
  qed
qed simp

lemma subseq_concat_map:
  "(\<And>a. a \<in> set as \<Longrightarrow> subseq (f a) (g a)) \<Longrightarrow> subseq (concat (map f as)) (concat (map g as))"
  by (induction as) (auto intro: list_emb_append_mono)

lemma surviving_subseq: "subseq (surviving P a) (queries_of a)"
proof (induction a)
  case (Call t0 acts panicked t1)
  then have s: "subseq (concat (map (surviving P) acts)) (concat (map queries_of acts))"
    by (rule subseq_concat_map)
  then show ?case
    by (auto intro: subseq_order.order_trans [OF subseq_filter_left])
qed simp

text \<open>The rollback stack holds rollbacks of surviving queries, and of all but bootloader events.\<close>

definition rollbacks_cover :: "sink_params \<Rightarrow> LogQuery list \<Rightarrow> LogQuery list \<Rightarrow> bool" where
  "rollbacks_cover P R S \<longleftrightarrow>
     (\<exists>X. R = map undone X \<and> subseq X S \<and> (\<forall>q \<in> set S. bootloader_event P q \<or> q \<in> set X))"

lemma rollbacks_cover_append:
  "rollbacks_cover P R S \<Longrightarrow> rollbacks_cover P R' S' \<Longrightarrow> rollbacks_cover P (R @ R') (S @ S')"
  unfolding rollbacks_cover_def
proof (elim exE conjE)
  fix X X' assume "R = map undone X" "subseq X S" "\<forall>q \<in> set S. bootloader_event P q \<or> q \<in> set X"
    "R' = map undone X'" "subseq X' S'" "\<forall>q \<in> set S'. bootloader_event P q \<or> q \<in> set X'"
  then show "\<exists>Y. R @ R' = map undone Y \<and> subseq Y (S @ S') \<and>
      (\<forall>q \<in> set (S @ S'). bootloader_event P q \<or> q \<in> set Y)"
    by (intro exI [of _ "X @ X'"]) (auto intro: list_emb_append_mono)
qed

lemma rollbacks_cover_concat:
  assumes "\<And>a. a \<in> set acts \<Longrightarrow> rollbacks_cover P (rollbacks a) (surviving P a)"
  shows "rollbacks_cover P (concat (map rollbacks acts)) (concat (map (surviving P) acts))"
  using assms
proof (induction acts)
  case Nil
  show ?case by (simp add: rollbacks_cover_def)
next
  case (Cons a acts)
  then show ?case by (simp add: rollbacks_cover_append)
qed

lemma rollbacks_cover_action: "rollbacks_cover P (rollbacks a) (surviving P a)"
proof (induction a)
  case (Emit q)
  show ?case unfolding rollbacks_cover_def by (intro exI [of _ "[q]"]) simp
next
  case (Call t0 acts panicked t1)
  then have c: "rollbacks_cover P (concat (map rollbacks acts)) (concat (map (surviving P) acts))"
    by (rule rollbacks_cover_concat)
  then show ?case by (auto simp: rollbacks_cover_def)
qed

lemma collect_history_append:
  "collect_history (xs @ ys) tmp = Option.bind (collect_history xs tmp) (collect_history ys)"
  by (induction xs arbitrary: tmp) auto

lemma collect_rollbacks:
  "distinct (map lq_timestamp R) \<Longrightarrow> \<forall>q \<in> set R. lq_rollback q \<and> fmlookup tmp (lq_timestamp q) \<noteq> None \<Longrightarrow>
   collect_history R tmp = Some (fmdrop_set (lq_timestamp ` set R) tmp)"
proof (induction R arbitrary: tmp)
  case Nil
  show ?case by (simp add: fmap_ext)
next
  case (Cons q R)
  have "collect_history R (fmdrop (lq_timestamp q) tmp) =
      Some (fmdrop_set (lq_timestamp ` set R) (fmdrop (lq_timestamp q) tmp))"
    using Cons.prems by (intro Cons.IH) (auto simp: image_iff)
  moreover have "fmdrop_set (lq_timestamp ` set R) (fmdrop (lq_timestamp q) tmp) =
      fmdrop_set (lq_timestamp ` set (q # R)) tmp"
    by (rule fmap_ext) auto
  ultimately show ?case using Cons.prems by auto
qed

lemma subseq_subset: "subseq xs ys \<Longrightarrow> set xs \<subseteq> set ys"
  by (induction rule: list_emb.induct) auto

lemma distinct_subseq: "subseq xs ys \<Longrightarrow> distinct ys \<Longrightarrow> distinct xs"
  by (induction rule: list_emb.induct) (auto dest: subseq_subset)

lemma distinct_subseq_map:
  "subseq xs ys \<Longrightarrow> distinct (map f ys) \<Longrightarrow> distinct (map f xs)"
  by (rule distinct_subseq [OF subseq_map])

lemma collect_panicked:
  assumes "distinct (map lq_timestamp S)" "rollbacks_cover P R S"
  shows "collect_history (filter (\<lambda>q. \<not> bootloader_event P q) (rev R)) (add_all S tmp) =
    Some (add_all (filter (bootloader_event P) S) (fmdrop_set (lq_timestamp ` set S) tmp))"
proof -
  obtain X where X: "R = map undone X" "subseq X S" "\<forall>q \<in> set S. bootloader_event P q \<or> q \<in> set X"
    using assms(2) unfolding rollbacks_cover_def by blast
  let ?L = "filter (\<lambda>q. \<not> bootloader_event P q) (rev R)"
  let ?N = "{q \<in> set S. \<not> bootloader_event P q}"
  have XS: "set X \<subseteq> set S" using X(2) by (rule subseq_subset)
  have dX: "distinct (map lq_timestamp X)" by (rule distinct_subseq_map [OF X(2) assms(1)])
  have "distinct (map lq_timestamp R)" using dX by (simp add: X(1) comp_def)
  then have d: "distinct (map lq_timestamp ?L)" by (simp add: distinct_map_filter flip: rev_map)
  have ts: "lq_timestamp ` set ?L = lq_timestamp ` ?N" using X XS by (force simp: image_iff)
  have "\<forall>q \<in> set ?L. lq_rollback q \<and> fmlookup (add_all S tmp) (lq_timestamp q) \<noteq> None"
    using X(1) XS add_all_member [OF assms(1)] by auto
  from collect_rollbacks [OF d this]
  have "collect_history ?L (add_all S tmp) = Some (fmdrop_set (lq_timestamp ` ?N) (add_all S tmp))"
    by (simp only: ts)
  also have "fmdrop_set (lq_timestamp ` ?N) (add_all S tmp) =
      add_all (filter (bootloader_event P) S) (fmdrop_set (lq_timestamp ` set S) tmp)"
  proof (rule fmap_ext)
    fix t
    have inj: "q = q'" if "q \<in> set S" "q' \<in> set S" "lq_timestamp q = lq_timestamp q'" for q q'
      using assms(1) that by (auto simp: distinct_map inj_on_def)
    have dB: "distinct (map lq_timestamp (filter (bootloader_event P) S))"
      using assms(1) by (rule distinct_map_filter)
    consider (out) "t \<notin> lq_timestamp ` set S" | (boot) q where "q \<in> set S" "bootloader_event P q" "t = lq_timestamp q"
      | (other) q where "q \<in> set S" "\<not> bootloader_event P q" "t = lq_timestamp q" by blast
    then show "fmlookup (fmdrop_set (lq_timestamp ` ?N) (add_all S tmp)) t =
        fmlookup (add_all (filter (bootloader_event P) S) (fmdrop_set (lq_timestamp ` set S) tmp)) t"
    proof cases
      case out
      then show ?thesis by (subst add_all_other) (auto simp: add_all_other)
    next
      case boot
      then have "t \<notin> lq_timestamp ` ?N" using inj by blast
      then show ?thesis
        using boot add_all_member [OF assms(1) boot(1)] add_all_member [OF dB, of q] by simp
    next
      case other
      then have "t \<notin> lq_timestamp ` set (filter (bootloader_event P) S)" using inj by auto
      then show ?thesis using other by (simp add: add_all_other)
    qed
  qed
  finally show ?thesis .
qed

definition fresh_for :: "LogQuery list \<Rightarrow> (u32, LogQuery) fmap \<Rightarrow> bool" where
  "fresh_for qs tmp \<longleftrightarrow> (\<forall>q \<in> set qs. fmlookup tmp (lq_timestamp q) = None)"

definition collects :: "sink_params \<Rightarrow> LogQuery list \<Rightarrow> LogQuery list \<Rightarrow> LogQuery list \<Rightarrow> bool" where
  "collects P Fw S Q \<longleftrightarrow>
     (\<forall>tmp. distinct (map lq_timestamp Q) \<longrightarrow> fresh_for Q tmp \<longrightarrow> collect_history Fw tmp = Some (add_all S tmp))"

lemma collects_append:
  assumes "collects P Fw S Q" "collects P Fw' S' Q'" "set S \<subseteq> set Q"
  shows "collects P (Fw @ Fw') (S @ S') (Q @ Q')"
  unfolding collects_def
proof (intro allI impI)
  fix tmp assume d: "distinct (map lq_timestamp (Q @ Q'))" and f: "fresh_for (Q @ Q') tmp"
  have "collect_history Fw tmp = Some (add_all S tmp)"
    using assms(1) d f by (simp add: collects_def fresh_for_def)
  moreover have "fresh_for Q' (add_all S tmp)"
    unfolding fresh_for_def
  proof
    fix q assume q: "q \<in> set Q'"
    have "lq_timestamp q \<notin> lq_timestamp ` set S" using d q assms(3) by fastforce
    with f q show "fmlookup (add_all S tmp) (lq_timestamp q) = None"
      by (simp add: add_all_other fresh_for_def)
  qed
  then have "collect_history Fw' (add_all S tmp) = Some (add_all S' (add_all S tmp))"
    using assms(2) d by (simp add: collects_def)
  ultimately show "collect_history (Fw @ Fw') tmp = Some (add_all (S @ S') tmp)"
    by (simp add: collect_history_append add_all_append)
qed

lemma collects_concat:
  assumes "\<And>a. a \<in> set acts \<Longrightarrow> collects P (forwards P a) (surviving P a) (queries_of a)"
  shows "collects P (concat (map (forwards P) acts)) (concat (map (surviving P) acts)) (concat (map queries_of acts))"
  using assms
proof (induction acts)
  case Nil
  show ?case by (simp add: collects_def add_all_def)
next
  case (Cons a acts)
  then show ?case
    using subseq_subset [OF surviving_subseq] by (simp add: collects_append)
qed

lemma collects_action:
  "(\<forall>q \<in> set (queries_of a). valid_query P q) \<Longrightarrow> collects P (forwards P a) (surviving P a) (queries_of a)"
proof (induction a)
  case (Emit q)
  then show ?case by (simp add: collects_def fresh_for_def add_all_def valid_query_def)
next
  case (Call t0 acts panicked t1)
  let ?S = "concat (map (surviving P) acts)" and ?Q = "concat (map queries_of acts)"
  have c: "collects P (concat (map (forwards P) acts)) ?S ?Q"
    using Call by (intro collects_concat) auto
  have sub: "subseq ?S ?Q" by (rule subseq_concat_map) (rule surviving_subseq)
  show ?case
    unfolding collects_def
  proof (intro allI impI)
    fix tmp
    assume d: "distinct (map lq_timestamp (queries_of (Call t0 acts panicked t1)))"
      and f: "fresh_for (queries_of (Call t0 acts panicked t1)) tmp"
    have one: "collect_history (concat (map (forwards P) acts)) tmp = Some (add_all ?S tmp)"
      using c d f by (simp add: collects_def)
    have dS: "distinct (map lq_timestamp ?S)" using distinct_subseq_map [OF sub] d by simp
    have "fmdrop_set (lq_timestamp ` set ?S) tmp = tmp"
      using f subseq_subset [OF sub] by (intro fmap_ext) (auto simp: fresh_for_def)
    then have "collect_history (filter (\<lambda>q. \<not> bootloader_event P q) (rev (concat (map rollbacks acts)))) (add_all ?S tmp) =
        Some (add_all (filter (bootloader_event P) ?S) tmp)"
      using collect_panicked [OF dS rollbacks_cover_concat [OF rollbacks_cover_action]] by simp
    with one show "collect_history (forwards P (Call t0 acts panicked t1)) tmp =
        Some (add_all (surviving P (Call t0 acts panicked t1)) tmp)"
      by (simp add: collect_history_append)
  qed
qed

lemma sorted_keys:
  assumes "distinct (map f xs)"
  shows "sorted_list_of_set (f ` set xs) = map f (sort_key f xs)"
proof -
  have "distinct (map f (sort_key f xs))"
    using assms by (simp add: distinct_map)
  then show "sorted_list_of_set (f ` set xs) = map f (sort_key f xs)"
    by (metis image_set set_sort sorted_list_of_set.idem_if_sorted_distinct sorted_sort_key)
qed

lemma extracted_elements:
  assumes "distinct (map lq_timestamp S)"
  shows "map (\<lambda>k. the (fmlookup (add_all S fmempty) k)) (sorted_list_of_fset (fmdom (add_all S fmempty))) =
    sort_key lq_timestamp S"
proof -
  have "fmdom' (add_all S fmempty) = lq_timestamp ` set S"
    using add_all_member [OF assms] add_all_other [of _ S fmempty]
    by (fastforce simp: fmlookup_dom'_iff)
  then have "sorted_list_of_fset (fmdom (add_all S fmempty)) = map lq_timestamp (sort_key lq_timestamp S)"
    by (simp add: sorted_list_of_fset.rep_eq fmdom'_alt_def sorted_keys [OF assms])
  then show ?thesis
    by (simp only: map_map comp_def) (rule map_idI, simp add: add_all_member [OF assms])
qed

section \<open>Properties\<close>


abbreviation sample_params :: sink_params where
  "sample_params \<equiv> \<lparr>time_delta = 4, EVENT_AUX_BYTE = 2, L1_MESSAGE_AUX_BYTE = 1, BOOTLOADER_FORMAL_ADDRESS = 32769\<rparr>"

abbreviation sample_query :: "u32 \<Rightarrow> u8 \<Rightarrow> address \<Rightarrow> LogQuery" where
  "sample_query t aux a \<equiv>
     \<lparr>lq_timestamp = t, lq_tx_number_in_block = 0, lq_aux_byte = aux, lq_shard_id = 0, lq_address = a,
      lq_key = 0, lq_read_value = 0, lq_written_value = 0, lq_rw_flag = True, lq_rollback = False,
      lq_is_service = False\<rparr>"

abbreviation sample_calls :: "action list" where
  "sample_calls \<equiv>
     [Emit (sample_query 4 2 7),
      Call 8 [Emit (sample_query 12 1 7), Emit (sample_query 16 2 32769)] True 20]"


text \<open>Rolling the event sink back restores it exactly: if the recorded history ends before a time
  \<open>T\<close>, then after any tree of calls at or after \<open>T\<close>, panicking ones included,
  \<open>rollback_to_timestamp T\<close> does not panic and gives the sink from before the calls.\<close>
theorem sink_rollback_restores:
  assumes "\<forall>q \<in> set (concat (map queries_of acts)). valid_query P q"
    "sorted (T # map (op_cycle P) (concat (map ops_of acts)))"
    "history_before T (adf_forward s)" "history_before T (adf_rollback s)"
  shows "\<exists>s'. sink_run P (concat (map ops_of acts)) s = Some s' \<and>
    sink_rollback_to_timestamp T s' = Some s"
proof -
  let ?ops = "concat (map ops_of acts)"
  have "runs P T ?ops (concat (map (forwards P) acts)) (concat (map rollbacks acts))"
    using assms(1) by (intro runs_concat runs_action) auto
  moreover have "sink_time_le s T"
    using assms(3, 4) by (auto simp: sink_time_le_def history_before_def last_time_def)
  ultimately obtain s' where s': "sink_run P ?ops s = Some s'"
    "framed_extends T (adf_forward s) (adf_forward s')" "framed_extends T (adf_rollback s) (adf_rollback s')"
    using assms(2) unfolding runs_def reaches_def by blast
  obtain f where f: "rollback_to_timestamp framed_apply T (adf_forward s') = Some f"
    "rec_history f = rec_history (adf_forward s)" "rec_inner f = rec_inner (adf_forward s)"
    by (rule framed_history.rollback_extends [OF s'(2) assms(3)])
  obtain b where b: "rollback_to_timestamp framed_apply T (adf_rollback s') = Some b"
    "rec_history b = rec_history (adf_rollback s)" "rec_inner b = rec_inner (adf_rollback s)"
    by (rule framed_history.rollback_extends [OF s'(3) assms(4)])
  have "f = adf_forward s" "b = adf_rollback s" using f b by simp_all
  with f(1) b(1) s'(1) show ?thesis
    by (simp add: sink_rollback_to_timestamp_def adf_rollback_to_timestamp_def on_both_def)
qed

theorem sink_rollback_restores_witness:
  "\<exists>s'. sink_run sample_params (concat (map ops_of sample_calls)) sink_default = Some s' \<and>
    sink_rollback_to_timestamp 4 s' = Some sink_default"
  by (rule sink_rollback_restores)
    (simp_all add: valid_query_def normalize_timestamp_def sink_default_def adf_default_def
      from_inner_def history_before_def)

end
