(* ===== verification/Vm_Memory.thy ===== *)
theory Vm_Memory
  imports History_Recorder
begin

text \<open>
  The memory of the virtual machine: sparse pages and their history
  (\<^verbatim>\<open>history_recorder.rs\<close>, \<^verbatim>\<open>MemoryPage\<close> and \<^verbatim>\<open>MemoryWrapper\<close>) and the memory oracle with its
  frames of observable pages (\<^verbatim>\<open>core/lib/multivm/src/versions/vm_latest/old_vm/memory.rs\<close>). The value of
  a slot that was never written, \<^verbatim>\<open>PrimitiveValue::empty()\<close> of the \<^verbatim>\<open>zk_evm\<close> crate, is the parameter
  \<open>e\<close>; of the queries of that crate only the fields the code reads are kept. The lemmas show that the
  memory is a map from pages and slots to values, that clearing a page can be undone, and that the
  unaligned reads return the bytes of the words.
\<close>

record PrimitiveValue =
  pv_value :: u256
  pv_is_pointer :: bool

section \<open>Pages\<close>

type_synonym MemoryPage = "PrimitiveValue list option list"

definition PAGE_SUBDIVISION_LEN :: nat where
  "PAGE_SUBDIVISION_LEN = 64"

definition page_get :: "PrimitiveValue \<Rightarrow> MemoryPage \<Rightarrow> nat \<Rightarrow> PrimitiveValue" where
  "page_get e page slot =
     (if slot div PAGE_SUBDIVISION_LEN < length page
      then (case page ! (slot div PAGE_SUBDIVISION_LEN) of
              Some leaf \<Rightarrow> leaf ! (slot mod PAGE_SUBDIVISION_LEN)
            | None \<Rightarrow> e)
      else e)"

text \<open>\<^verbatim>\<open>resize_with\<close> to at least \<open>n\<close> elements.\<close>

definition grow :: "nat \<Rightarrow> 'a \<Rightarrow> 'a list \<Rightarrow> 'a list" where
  "grow n x xs = (if length xs < n then xs @ replicate (n - length xs) x else xs)"

definition page_set :: "PrimitiveValue \<Rightarrow> MemoryPage \<Rightarrow> nat \<Rightarrow> PrimitiveValue \<Rightarrow> PrimitiveValue \<times> MemoryPage" where
  "page_set e page slot v =
     (let root_index = slot div PAGE_SUBDIVISION_LEN;
          leaf_index = slot mod PAGE_SUBDIVISION_LEN;
          root = grow (root_index + 1) None page
      in case root ! root_index of
           Some leaf \<Rightarrow> (leaf ! leaf_index, root[root_index := Some (leaf[leaf_index := v])])
         | None \<Rightarrow> (e, root[root_index := Some ((replicate PAGE_SUBDIVISION_LEN e)[leaf_index := v])]))"

text \<open>\<^verbatim>\<open>PartialEq\<close> compares the slots, not the representation.\<close>

definition page_eq :: "PrimitiveValue \<Rightarrow> MemoryPage \<Rightarrow> MemoryPage \<Rightarrow> bool" where
  "page_eq e a b \<longleftrightarrow>
     (\<forall>slot \<in> {0..<max (length a) (length b) * PAGE_SUBDIVISION_LEN}. page_get e a slot = page_get e b slot)"

section \<open>Memory\<close>

type_synonym MemoryWrapper = "MemoryPage list"

record MemoryHistoryRecord =
  mhr_page :: nat
  mhr_slot :: nat
  mhr_value :: PrimitiveValue

definition memory_eq :: "PrimitiveValue \<Rightarrow> MemoryWrapper \<Rightarrow> MemoryWrapper \<Rightarrow> bool" where
  "memory_eq e a b \<longleftrightarrow>
     (\<forall>i \<in> {0..<max (length a) (length b)}.
        page_eq e (if i < length a then a ! i else []) (if i < length b then b ! i else []))"

definition ensure_page_exists :: "nat \<Rightarrow> MemoryWrapper \<Rightarrow> MemoryWrapper" where
  "ensure_page_exists page m = grow (page + 1) [] m"

definition read_slot :: "PrimitiveValue \<Rightarrow> MemoryWrapper \<Rightarrow> nat \<Rightarrow> nat \<Rightarrow> PrimitiveValue" where
  "read_slot e m page slot = (if page < length m then page_get e (m ! page) slot else e)"

definition dump_page_content ::
    "PrimitiveValue \<Rightarrow> MemoryWrapper \<Rightarrow> nat \<Rightarrow> nat \<Rightarrow> nat \<Rightarrow> PrimitiveValue list" where
  "dump_page_content e m page_number from to =
     (if page_number < length m then map (page_get e (m ! page_number)) [from..<to]
      else replicate (to - from) e)"

definition memory_apply :: "PrimitiveValue \<Rightarrow> (MemoryWrapper, MemoryHistoryRecord, PrimitiveValue) historic" where
  "memory_apply e item m =
     (let m = ensure_page_exists (mhr_page item) m;
          (prev_value, page) = page_set e (m ! mhr_page item) (mhr_slot item) (mhr_value item)
      in Some (item\<lparr>mhr_value := prev_value\<rparr>, prev_value, m[mhr_page item := page]))"

type_synonym memory_recorder = "(MemoryWrapper, MemoryHistoryRecord) HistoryRecorder"

definition write_to_memory ::
    "PrimitiveValue \<Rightarrow> u32 \<Rightarrow> nat \<Rightarrow> nat \<Rightarrow> PrimitiveValue \<Rightarrow> u32 \<Rightarrow> memory_recorder
     \<Rightarrow> (PrimitiveValue \<times> memory_recorder) option" where
  "write_to_memory e delta page slot v timestamp r =
     apply_historic_record (memory_apply e) delta
       \<lparr>mhr_page = page, mhr_slot = slot, mhr_value = v\<rparr> timestamp r"

text \<open>The records that restore a page: its non-empty slots in order, with the timestamp as it is given.\<close>

definition page_records :: "PrimitiveValue \<Rightarrow> nat \<Rightarrow> MemoryPage \<Rightarrow> MemoryHistoryRecord list" where
  "page_records e page root =
     concat (map (\<lambda>i. case root ! i of
         None \<Rightarrow> []
       | Some slots \<Rightarrow>
           map (\<lambda>j. \<lparr>mhr_page = page, mhr_slot = PAGE_SUBDIVISION_LEN * i + j, mhr_value = slots ! j\<rparr>)
             (filter (\<lambda>j. slots ! j \<noteq> e) [0..<length slots]))
       [0..<length root])"

definition clear_page :: "PrimitiveValue \<Rightarrow> nat \<Rightarrow> u32 \<Rightarrow> memory_recorder \<Rightarrow> memory_recorder" where
  "clear_page e page timestamp r =
     (let m = rec_inner r
      in if page < length m
         then \<lparr>rec_inner = m[page := []],
               rec_history = rec_history r @ map (Pair timestamp) (page_records e page (m ! page))\<rparr>
         else r)"

section \<open>The memory oracle (memory.rs)\<close>

record SimpleMemory =
  sm_memory :: memory_recorder
  observable_pages :: "u32 framed_recorder"

definition simple_memory_default :: SimpleMemory where
  "simple_memory_default =
     \<lparr>sm_memory = from_inner [], observable_pages = from_inner framed_default\<rparr>"

definition memory_rollback_to_timestamp :: "PrimitiveValue \<Rightarrow> u32 \<Rightarrow> SimpleMemory \<Rightarrow> SimpleMemory option" where
  "memory_rollback_to_timestamp e timestamp s =
     do { m \<leftarrow> rollback_to_timestamp (memory_apply e) timestamp (sm_memory s);
          p \<leftarrow> rollback_to_timestamp framed_apply timestamp (observable_pages s);
          Some \<lparr>sm_memory = m, observable_pages = p\<rparr> }"

definition memory_delete_history :: "SimpleMemory \<Rightarrow> SimpleMemory" where
  "memory_delete_history s =
     \<lparr>sm_memory = delete_history (sm_memory s), observable_pages = delete_history (observable_pages s)\<rparr>"

definition sm_write ::
    "PrimitiveValue \<Rightarrow> u32 \<Rightarrow> nat \<Rightarrow> nat \<Rightarrow> PrimitiveValue \<Rightarrow> u32 \<Rightarrow> SimpleMemory \<Rightarrow> SimpleMemory option" where
  "sm_write e delta page slot v timestamp s =
     map_option (\<lambda>(_, m). s\<lparr>sm_memory := m\<rparr>) (write_to_memory e delta page slot v timestamp (sm_memory s))"

fun populate_page ::
    "PrimitiveValue \<Rightarrow> u32 \<Rightarrow> nat \<Rightarrow> (nat \<times> u256) list \<Rightarrow> u32 \<Rightarrow> SimpleMemory \<Rightarrow> SimpleMemory option" where
  "populate_page e delta page [] timestamp s = Some s"
| "populate_page e delta page ((offset, v) # elements) timestamp s =
     Option.bind (sm_write e delta page offset \<lparr>pv_value = v, pv_is_pointer = False\<rparr> timestamp s)
       (populate_page e delta page elements timestamp)"

fun populate ::
    "PrimitiveValue \<Rightarrow> u32 \<Rightarrow> (u32 \<times> u256 list) list \<Rightarrow> u32 \<Rightarrow> SimpleMemory \<Rightarrow> SimpleMemory option" where
  "populate e delta [] timestamp s = Some s"
| "populate e delta ((page, vs) # elements) timestamp s =
     Option.bind (populate_page e delta (unat page) (zip [0..<length vs] vs) timestamp s)
       (populate e delta elements timestamp)"

definition sm_read_slot :: "PrimitiveValue \<Rightarrow> nat \<Rightarrow> nat \<Rightarrow> SimpleMemory \<Rightarrow> PrimitiveValue" where
  "sm_read_slot e page slot s = read_slot e (rec_inner (sm_memory s)) page slot"

definition dump_page_content_as_u256_words ::
    "PrimitiveValue \<Rightarrow> u32 \<Rightarrow> u32 \<Rightarrow> u32 \<Rightarrow> SimpleMemory \<Rightarrow> u256 list" where
  "dump_page_content_as_u256_words e page from to s =
     map pv_value (dump_page_content e (rec_inner (sm_memory s)) (unat page) (unat from) (unat to))"

definition extract_needed_bytes_from_word :: "u8 list \<Rightarrow> nat \<Rightarrow> nat \<Rightarrow> nat \<Rightarrow> u8 list" where
  "extract_needed_bytes_from_word word_value word_number start stop =
     (let word_start = word_number * 32;
          word_end = word_start + 31;
          intersection_left = max word_start start;
          intersection_right = min word_end stop
      in if intersection_right < intersection_left then []
         else take (intersection_right - intersection_left + 1) (drop (intersection_left - word_start) word_value))"

function read_words_loop :: "(nat \<Rightarrow> u256) \<Rightarrow> nat \<Rightarrow> nat \<Rightarrow> nat \<Rightarrow> u8 list" where
  "read_words_loop word start stop current_word =
     (if current_word * 32 \<le> stop
      then extract_needed_bytes_from_word (word_be (word current_word)) current_word start stop
           @ read_words_loop word start stop (current_word + 1)
      else [])"
  by auto
termination
  by (relation "measure (\<lambda>(_, _, stop, w). stop + 1 - w * 32)") auto

declare read_words_loop.simps [simp del]

definition read_unaligned_bytes :: "PrimitiveValue \<Rightarrow> nat \<Rightarrow> nat \<Rightarrow> nat \<Rightarrow> SimpleMemory \<Rightarrow> u8 list option" where
  "read_unaligned_bytes e page start len s =
     (if len = 0 then Some []
      else let result = read_words_loop (\<lambda>w. pv_value (sm_read_slot e page w s)) start (start + len - 1) (start div 32)
           in if length result = len then Some result else None)"

datatype MemoryType = Stack | Heap | AuxHeap | FatPointer | Code | StaticMemory

record MemoryQuery =
  mq_timestamp :: u32
  mq_memory_type :: MemoryType
  mq_page :: u32
  mq_index :: u32
  mq_value :: u256
  mq_value_is_pointer :: bool
  mq_rw_flag :: bool

text \<open>The part the two queries share: write, or read into the query.\<close>

definition perform_query ::
    "PrimitiveValue \<Rightarrow> u32 \<Rightarrow> MemoryQuery \<Rightarrow> SimpleMemory \<Rightarrow> (MemoryQuery \<times> SimpleMemory) option" where
  "perform_query e delta query s =
     (let page = unat (mq_page query); slot = unat (mq_index query)
      in if mq_rw_flag query
         then map_option (Pair query)
                (sm_write e delta page slot
                   \<lparr>pv_value = mq_value query, pv_is_pointer = mq_value_is_pointer query\<rparr>
                   (mq_timestamp query) s)
         else let current_value = sm_read_slot e page slot s
              in Some (query\<lparr>mq_value := pv_value current_value,
                             mq_value_is_pointer := pv_is_pointer current_value\<rparr>, s))"

definition execute_partial_query ::
    "PrimitiveValue \<Rightarrow> u32 \<Rightarrow> MemoryQuery \<Rightarrow> SimpleMemory \<Rightarrow> (MemoryQuery \<times> SimpleMemory) option" where
  "execute_partial_query e delta query s =
     (if (case mq_memory_type query of
            Stack \<Rightarrow> True
          | Heap \<Rightarrow> \<not> mq_value_is_pointer query
          | AuxHeap \<Rightarrow> \<not> mq_value_is_pointer query
          | FatPointer \<Rightarrow> \<not> mq_rw_flag query \<and> \<not> mq_value_is_pointer query
          | Code \<Rightarrow> False
          | StaticMemory \<Rightarrow> False)
      then perform_query e delta query s else None)"

definition specialized_code_query ::
    "PrimitiveValue \<Rightarrow> u32 \<Rightarrow> MemoryQuery \<Rightarrow> SimpleMemory \<Rightarrow> (MemoryQuery \<times> SimpleMemory) option" where
  "specialized_code_query e delta query s =
     (if mq_memory_type query = Code \<and> \<not> mq_value_is_pointer query
      then perform_query e delta query s else None)"

definition read_code_query :: "PrimitiveValue \<Rightarrow> MemoryQuery \<Rightarrow> SimpleMemory \<Rightarrow> MemoryQuery option" where
  "read_code_query e query s =
     (if mq_memory_type query = Code \<and> \<not> mq_value_is_pointer query \<and> \<not> mq_rw_flag query
      then let current_value = sm_read_slot e (unat (mq_page query)) (unat (mq_index query)) s
           in Some (query\<lparr>mq_value := pv_value current_value,
                          mq_value_is_pointer := pv_is_pointer current_value\<rparr>)
      else None)"

abbreviation (input) stack_page_from_base :: "u32 \<Rightarrow> u32" where
  "stack_page_from_base base \<equiv> base + 1"

abbreviation (input) heap_page_from_base :: "u32 \<Rightarrow> u32" where
  "heap_page_from_base base \<equiv> base + 2"

abbreviation (input) aux_heap_page_from_base :: "u32 \<Rightarrow> u32" where
  "aux_heap_page_from_base base \<equiv> base + 3"

definition start_global_frame :: "u32 \<Rightarrow> u32 \<Rightarrow> u32 \<Rightarrow> u32 \<Rightarrow> SimpleMemory \<Rightarrow> SimpleMemory option" where
  "start_global_frame delta new_base_page calldata_page timestamp s =
     map_option (\<lambda>p. s\<lparr>observable_pages := p\<rparr>)
       (Option.bind (push_frame delta timestamp (observable_pages s))
         (extend_frame delta
            [calldata_page, stack_page_from_base new_base_page, heap_page_from_base new_base_page,
             aux_heap_page_from_base new_base_page] timestamp))"

abbreviation (input) CODE_ORACLE_ADDRESS :: address where
  "CODE_ORACLE_ADDRESS \<equiv> 0x8012"

definition clear_pages :: "PrimitiveValue \<Rightarrow> u32 list \<Rightarrow> u32 \<Rightarrow> memory_recorder \<Rightarrow> memory_recorder" where
  "clear_pages e pages timestamp r = fold (\<lambda>page. clear_page e (unat page) timestamp) pages r"

definition finish_global_frame ::
    "PrimitiveValue \<Rightarrow> u32 \<Rightarrow> u32 \<Rightarrow> address \<Rightarrow> u32 \<Rightarrow> u32 \<Rightarrow> u32 \<Rightarrow> SimpleMemory \<Rightarrow> SimpleMemory option" where
  "finish_global_frame e delta base_page last_callstack_this returndata_page returndata_length timestamp s =
     (let is_returndata_page_static = (last_callstack_this = CODE_ORACLE_ADDRESS \<and> returndata_length > 0)
      in do { pages \<leftarrow> current_frame (rec_inner (observable_pages s));
              p \<leftarrow> clear_frame delta timestamp (observable_pages s);
              p \<leftarrow> merge_frame delta timestamp p;
              p \<leftarrow> (if is_returndata_page_static then Some p else push_to_frame delta returndata_page timestamp p);
              Some \<lparr>sm_memory =
                      clear_pages e (filter (\<lambda>page. base_page \<le> page \<and> page \<noteq> returndata_page) pages)
                        timestamp (sm_memory s),
                    observable_pages = p\<rparr> })"

section \<open>Pages are maps\<close>

definition page_wf :: "MemoryPage \<Rightarrow> bool" where
  "page_wf page \<longleftrightarrow> (\<forall>leaf. Some leaf \<in> set page \<longrightarrow> length leaf = PAGE_SUBDIVISION_LEN)"

lemma page_wf_Nil [simp]: "page_wf []"
  by (simp add: page_wf_def)

lemma grow_simps:
  "length (grow n x xs) = max n (length xs)"
  "i < length xs \<Longrightarrow> grow n x xs ! i = xs ! i"
  "length xs \<le> i \<Longrightarrow> i < n \<Longrightarrow> grow n x xs ! i = x"
  "set (grow n x xs) \<subseteq> insert x (set xs)"
  by (auto simp: grow_def nth_append)

lemma page_get_grow: "page_get e (grow n None page) s = page_get e page s"
  by (cases "s div PAGE_SUBDIVISION_LEN < length page"; cases "s div PAGE_SUBDIVISION_LEN < n")
    (auto simp: page_get_def grow_simps)

lemma page_wf_grow: "page_wf page \<Longrightarrow> page_wf (grow n None page)"
  using grow_simps(4) [of n None page] by (auto simp: page_wf_def)

lemma same_slot: "s = t \<longleftrightarrow> s div PAGE_SUBDIVISION_LEN = t div PAGE_SUBDIVISION_LEN \<and>
    s mod PAGE_SUBDIVISION_LEN = t mod PAGE_SUBDIVISION_LEN"
  by (metis div_mult_mod_eq)

lemma slot_mod_less: "slot mod PAGE_SUBDIVISION_LEN < PAGE_SUBDIVISION_LEN"
  by (simp add: PAGE_SUBDIVISION_LEN_def)

lemma page_get_update:
  assumes "r < length root" "l < length leaf"
    "\<And>j. j < PAGE_SUBDIVISION_LEN \<Longrightarrow>
      leaf ! j = (case root ! r of Some old \<Rightarrow> old ! j | None \<Rightarrow> e)"
    "slot div PAGE_SUBDIVISION_LEN = r" "slot mod PAGE_SUBDIVISION_LEN = l"
  shows "page_get e (root[r := Some (leaf[l := v])]) s = (if s = slot then v else page_get e root s)"
  using assms slot_mod_less [of s] unfolding same_slot [of s slot]
  by (auto simp: page_get_def nth_list_update split: option.splits)

lemma page_set_props:
  assumes "page_wf page"
  shows "fst (page_set e page slot v) = page_get e page slot"
    "page_get e (snd (page_set e page slot v)) s = (if s = slot then v else page_get e page s)"
    "page_wf (snd (page_set e page slot v))"
proof -
  define r where "r = slot div PAGE_SUBDIVISION_LEN"
  define l where "l = slot mod PAGE_SUBDIVISION_LEN"
  define root where "root = grow (r + 1) None page"
  define leaf where "leaf = (case root ! r of Some old \<Rightarrow> old | None \<Rightarrow> replicate PAGE_SUBDIVISION_LEN e)"
  have r: "r < length root" by (simp add: root_def grow_simps)
  have wf: "page_wf root" unfolding root_def by (rule page_wf_grow [OF assms])
  have len: "length leaf = PAGE_SUBDIVISION_LEN"
    using wf nth_mem [OF r] by (auto simp: leaf_def page_wf_def split: option.splits)
  have l: "l < length leaf" using slot_mod_less by (simp add: len l_def)
  have eq: "page_set e page slot v = (page_get e root slot, root[r := Some (leaf[l := v])])"
    unfolding page_set_def Let_def r_def [symmetric] l_def [symmetric] root_def [symmetric]
    using r l len by (auto simp: leaf_def page_get_def r_def [symmetric] l_def [symmetric] split: option.splits)
  show "fst (page_set e page slot v) = page_get e page slot"
    by (simp add: eq root_def page_get_grow)
  have "page_get e (root[r := Some (leaf[l := v])]) s = (if s = slot then v else page_get e root s)"
    by (rule page_get_update [OF r l]) (auto simp: leaf_def r_def l_def split: option.splits)
  then show "page_get e (snd (page_set e page slot v)) s = (if s = slot then v else page_get e page s)"
    by (simp add: eq root_def page_get_grow)
  show "page_wf (snd (page_set e page slot v))"
    using wf len set_update_subset_insert [of root r "Some (leaf[l := v])"]
    by (auto simp: eq page_wf_def)
qed

section \<open>Memory is a map\<close>

definition memory_wf :: "MemoryWrapper \<Rightarrow> bool" where
  "memory_wf m \<longleftrightarrow> (\<forall>page \<in> set m. page_wf page)"

definition contents :: "PrimitiveValue \<Rightarrow> MemoryWrapper \<Rightarrow> nat \<times> nat \<Rightarrow> PrimitiveValue" where
  "contents e m = (\<lambda>(page, slot). read_slot e m page slot)"

lemma memory_wf_ensure: "memory_wf m \<Longrightarrow> memory_wf (ensure_page_exists page m)"
  using grow_simps(4) [of "page + 1" "[]" m] by (auto simp: memory_wf_def ensure_page_exists_def)

lemma read_slot_ensure: "read_slot e (ensure_page_exists page m) p slot = read_slot e m p slot"
  by (cases "p < length m"; cases "p < page + 1")
    (auto simp: read_slot_def ensure_page_exists_def grow_simps page_get_def)

lemma memory_apply_props:
  assumes "memory_wf m" "memory_apply e item m = Some (u, v, m')"
  shows "v = contents e m (mhr_page item, mhr_slot item)" "u = item\<lparr>mhr_value := v\<rparr>"
    "contents e m' = (contents e m)((mhr_page item, mhr_slot item) := mhr_value item)" "memory_wf m'"
proof -
  define m1 where "m1 = ensure_page_exists (mhr_page item) m"
  have len: "mhr_page item < length m1" by (simp add: m1_def ensure_page_exists_def grow_simps)
  have wf1: "memory_wf m1" unfolding m1_def by (rule memory_wf_ensure [OF assms(1)])
  then have wf: "page_wf (m1 ! mhr_page item)" using nth_mem [OF len] by (simp add: memory_wf_def)
  note ps = page_set_props [OF wf, where e = e and slot = "mhr_slot item" and v = "mhr_value item"]
  have u: "u = item\<lparr>mhr_value := v\<rparr>"
    and v: "v = fst (page_set e (m1 ! mhr_page item) (mhr_slot item) (mhr_value item))"
    and m': "m' = m1[mhr_page item := snd (page_set e (m1 ! mhr_page item) (mhr_slot item) (mhr_value item))]"
    using assms(2) by (auto simp: memory_apply_def Let_def m1_def [symmetric] split_beta)
  show "u = item\<lparr>mhr_value := v\<rparr>" by (rule u)
  have rd: "read_slot e m p sl = (if p < length m1 then page_get e (m1 ! p) sl else e)" for p sl
    using read_slot_ensure [of e "mhr_page item" m p sl] by (simp add: read_slot_def flip: m1_def)
  have c: "contents e m (p, sl) = (if p < length m1 then page_get e (m1 ! p) sl else e)" for p sl
    by (simp add: contents_def rd)
  have c': "contents e m' (p, sl) = (if p < length m1 then page_get e (m' ! p) sl else e)" for p sl
    by (simp add: contents_def read_slot_def m')
  have nth: "m' ! p = (if p = mhr_page item
      then snd (page_set e (m1 ! mhr_page item) (mhr_slot item) (mhr_value item)) else m1 ! p)"
    if "p < length m1" for p
    using that by (simp add: m' nth_list_update)
  show "v = contents e m (mhr_page item, mhr_slot item)"
    using len by (simp add: v ps c)
  show "contents e m' = (contents e m)((mhr_page item, mhr_slot item) := mhr_value item)"
    using len by (auto simp: fun_eq_iff c c' nth ps)
  show "memory_wf m'"
    using wf1 ps(3) set_update_subset_insert [of m1 "mhr_page item"] by (fastforce simp: m' memory_wf_def)
qed

lemma memory_apply_total: "\<exists>u v m'. memory_apply e item m = Some (u, v, m')"
  by (simp add: memory_apply_def split_beta Let_def)

interpretation memory_history: with_history "memory_apply e"
    "\<lambda>s t. contents e s = contents e t" memory_wf for e
proof unfold_locales
  fix s r u v s' t
  assume s: "memory_wf s" "memory_apply e r s = Some (u, v, s')" and wf: "memory_wf t"
    and t: "contents e t = contents e s'"
  obtain u' v' t' where t': "memory_apply e u t = Some (u', v', t')" using memory_apply_total by blast
  have "contents e t' = contents e s"
    using memory_apply_props [OF s] memory_apply_props [OF wf t'] t by (simp add: fun_eq_iff)
  with t' show "\<exists>u' v' t'. memory_apply e u t = Some (u', v', t') \<and> contents e t' = contents e s" by blast
qed (simp_all add: memory_apply_props)

section \<open>Clearing pages\<close>

lemma contents_clear:
  "contents e (m[page := []]) = (\<lambda>(p, slot). if p = page \<and> page < length m then e else contents e m (p, slot))"
  by (auto simp: fun_eq_iff contents_def read_slot_def nth_list_update page_get_def)

lemma in_concat_map: "x \<in> set (concat (map f ys)) \<longleftrightarrow> (\<exists>y \<in> set ys. x \<in> set (f y))"
  by simp

lemma page_records_iff:
  "item \<in> set (page_records e page root) \<longleftrightarrow>
   (\<exists>i slots j. i < length root \<and> root ! i = Some slots \<and> j < length slots \<and> slots ! j \<noteq> e \<and>
      item = \<lparr>mhr_page = page, mhr_slot = PAGE_SUBDIVISION_LEN * i + j, mhr_value = slots ! j\<rparr>)"
proof -
  let ?item = "\<lambda>i slots j. \<lparr>mhr_page = page, mhr_slot = PAGE_SUBDIVISION_LEN * i + j, mhr_value = slots ! j\<rparr>"
  have one: "item \<in> set (case x of None \<Rightarrow> [] | Some slots \<Rightarrow>
        map (?item i slots) (filter (\<lambda>j. slots ! j \<noteq> e) [0..<length slots])) \<longleftrightarrow>
      (\<exists>slots j. x = Some slots \<and> j < length slots \<and> slots ! j \<noteq> e \<and> item = ?item i slots j)" for i x
    by (cases x) auto
  show ?thesis unfolding page_records_def in_concat_map one by (simp only: set_upt atLeast0LessThan) blast
qed

lemma page_records_values:
  assumes "page_wf root" "item \<in> set (page_records e page root)"
  shows "mhr_page item = page \<and> mhr_value item = page_get e root (mhr_slot item)"
proof -
  obtain i slots j where i: "i < length root" "root ! i = Some slots" "j < length slots"
    and item: "item = \<lparr>mhr_page = page, mhr_slot = PAGE_SUBDIVISION_LEN * i + j, mhr_value = slots ! j\<rparr>"
    using assms(2) unfolding page_records_iff by blast
  have "length slots = PAGE_SUBDIVISION_LEN"
    using assms(1) i nth_mem [OF i(1)] by (simp add: page_wf_def)
  with i show ?thesis by (simp add: item page_get_def)
qed

lemma page_records_complete:
  assumes "page_wf root" "page_get e root slot \<noteq> e"
  shows "\<exists>item \<in> set (page_records e page root). mhr_slot item = slot"
proof -
  let ?i = "slot div PAGE_SUBDIVISION_LEN" and ?j = "slot mod PAGE_SUBDIVISION_LEN"
  obtain slots where s: "?i < length root" "root ! ?i = Some slots" "slots ! ?j \<noteq> e"
    using assms(2) by (auto simp: page_get_def split: if_splits option.splits)
  have "length slots = PAGE_SUBDIVISION_LEN"
    using assms(1) s nth_mem [OF s(1)] by (simp add: page_wf_def)
  then have "\<lparr>mhr_page = page, mhr_slot = PAGE_SUBDIVISION_LEN * ?i + ?j, mhr_value = slots ! ?j\<rparr>
      \<in> set (page_records e page root)"
    using s slot_mod_less [of slot]
    unfolding page_records_iff by (intro exI [of _ ?i] exI [of _ slots] exI [of _ ?j]) simp
  then show ?thesis by (rule rev_bexI) simp
qed

text \<open>Restoring slots to the values of a reference map.\<close>

lemma undo_all_memory:
  assumes "memory_wf m" "\<forall>item \<in> set items. mhr_value item = f (mhr_page item, mhr_slot item)"
    "\<forall>k. k \<notin> (\<lambda>item. (mhr_page item, mhr_slot item)) ` set items \<longrightarrow> contents e m k = f k"
  shows "\<exists>m'. undo_all (memory_apply e) items m = Some m' \<and> memory_wf m' \<and> contents e m' = f"
  using assms
proof (induction items arbitrary: m)
  case Nil
  then show ?case by auto
next
  case (Cons item items)
  obtain u v m1 where step: "memory_apply e item m = Some (u, v, m1)" using memory_apply_total by blast
  note p = memory_apply_props [OF Cons.prems(1) step]
  have "\<exists>m'. undo_all (memory_apply e) items m1 = Some m' \<and> memory_wf m' \<and> contents e m' = f"
    using Cons.prems p by (intro Cons.IH) auto
  then show ?case using step by simp
qed

abbreviation memory_extends :: "PrimitiveValue \<Rightarrow> u32 \<Rightarrow> memory_recorder \<Rightarrow> memory_recorder \<Rightarrow> bool" where
  "memory_extends e \<equiv> extends (memory_apply e) (\<lambda>s t. contents e s = contents e t) memory_wf"

lemma clear_page_extends:
  assumes "memory_wf (rec_inner r)" "T \<le> t"
  shows "memory_extends e T r (clear_page e page t r)"
proof (cases "page < length (rec_inner r)")
  case True
  let ?m = "rec_inner r" and ?items = "page_records e page (rec_inner r ! page)"
  have wf: "page_wf (?m ! page)" using assms(1) nth_mem [OF True] by (simp add: memory_wf_def)
  have inner: "memory_wf (?m[page := []])"
    using assms(1) set_update_subset_insert [of ?m page "[]"] by (auto simp: memory_wf_def)
  have val: "mhr_page item = page \<and> mhr_value item = contents e ?m (page, mhr_slot item)"
    if "item \<in> set ?items" for item
    using page_records_values [OF wf that] True by (simp add: contents_def read_slot_def)
  have undo: "\<exists>m'. undo_all (memory_apply e) (rev ?items) m = Some m' \<and> memory_wf m' \<and> contents e m' = contents e ?m"
    if m: "memory_wf m" "contents e m = contents e (?m[page := []])" for m
  proof (rule undo_all_memory [OF m(1)])
    show "\<forall>item \<in> set (rev ?items). mhr_value item = contents e ?m (mhr_page item, mhr_slot item)"
      using val by simp
    show "\<forall>k. k \<notin> (\<lambda>item. (mhr_page item, mhr_slot item)) ` set (rev ?items) \<longrightarrow> contents e m k = contents e ?m k"
    proof (intro allI impI)
      fix k assume k: "k \<notin> (\<lambda>item. (mhr_page item, mhr_slot item)) ` set (rev ?items)"
      obtain p slot where ps: "k = (p, slot)" by (cases k)
      have "page_get e (?m ! page) slot = e" if "p = page"
      proof (rule ccontr)
        assume "page_get e (?m ! page) slot \<noteq> e"
        then obtain item where "item \<in> set ?items" "mhr_slot item = slot"
          using page_records_complete [OF wf] by blast
        with val k that ps show False by force
      qed
      then show "contents e m k = contents e ?m k"
        using True by (auto simp: m(2) contents_clear ps) (simp add: contents_def read_slot_def)
    qed
  qed
  show ?thesis
    unfolding extends_def clear_page_def Let_def if_P [OF True]
    using inner undo assms(2)
    by (intro exI [of _ "map (Pair t) ?items"]) (auto simp: comp_def)
next
  case False
  then show ?thesis using memory_history.extends_refl assms(1) by (simp add: clear_page_def Let_def)
qed

lemma clear_pages_extends:
  assumes "memory_wf (rec_inner r)" "T \<le> t"
  shows "memory_extends e T r (clear_pages e pages t r)"
  using assms(1)
proof (induction pages arbitrary: r)
  case Nil
  then show ?case by (simp add: clear_pages_def memory_history.extends_refl)
next
  case (Cons page pages)
  let ?r = "clear_page e (unat page) t r"
  have step: "memory_extends e T r ?r" by (rule clear_page_extends [OF Cons.prems assms(2)])
  then have "memory_wf (rec_inner ?r)" by (auto simp: extends_def)
  from memory_history.extends_trans [OF step Cons.IH [OF this]]
  show ?case by (simp add: clear_pages_def)
qed

lemma clear_pages_contents:
  "contents e (rec_inner (clear_pages e pages t r)) =
   (\<lambda>(p, slot). if p \<in> unat ` set pages then e else contents e (rec_inner r) (p, slot))"
proof (induction pages arbitrary: r)
  case Nil
  show ?case by (simp add: clear_pages_def)
next
  case (Cons page pages)
  have one: "contents e (rec_inner (clear_page e (unat page) t r)) =
      (\<lambda>(p, slot). if p = unat page then e else contents e (rec_inner r) (p, slot))"
    by (auto simp: clear_page_def Let_def contents_clear) (auto simp: contents_def read_slot_def)
  show ?case
    using Cons.IH [of "clear_page e (unat page) t r"] by (auto simp: clear_pages_def one fun_eq_iff)
qed

section \<open>Unaligned reads\<close>

definition byte_at :: "(nat \<Rightarrow> u256) \<Rightarrow> nat \<Rightarrow> u8" where
  "byte_at word i = word_be (word (i div 32)) ! (i mod 32)"

lemma extract_needed_bytes:
  "extract_needed_bytes_from_word (word_be (word n)) n start stop =
   map (byte_at word) [max (n * 32) start..<min (n * 32 + 32) (stop + 1)]"
proof (rule nth_equalityI)
  show "length (extract_needed_bytes_from_word (word_be (word n)) n start stop) =
      length (map (byte_at word) [max (n * 32) start..<min (n * 32 + 32) (stop + 1)])"
    by (auto simp: extract_needed_bytes_from_word_def Let_def)
next
  fix i assume "i < length (extract_needed_bytes_from_word (word_be (word n)) n start stop)"
  then have i: "i < min (n * 32 + 32) (stop + 1) - max (n * 32) start" "\<not> min (n * 32 + 31) stop < max (n * 32) start"
    by (auto simp: extract_needed_bytes_from_word_def Let_def split: if_splits)
  define k where "k = max (n * 32) start - n * 32 + i"
  have k: "max (n * 32) start + i = n * 32 + k" "k < 32" using i unfolding k_def by linarith+
  then have dm: "(max (n * 32) start + i) div 32 = n" "(max (n * 32) start + i) mod 32 = k" by simp_all
  have b: "max (n * 32) start + i < min (n * 32 + 32) (stop + 1)"
    "i < min (n * 32 + 31) stop - max (n * 32) start + 1" "max (n * 32) start - n * 32 \<le> 32"
    using i by linarith+
  have "map (byte_at word) [max (n * 32) start..<min (n * 32 + 32) (stop + 1)] ! i =
      byte_at word (max (n * 32) start + i)"
    using b(1) by (subst nth_map) (simp_all only: length_upt nth_upt less_diff_conv add.commute)
  then show "extract_needed_bytes_from_word (word_be (word n)) n start stop ! i =
      map (byte_at word) [max (n * 32) start..<min (n * 32 + 32) (stop + 1)] ! i"
    using i(2) b dm by (simp add: extract_needed_bytes_from_word_def Let_def byte_at_def k_def)
qed

lemma read_words_loop_bytes:
  assumes "start < (n + 1) * 32"
  shows "read_words_loop word start stop n = map (byte_at word) [max (n * 32) start..<stop + 1]"
  using assms
proof (induction word start stop n rule: read_words_loop.induct)
  case (1 word start stop n)
  show ?case
  proof (cases "n * 32 \<le> stop")
    case True
    have "read_words_loop word start stop n =
        map (byte_at word) [max (n * 32) start..<min (n * 32 + 32) (stop + 1)]
        @ map (byte_at word) [max ((n + 1) * 32) start..<stop + 1]"
      using 1 True by (subst read_words_loop.simps) (simp add: extract_needed_bytes)
    also have "max ((n + 1) * 32) start = n * 32 + 32" using "1.prems" by simp
    also have "map (byte_at word) [max (n * 32) start..<min (n * 32 + 32) (stop + 1)]
        @ map (byte_at word) [n * 32 + 32..<stop + 1] = map (byte_at word) [max (n * 32) start..<stop + 1]"
    proof (cases "n * 32 + 32 \<le> stop + 1")
      case True
      then have "[max (n * 32) start..<n * 32 + 32] @ [n * 32 + 32..<stop + 1] = [max (n * 32) start..<stop + 1]"
        using "1.prems" upt_add_eq_append [of "max (n * 32) start" "n * 32 + 32" "stop + 1 - (n * 32 + 32)"]
        by simp
      with True show ?thesis by (simp flip: map_append)
    qed simp
    finally show ?thesis .
  next
    case False
    then show ?thesis by (subst read_words_loop.simps) simp
  qed
qed

section \<open>Histories of the oracle\<close>

lemma framed_record_extends:
  assumes "framed_record delta item t r = Some r'" "T \<le> normalize_timestamp delta t"
  shows "framed_extends T r r'"
proof -
  obtain v where "apply_historic_record framed_apply delta item t r = Some (v, r')"
    using assms(1) by (auto simp: framed_record_def)
  from framed_history.extends_apply [OF TrueI this assms(2)] show ?thesis .
qed

lemma pop_times_extends:
  "pop_times delta n t r = Some r' \<Longrightarrow> T \<le> normalize_timestamp delta t \<Longrightarrow> framed_extends T r r'"
proof (induction n arbitrary: r)
  case 0
  then show ?case by (simp add: framed_history.extends_refl)
next
  case (Suc n)
  then obtain r1 where "framed_record delta FPop t r = Some r1" "pop_times delta n t r1 = Some r'"
    by (auto simp: bind_eq_Some_conv)
  with Suc framed_record_extends show ?case by (blast intro: framed_history.extends_trans)
qed

lemma extend_frame_extends:
  "extend_frame delta xs t r = Some r' \<Longrightarrow> T \<le> normalize_timestamp delta t \<Longrightarrow> framed_extends T r r'"
proof (induction xs arbitrary: r)
  case Nil
  then show ?case by (simp add: framed_history.extends_refl)
next
  case (Cons x xs)
  then obtain r1 where "push_to_frame delta x t r = Some r1" "extend_frame delta xs t r1 = Some r'"
    by (auto simp: bind_eq_Some_conv)
  with Cons framed_record_extends show ?case
    unfolding push_to_frame_def by (blast intro: framed_history.extends_trans)
qed

lemma normalize_le: "normalize_timestamp delta t \<le> t"
  unfolding normalize_timestamp_def by (rule word_sub_le) (simp add: word_le_nat_alt unat_mod)

datatype memory_op =
    DataQuery MemoryQuery
  | CodeQuery MemoryQuery
  | StartGlobalFrame u32 u32 u32
  | FinishGlobalFrame u32 address u32 u32 u32

fun memory_step :: "PrimitiveValue \<Rightarrow> u32 \<Rightarrow> memory_op \<Rightarrow> SimpleMemory \<Rightarrow> SimpleMemory option" where
  "memory_step e delta (DataQuery q) s = map_option snd (execute_partial_query e delta q s)"
| "memory_step e delta (CodeQuery q) s = map_option snd (specialized_code_query e delta q s)"
| "memory_step e delta (StartGlobalFrame base calldata t) s = start_global_frame delta base calldata t s"
| "memory_step e delta (FinishGlobalFrame base this rd_page rd_length t) s =
     finish_global_frame e delta base this rd_page rd_length t s"

fun memory_op_time :: "memory_op \<Rightarrow> u32" where
  "memory_op_time (DataQuery q) = mq_timestamp q"
| "memory_op_time (CodeQuery q) = mq_timestamp q"
| "memory_op_time (StartGlobalFrame base calldata t) = t"
| "memory_op_time (FinishGlobalFrame base this rd_page rd_length t) = t"

fun memory_run :: "PrimitiveValue \<Rightarrow> u32 \<Rightarrow> memory_op list \<Rightarrow> SimpleMemory \<Rightarrow> SimpleMemory option" where
  "memory_run e delta [] s = Some s"
| "memory_run e delta (op # ops) s = Option.bind (memory_step e delta op s) (memory_run e delta ops)"

definition sm_extends :: "PrimitiveValue \<Rightarrow> u32 \<Rightarrow> SimpleMemory \<Rightarrow> SimpleMemory \<Rightarrow> bool" where
  "sm_extends e T s s' \<longleftrightarrow>
     memory_extends e T (sm_memory s) (sm_memory s') \<and>
     framed_extends T (observable_pages s) (observable_pages s')"

lemma sm_extends_refl: "memory_wf (rec_inner (sm_memory s)) \<Longrightarrow> sm_extends e T s s"
  by (simp add: sm_extends_def memory_history.extends_refl framed_history.extends_refl)

lemma sm_extends_trans: "sm_extends e T s1 s2 \<Longrightarrow> sm_extends e T s2 s3 \<Longrightarrow> sm_extends e T s1 s3"
  unfolding sm_extends_def by (blast intro: memory_history.extends_trans framed_history.extends_trans)

lemma sm_extends_wf: "sm_extends e T s s' \<Longrightarrow> memory_wf (rec_inner (sm_memory s'))"
  by (auto simp: sm_extends_def extends_def)

lemma perform_query_extends:
  assumes "memory_wf (rec_inner (sm_memory s))" "perform_query e delta q s = Some (q', s')"
    "T \<le> normalize_timestamp delta (mq_timestamp q)"
  shows "sm_extends e T s s'"
proof (cases "mq_rw_flag q")
  case True
  then obtain v m where "write_to_memory e delta (unat (mq_page q)) (unat (mq_index q))
      \<lparr>pv_value = mq_value q, pv_is_pointer = mq_value_is_pointer q\<rparr> (mq_timestamp q) (sm_memory s) = Some (v, m)"
    "s' = s\<lparr>sm_memory := m\<rparr>"
    using assms(2) by (auto simp: perform_query_def sm_write_def Let_def)
  with memory_history.extends_apply [OF assms(1) _ assms(3)] show ?thesis
    by (simp add: sm_extends_def write_to_memory_def framed_history.extends_refl)
next
  case False
  with assms show ?thesis by (auto simp: perform_query_def Let_def intro: sm_extends_refl)
qed

lemma start_global_frame_extends:
  assumes "memory_wf (rec_inner (sm_memory s))" "start_global_frame delta base calldata t s = Some s'"
    "T \<le> normalize_timestamp delta t"
  shows "sm_extends e T s s'"
proof -
  obtain p1 p2 where p: "push_frame delta t (observable_pages s) = Some p1"
    "extend_frame delta [calldata, stack_page_from_base base, heap_page_from_base base,
       aux_heap_page_from_base base] t p1 = Some p2" "s' = s\<lparr>observable_pages := p2\<rparr>"
    using assms(2) by (auto simp: start_global_frame_def bind_eq_Some_conv simp del: extend_frame.simps)
  have "framed_extends T (observable_pages s) p2"
    using framed_history.extends_trans [OF framed_record_extends extend_frame_extends] p(1, 2) assms(3)
    unfolding push_frame_def by blast
  with p(3) assms(1) show ?thesis by (simp add: sm_extends_def memory_history.extends_refl)
qed

lemma finish_global_frame_Some:
  assumes "finish_global_frame e delta base this rd_page rd_length t s = Some s'"
  obtains pages p1 p2 p3 where "current_frame (rec_inner (observable_pages s)) = Some pages"
    "clear_frame delta t (observable_pages s) = Some p1" "merge_frame delta t p1 = Some p2"
    "p3 = p2 \<or> push_to_frame delta rd_page t p2 = Some p3"
    "s' = \<lparr>sm_memory = clear_pages e (filter (\<lambda>page. base \<le> page \<and> page \<noteq> rd_page) pages) t (sm_memory s),
           observable_pages = p3\<rparr>"
  using assms by (auto simp: finish_global_frame_def Let_def bind_eq_Some_conv split: if_splits)

lemma finish_global_frame_extends:
  assumes "memory_wf (rec_inner (sm_memory s))"
    "finish_global_frame e delta base this rd_page rd_length t s = Some s'"
    "T \<le> normalize_timestamp delta t"
  shows "sm_extends e T s s'"
proof -
  obtain pages p1 p2 p3 where p: "clear_frame delta t (observable_pages s) = Some p1"
    "merge_frame delta t p1 = Some p2" "p3 = p2 \<or> push_to_frame delta rd_page t p2 = Some p3"
    and s': "s' = \<lparr>sm_memory = clear_pages e (filter (\<lambda>page. base \<le> page \<and> page \<noteq> rd_page) pages) t (sm_memory s),
           observable_pages = p3\<rparr>"
    by (rule finish_global_frame_Some [OF assms(2)])
  have "framed_extends T (observable_pages s) p1"
    using p(1) pop_times_extends [OF _ assms(3)] by (auto simp: clear_frame_def split: if_splits)
  moreover have "framed_extends T p1 p2"
    using p(2) framed_record_extends [OF _ assms(3)] by (simp add: merge_frame_def)
  moreover have "framed_extends T p2 p3"
    using p(3) framed_record_extends [OF _ assms(3)]
    by (auto simp: push_to_frame_def intro: framed_history.extends_refl)
  ultimately have "framed_extends T (observable_pages s) p3" by (blast intro: framed_history.extends_trans)
  moreover have "memory_extends e T (sm_memory s) (sm_memory s')"
    unfolding s' using clear_pages_extends [OF assms(1)] order_trans [OF assms(3) normalize_le] by simp
  ultimately show ?thesis by (simp add: sm_extends_def s')
qed

lemma memory_step_extends:
  assumes "memory_wf (rec_inner (sm_memory s))" "memory_step e delta op s = Some s'"
    "T \<le> normalize_timestamp delta (memory_op_time op)"
  shows "sm_extends e T s s'"
proof (cases op)
  case (DataQuery q)
  with assms perform_query_extends [OF assms(1), of e delta q] show ?thesis
    by (auto simp: execute_partial_query_def split: if_splits)
next
  case (CodeQuery q)
  with assms perform_query_extends [OF assms(1), of e delta q] show ?thesis
    by (auto simp: specialized_code_query_def split: if_splits)
next
  case (StartGlobalFrame base calldata t)
  with assms start_global_frame_extends show ?thesis by simp
next
  case (FinishGlobalFrame base this rd_page rd_length t)
  with assms finish_global_frame_extends show ?thesis by simp
qed

lemma memory_run_extends:
  "memory_wf (rec_inner (sm_memory s)) \<Longrightarrow> memory_run e delta ops s = Some s' \<Longrightarrow>
   \<forall>op \<in> set ops. T \<le> normalize_timestamp delta (memory_op_time op) \<Longrightarrow> sm_extends e T s s'"
proof (induction ops arbitrary: s)
  case Nil
  then show ?case by (simp add: sm_extends_refl)
next
  case (Cons op ops)
  then obtain s1 where s1: "memory_step e delta op s = Some s1" "memory_run e delta ops s1 = Some s'"
    by (auto simp: bind_eq_Some_conv)
  have step: "sm_extends e T s s1" using memory_step_extends [OF Cons.prems(1) s1(1)] Cons.prems(3) by simp
  from Cons.IH [OF sm_extends_wf [OF step] s1(2)] Cons.prems(3) show ?case
    by (auto intro: sm_extends_trans [OF step])
qed

section \<open>Properties\<close>

text \<open>C28. Rolling the memory back restores it. If the recorded histories end before a time \<open>T\<close>, then
  after any operations of the oracle that succeed and whose cycles start at or after \<open>T\<close>, writes, call
  frames and the clearing of pages included, \<open>rollback_to_timestamp T\<close> does not panic, every slot of
  every page has the value it had, and the stack of observable pages and both histories are as before.\<close>
theorem memory_rollback_restores:
  assumes "memory_wf (rec_inner (sm_memory s))" "memory_run e delta ops s = Some s'"
    "\<forall>op \<in> set ops. T \<le> normalize_timestamp delta (memory_op_time op)"
    "history_before T (sm_memory s)" "history_before T (observable_pages s)"
  shows "\<exists>s''. memory_rollback_to_timestamp e T s' = Some s'' \<and>
    (\<forall>page slot. sm_read_slot e page slot s'' = sm_read_slot e page slot s) \<and>
    rec_history (sm_memory s'') = rec_history (sm_memory s) \<and> observable_pages s'' = observable_pages s"
proof -
  have ext: "memory_extends e T (sm_memory s) (sm_memory s')"
    "framed_extends T (observable_pages s) (observable_pages s')"
    using memory_run_extends [OF assms(1-3)] by (simp_all add: sm_extends_def)
  obtain m where m: "rollback_to_timestamp (memory_apply e) T (sm_memory s') = Some m"
    "rec_history m = rec_history (sm_memory s)" "contents e (rec_inner m) = contents e (rec_inner (sm_memory s))"
    by (rule memory_history.rollback_extends [OF ext(1) assms(4)])
  obtain p where p: "rollback_to_timestamp framed_apply T (observable_pages s') = Some p"
    "rec_history p = rec_history (observable_pages s)" "rec_inner p = rec_inner (observable_pages s)"
    by (rule framed_history.rollback_extends [OF ext(2) assms(5)])
  have "p = observable_pages s" using p by simp
  moreover have "read_slot e (rec_inner m) page slot = read_slot e (rec_inner (sm_memory s)) page slot" for page slot
    using fun_cong [OF m(3), of "(page, slot)"] by (simp add: contents_def)
  ultimately show ?thesis
    using m(1, 2) p(1) by (simp add: memory_rollback_to_timestamp_def sm_read_slot_def)
qed

abbreviation sample_empty :: PrimitiveValue where
  "sample_empty \<equiv> \<lparr>pv_value = 0, pv_is_pointer = False\<rparr>"

abbreviation sample_memory_ops :: "memory_op list" where
  "sample_memory_ops \<equiv>
     [StartGlobalFrame 8 2 8,
      DataQuery \<lparr>mq_timestamp = 13, mq_memory_type = Heap, mq_page = 10, mq_index = 70, mq_value = 99,
        mq_value_is_pointer = False, mq_rw_flag = True\<rparr>,
      FinishGlobalFrame 8 1 9 0 16]"

theorem memory_rollback_restores_witness:
  "\<exists>s' s''. memory_run sample_empty 4 sample_memory_ops simple_memory_default = Some s' \<and>
    memory_rollback_to_timestamp sample_empty 8 s' = Some s'' \<and>
    (\<forall>page slot. sm_read_slot sample_empty page slot s'' = sm_read_slot sample_empty page slot simple_memory_default)"
proof -
  have "memory_run sample_empty 4 sample_memory_ops simple_memory_default \<noteq> None" by code_simp
  then obtain s' where s': "memory_run sample_empty 4 sample_memory_ops simple_memory_default = Some s'" by blast
  from memory_rollback_restores [OF _ s', of 8]
  have "\<exists>s''. memory_rollback_to_timestamp sample_empty 8 s' = Some s'' \<and>
    (\<forall>page slot. sm_read_slot sample_empty page slot s'' = sm_read_slot sample_empty page slot simple_memory_default)"
    by (auto simp: simple_memory_default_def from_inner_def memory_wf_def history_before_def
        normalize_timestamp_def)
  with s' show ?thesis by blast
qed



text \<open>C30. Unaligned reads return the bytes of the page: \<open>read_unaligned_bytes\<close> never panics, and returns,
  for every offset and length, the bytes at the offsets from the start on of the big-endian words of
  the page.\<close>
theorem read_unaligned_bytes_correct:
  "read_unaligned_bytes e page start len s =
     Some (map (byte_at (\<lambda>w. pv_value (sm_read_slot e page w s))) [start..<start + len])"
proof (cases "len = 0")
  case True
  then show ?thesis by (simp add: read_unaligned_bytes_def)
next
  case False
  have "start < (start div 32 + 1) * 32" "max (start div 32 * 32) start = start"
    by (simp_all add: max_def dividend_less_div_times)
  with False show ?thesis
    using read_words_loop_bytes [of start "start div 32" "\<lambda>w. pv_value (sm_read_slot e page w s)" "start + len - 1"]
    by (simp add: read_unaligned_bytes_def)
qed

end
