(* ===== verification/Reorg_Detector.thy ===== *)
theory Reorg_Detector
  imports Prelude
begin

text \<open>
  The reorg detector of an external node, \<^verbatim>\<open>core/node/reorg_detector/src/lib.rs\<close>: it compares the
  hashes of its own batches and L2 blocks with those of the main node and, on a mismatch, finds the
  last common batch by a binary search.

  The local database and the main node are outside: their answers are the fields of a \<open>NodeView\<close>, and
  the environment gives a view for every request, so that answers may change from one request to the
  next. An operation maps a state, which counts the requests made so far and lists the reported events,
  to a result or an error and the next state, or to \<open>None\<close> when it never returns. Numbers of batches and
  blocks are \<open>u32\<close> and wrap. The arguments that an RPC error records for printing are not kept.
\<close>

section \<open>Errors\<close>

text \<open>The errors of the JSON-RPC client, as far as \<^verbatim>\<open>web3_decl/src/error.rs\<close> tells them apart.\<close>

datatype ErrorCode = ServerIsBusy | InternalError | OtherErrorCode int

datatype ClientError =
    Client_Call ErrorCode | Client_Transport string | Client_RequestTimeout
  | Client_Custom string | Client_Other string

record EnrichedClientError =
  inner_error :: ClientError
  rpc_method :: string

definition ece_new :: "string \<Rightarrow> ClientError \<Rightarrow> EnrichedClientError" where
  "ece_new method err = \<lparr>inner_error = err, rpc_method = method\<rparr>"

definition ece_custom :: "string \<Rightarrow> string \<Rightarrow> EnrichedClientError" where
  "ece_custom message method = ece_new method (Client_Custom message)"

definition ece_is_retriable :: "EnrichedClientError \<Rightarrow> bool" where
  "ece_is_retriable err = (case inner_error err of
       Client_Transport _ \<Rightarrow> True
     | Client_RequestTimeout \<Rightarrow> True
     | Client_Call code \<Rightarrow> code = ServerIsBusy \<or> code = InternalError
     | _ \<Rightarrow> False)"

datatype MissingData = Missing_L2Block | Missing_Batch | Missing_RootHash

datatype InternalCause =
    DalError string
  | No_Header_For_L2_Block u32
  | No_Root_Hash_For_Batch u32
  | Batch_Without_L2_Blocks u32
  | All_Batches_Disappeared

datatype HashMatchError = Rpc EnrichedClientError | MissingData MissingData | Internal InternalCause

datatype ReorgError =
    HashMatch HashMatchError
  | EarliestL1BatchMismatch u32
  | EarliestL1BatchTruncated u32
  | ReorgDetected u32

fun hash_match_is_retriable :: "HashMatchError \<Rightarrow> bool" where
  "hash_match_is_retriable (Rpc err) = ece_is_retriable err"
| "hash_match_is_retriable (MissingData _) = True"
| "hash_match_is_retriable (Internal _) = False"

fun reorg_is_retriable :: "ReorgError \<Rightarrow> bool" where
  "reorg_is_retriable (HashMatch err) = hash_match_is_retriable err"
| "reorg_is_retriable _ = False"

section \<open>Requests and their sequencing\<close>

record NodeView =
  db_connection :: "string + unit"
  db_last_l1_batch_with_tree_data :: "string + u32 option"
  db_sealed_l2_block :: "string + u32 option"
  db_earliest_l1_batch_with_metadata :: "string + u32 option"
  db_l2_block_header_hash :: "u32 \<Rightarrow> string + h256 option"
  db_l1_batch_state_root :: "u32 \<Rightarrow> string + h256 option"
  db_l2_block_range_of_l1_batch :: "u32 \<Rightarrow> string + (u32 \<times> u32) option"
  rpc_get_block_number :: "ClientError + u64"
  rpc_get_l1_batch_number :: "ClientError + u64"
  rpc_get_block_by_number :: "u32 \<Rightarrow> ClientError + h256 option"
  rpc_get_l1_batch_details :: "u32 \<Rightarrow> ClientError + h256 option option"

datatype DetectorEvent =
    Initialized | UpdatedCorrectBlock u32 u32 | ReportedDivergence u32 | StartedShuttingDown
  | SleptFor nat

record DetectorState =
  det_clock :: nat
  det_events :: "DetectorEvent list"

type_synonym env = "nat \<Rightarrow> NodeView"
type_synonym ('e, 'a) io = "DetectorState \<Rightarrow> (('e + 'a) \<times> DetectorState) option"

definition ask :: "env \<Rightarrow> (NodeView \<Rightarrow> 'e + 'a) \<Rightarrow> ('e, 'a) io" where
  "ask env f s = Some (f (env (det_clock s)), s\<lparr>det_clock := Suc (det_clock s)\<rparr>)"

definition returnE :: "'a \<Rightarrow> ('e, 'a) io" where
  "returnE a s = Some (Inr a, s)"

definition raiseE :: "'e \<Rightarrow> ('e, 'a) io" where
  "raiseE e s = Some (Inl e, s)"

definition emit :: "DetectorEvent \<Rightarrow> ('e, unit) io" where
  "emit ev s = Some (Inr (), s\<lparr>det_events := det_events s @ [ev]\<rparr>)"

text \<open>\<open>attempt\<close> continues with the whole result, \<open>bindE\<close> is the operator \<^verbatim>\<open>?\<close> and \<open>map_err\<close> its conversion
  of the error.\<close>

definition attempt :: "('e, 'a) io \<Rightarrow> ('e + 'a \<Rightarrow> ('d, 'b) io) \<Rightarrow> ('d, 'b) io" where
  "attempt m k s = (case m s of None \<Rightarrow> None | Some (r, s') \<Rightarrow> k r s')"

definition bindE :: "('e, 'a) io \<Rightarrow> ('a \<Rightarrow> ('e, 'b) io) \<Rightarrow> ('e, 'b) io" where
  "bindE m k = attempt m (\<lambda>r. case r of Inl e \<Rightarrow> raiseE e | Inr a \<Rightarrow> k a)"

definition map_err :: "('d \<Rightarrow> 'e) \<Rightarrow> ('d, 'a) io \<Rightarrow> ('e, 'a) io" where
  "map_err f m = attempt m (\<lambda>r. case r of Inl e \<Rightarrow> raiseE (f e) | Inr a \<Rightarrow> returnE a)"

definition with_context :: "InternalCause \<Rightarrow> 'a option \<Rightarrow> (HashMatchError, 'a) io" where
  "with_context cause x = (case x of None \<Rightarrow> raiseE (Internal cause) | Some a \<Rightarrow> returnE a)"

definition from_dal :: "string \<Rightarrow> HashMatchError" where
  "from_dal err = Internal (DalError err)"

section \<open>The main node client\<close>

definition u32_try_from :: "u64 \<Rightarrow> (EnrichedClientError, u32) io" where
  "u32_try_from number =
     (if unat number < 2 ^ 32 then returnE (ucast number)
      else raiseE (ece_custom ''out of range integral type conversion attempted'' ''u32::try_from''))"

definition sealed_l2_block_number :: "env \<Rightarrow> (EnrichedClientError, u32) io" where
  "sealed_l2_block_number env =
     bindE (map_err (ece_new ''sealed_l2_block_number'') (ask env rpc_get_block_number)) u32_try_from"

definition sealed_l1_batch_number :: "env \<Rightarrow> (EnrichedClientError, u32) io" where
  "sealed_l1_batch_number env =
     bindE (map_err (ece_new ''sealed_l1_batch_number'') (ask env rpc_get_l1_batch_number)) u32_try_from"

definition l2_block_hash :: "env \<Rightarrow> u32 \<Rightarrow> (EnrichedClientError, h256 option) io" where
  "l2_block_hash env number =
     map_err (ece_new ''l2_block_hash'') (ask env (\<lambda>v. rpc_get_block_by_number v number))"

definition l1_batch_root_hash :: "env \<Rightarrow> u32 \<Rightarrow> (EnrichedClientError, MissingData + h256) io" where
  "l1_batch_root_hash env number =
     bindE (map_err (ece_new ''l1_batch_root_hash'') (ask env (\<lambda>v. rpc_get_l1_batch_details v number)))
       (\<lambda>batch. case batch of
            None \<Rightarrow> returnE (Inl Missing_Batch)
          | Some None \<Rightarrow> returnE (Inl Missing_RootHash)
          | Some (Some root_hash) \<Rightarrow> returnE (Inr root_hash))"

section \<open>Comparing hashes\<close>

definition l2_block_hashes_match :: "env \<Rightarrow> u32 \<Rightarrow> (HashMatchError, bool) io" where
  "l2_block_hashes_match env l2_block =
     bindE (map_err from_dal (ask env db_connection)) (\<lambda>_.
     bindE (map_err from_dal (ask env (\<lambda>v. db_l2_block_header_hash v l2_block))) (\<lambda>header.
     bindE (with_context (No_Header_For_L2_Block l2_block) header) (\<lambda>local_hash.
     bindE (map_err Rpc (l2_block_hash env l2_block)) (\<lambda>remote. case remote of
         None \<Rightarrow> raiseE (MissingData Missing_L2Block)
       | Some remote_hash \<Rightarrow> returnE (remote_hash = local_hash)))))"

definition root_hashes_match :: "env \<Rightarrow> u32 \<Rightarrow> (HashMatchError, bool) io" where
  "root_hashes_match env l1_batch =
     bindE (map_err from_dal (ask env db_connection)) (\<lambda>_.
     bindE (map_err from_dal (ask env (\<lambda>v. db_l1_batch_state_root v l1_batch))) (\<lambda>root.
     bindE (with_context (No_Root_Hash_For_Batch l1_batch) root) (\<lambda>local_hash.
     bindE (map_err Rpc (l1_batch_root_hash env l1_batch)) (\<lambda>remote. case remote of
         Inl missing \<Rightarrow> raiseE (MissingData missing)
       | Inr remote_hash \<Rightarrow> returnE (remote_hash = local_hash)))))"

definition root_hashes_and_contents_match :: "env \<Rightarrow> u32 \<Rightarrow> (HashMatchError, bool) io" where
  "root_hashes_and_contents_match env l1_batch =
     bindE (root_hashes_match env l1_batch) (\<lambda>matches.
     if \<not> matches then returnE False
     else bindE (map_err from_dal (ask env db_connection)) (\<lambda>_.
       bindE (map_err from_dal (ask env (\<lambda>v. db_l2_block_range_of_l1_batch v l1_batch))) (\<lambda>range.
       bindE (with_context (Batch_Without_L2_Blocks l1_batch) range) (\<lambda>(_, last_l2_block_in_batch).
       l2_block_hashes_match env last_l2_block_in_batch))))"

section \<open>Localizing a reorg\<close>

partial_function (option) binary_search_with ::
    "(u32 \<Rightarrow> ('e, bool) io) \<Rightarrow> u32 \<Rightarrow> u32 \<Rightarrow> ('e, u32) io" where
  "binary_search_with predicate left right s =
     (if left + 1 < right
      then let middle = (left + right) div 2
           in (case predicate middle s of
                 None \<Rightarrow> None
               | Some (Inl e, s') \<Rightarrow> Some (Inl e, s')
               | Some (Inr b, s') \<Rightarrow>
                   if b then binary_search_with predicate middle right s'
                   else binary_search_with predicate left middle s')
      else Some (Inr left, s))"

definition reorg_predicate :: "env \<Rightarrow> u32 \<Rightarrow> (HashMatchError, bool) io" where
  "reorg_predicate env number =
     attempt (root_hashes_and_contents_match env number) (\<lambda>r. case r of
         Inl (MissingData _) \<Rightarrow> returnE True
       | Inl e \<Rightarrow> raiseE e
       | Inr b \<Rightarrow> returnE b)"

definition detect_reorg :: "env \<Rightarrow> u32 \<Rightarrow> u32 \<Rightarrow> (HashMatchError, u32) io" where
  "detect_reorg env known_valid_l1_batch diverged_l1_batch =
     binary_search_with (reorg_predicate env) known_valid_l1_batch diverged_l1_batch"

definition localize_reorg :: "env \<Rightarrow> u32 \<Rightarrow> (ReorgError, unit) io" where
  "localize_reorg env diverged_l1_batch =
     bindE (map_err (HashMatch \<circ> from_dal) (ask env db_connection)) (\<lambda>_.
     bindE (map_err (HashMatch \<circ> from_dal) (ask env db_earliest_l1_batch_with_metadata)) (\<lambda>first.
     bindE (map_err HashMatch (with_context All_Batches_Disappeared first)) (\<lambda>first_l1_batch.
     attempt (root_hashes_match env first_l1_batch) (\<lambda>r. case r of
         Inr True \<Rightarrow>
           bindE (map_err HashMatch (detect_reorg env first_l1_batch diverged_l1_batch))
             (\<lambda>last_correct_l1_batch. raiseE (ReorgDetected last_correct_l1_batch))
       | Inr False \<Rightarrow> raiseE (EarliestL1BatchMismatch first_l1_batch)
       | Inl (MissingData _) \<Rightarrow> raiseE (EarliestL1BatchTruncated first_l1_batch)
       | Inl err \<Rightarrow> raiseE (HashMatch err)))))"

definition conclude_check :: "env \<Rightarrow> u32 \<Rightarrow> u32 \<Rightarrow> bool \<Rightarrow> bool \<Rightarrow> (ReorgError, unit) io" where
  "conclude_check env checked_l1_batch checked_l2_block roots_match blocks_match =
     (if roots_match \<and> blocks_match
      then emit (UpdatedCorrectBlock checked_l2_block checked_l1_batch)
      else let diverged_l1_batch = checked_l1_batch + (if roots_match then 1 else 0)
           in bindE (emit (ReportedDivergence diverged_l1_batch)) (\<lambda>_.
              localize_reorg env diverged_l1_batch))"

definition compare_tips :: "env \<Rightarrow> u32 \<Rightarrow> u32 \<Rightarrow> (ReorgError, unit) io" where
  "compare_tips env local_l1_batch local_l2_block =
     bindE (map_err (HashMatch \<circ> Rpc) (sealed_l1_batch_number env)) (\<lambda>remote_l1_batch.
     bindE (map_err (HashMatch \<circ> Rpc) (sealed_l2_block_number env)) (\<lambda>remote_l2_block.
     let checked_l1_batch = min local_l1_batch remote_l1_batch;
         checked_l2_block = min local_l2_block remote_l2_block
     in bindE (map_err HashMatch (root_hashes_match env checked_l1_batch)) (\<lambda>roots_match.
        bindE (map_err HashMatch (l2_block_hashes_match env checked_l2_block)) (\<lambda>blocks_match.
        conclude_check env checked_l1_batch checked_l2_block roots_match blocks_match))))"

definition check_consistency :: "env \<Rightarrow> (ReorgError, unit) io" where
  "check_consistency env =
     bindE (map_err (HashMatch \<circ> from_dal) (ask env db_connection)) (\<lambda>_.
     bindE (map_err (HashMatch \<circ> from_dal) (ask env db_last_l1_batch_with_tree_data)) (\<lambda>local_batch.
     case local_batch of
       None \<Rightarrow> returnE ()
     | Some local_l1_batch \<Rightarrow>
         bindE (map_err (HashMatch \<circ> from_dal) (ask env db_sealed_l2_block)) (\<lambda>local_block.
         case local_block of
           None \<Rightarrow> returnE ()
         | Some local_l2_block \<Rightarrow> compare_tips env local_l1_batch local_l2_block)))"

section \<open>The loop\<close>

text \<open>The stop signal: its value at the head of each round, and whether it changes during the sleep that
  ends the round.\<close>

record StopReceiver =
  stop_value :: "nat \<Rightarrow> bool"
  stop_changed :: "nat \<Rightarrow> bool"

abbreviation (input) DEFAULT_SLEEP_INTERVAL :: nat where
  "DEFAULT_SLEEP_INTERVAL \<equiv> 5000000000"

text \<open>What a round does after its check: return, or sleep for some nanoseconds.\<close>

definition after_check :: "nat \<Rightarrow> bool \<Rightarrow> ReorgError + unit \<Rightarrow> (ReorgError + unit) + nat" where
  "after_check sleep_interval stop_after_success r = (case r of
       Inl err \<Rightarrow>
         if err = HashMatch (MissingData Missing_RootHash) then Inr (sleep_interval div 10)
         else if reorg_is_retriable err then Inr sleep_interval
         else Inl (Inl err)
     | Inr _ \<Rightarrow> if stop_after_success then Inl (Inr ()) else Inr sleep_interval)"

partial_function (option) run_inner ::
    "env \<Rightarrow> nat \<Rightarrow> StopReceiver \<Rightarrow> bool \<Rightarrow> nat \<Rightarrow> (ReorgError, unit) io" where
  "run_inner env sleep_interval sig stop_after_success i s =
     (if stop_value sig i then Some (Inr (), s)
      else case check_consistency env s of
        None \<Rightarrow> None
      | Some (r, s') \<Rightarrow>
          (case after_check sleep_interval stop_after_success r of
             Inl result \<Rightarrow> Some (result, s')
           | Inr d \<Rightarrow>
               let s'' = s'\<lparr>det_events := det_events s' @ [SleptFor d]\<rparr>
               in if stop_changed sig i then Some (Inr (), s'')
                  else run_inner env sleep_interval sig stop_after_success (Suc i) s''))"

definition run_once :: "env \<Rightarrow> nat \<Rightarrow> StopReceiver \<Rightarrow> (ReorgError, unit) io" where
  "run_once env sleep_interval sig = run_inner env sleep_interval sig True 0"

definition run_detector :: "env \<Rightarrow> nat \<Rightarrow> StopReceiver \<Rightarrow> (ReorgError, unit) io" where
  "run_detector env sleep_interval sig =
     bindE (emit Initialized) (\<lambda>_.
     bindE (run_inner env sleep_interval sig False 0) (\<lambda>_.
     emit StartedShuttingDown))"

section \<open>Reasoning about operations\<close>

text \<open>\<open>runs m s Q\<close>: the operation \<open>m\<close> returns from \<open>s\<close>, and \<open>Q\<close> holds of its result and its final state.
  The rules below compute it for every construct.\<close>

definition runs :: "('e, 'a) io \<Rightarrow> DetectorState \<Rightarrow> ('e + 'a \<Rightarrow> DetectorState \<Rightarrow> bool) \<Rightarrow> bool" where
  "runs m s Q \<longleftrightarrow> (case m s of None \<Rightarrow> False | Some (r, s') \<Rightarrow> Q r s')"

named_theorems wp_simps \<open>weakest preconditions of the sequencing operators\<close>

lemma runs_ask [wp_simps]:
  "runs (ask env f) s Q \<longleftrightarrow> Q (f (env (det_clock s))) (s\<lparr>det_clock := Suc (det_clock s)\<rparr>)"
  by (simp add: runs_def ask_def)

lemma runs_returnE [wp_simps]: "runs (returnE a) s Q \<longleftrightarrow> Q (Inr a) s"
  by (simp add: runs_def returnE_def)

lemma runs_raiseE [wp_simps]: "runs (raiseE e) s Q \<longleftrightarrow> Q (Inl e) s"
  by (simp add: runs_def raiseE_def)

lemma runs_emit [wp_simps]: "runs (emit ev) s Q \<longleftrightarrow> Q (Inr ()) (s\<lparr>det_events := det_events s @ [ev]\<rparr>)"
  by (simp add: runs_def emit_def)

lemma runs_attempt [wp_simps]: "runs (attempt m k) s Q \<longleftrightarrow> runs m s (\<lambda>r s'. runs (k r) s' Q)"
  by (auto simp: runs_def attempt_def split: option.splits)

lemma runs_bindE [wp_simps]:
  "runs (bindE m k) s Q \<longleftrightarrow>
     runs m s (\<lambda>r s'. case r of Inl e \<Rightarrow> Q (Inl e) s' | Inr a \<Rightarrow> runs (k a) s' Q)"
proof -
  have "(\<lambda>r s'. runs (case r of Inl e \<Rightarrow> raiseE e | Inr a \<Rightarrow> k a) s' Q) =
    (\<lambda>r s'. case r of Inl e \<Rightarrow> Q (Inl e) s' | Inr a \<Rightarrow> runs (k a) s' Q)"
    by (intro ext) (simp add: wp_simps split: sum.split)
  then show ?thesis by (simp add: bindE_def runs_attempt)
qed

lemma runs_map_err [wp_simps]:
  "runs (map_err f m) s Q \<longleftrightarrow>
     runs m s (\<lambda>r. Q (case r of Inl e \<Rightarrow> Inl (f e) | Inr a \<Rightarrow> Inr a))"
proof -
  have "(\<lambda>r s'. runs (case r of Inl e \<Rightarrow> raiseE (f e) | Inr a \<Rightarrow> returnE a) s' Q) =
    (\<lambda>r. Q (case r of Inl e \<Rightarrow> Inl (f e) | Inr a \<Rightarrow> Inr a))"
    by (intro ext) (simp add: wp_simps split: sum.split)
  then show ?thesis by (simp add: map_err_def runs_attempt)
qed

lemma runs_mono: "runs m s P \<Longrightarrow> (\<And>r s'. P r s' \<Longrightarrow> Q r s') \<Longrightarrow> runs m s Q"
  by (auto simp: runs_def split: option.splits)

lemma runs_conj: "runs m s P \<Longrightarrow> runs m s Q \<Longrightarrow> runs m s (\<lambda>r s'. P r s' \<and> Q r s')"
  by (auto simp: runs_def split: option.splits)

lemma runs_ex: "runs m s Q \<longleftrightarrow> (\<exists>r s'. m s = Some (r, s') \<and> Q r s')"
  by (auto simp: runs_def split: option.splits)

lemma runs_result: "runs m s Q \<Longrightarrow> m s = Some (r, s') \<Longrightarrow> Q r s'"
  by (simp add: runs_def)

section \<open>Requests and evidence\<close>

text \<open>Between the requests \<open>i\<close> and \<open>j\<close> the node got two different hashes for the same batch or the same
  L2 block, the local one and directly afterwards the one of the main node.\<close>

definition mismatch_seen :: "env \<Rightarrow> nat \<Rightarrow> nat \<Rightarrow> bool" where
  "mismatch_seen env i j \<longleftrightarrow> (\<exists>n h h'. i \<le> n \<and> Suc n < j \<and> h \<noteq> h' \<and>
     ((\<exists>b. db_l1_batch_state_root (env n) b = Inr (Some h) \<and>
           rpc_get_l1_batch_details (env (Suc n)) b = Inr (Some (Some h'))) \<or>
      (\<exists>b. db_l2_block_header_hash (env n) b = Inr (Some h) \<and>
           rpc_get_block_by_number (env (Suc n)) b = Inr (Some h'))))"

lemma mismatch_seen_mono: "mismatch_seen env i j \<Longrightarrow> i' \<le> i \<Longrightarrow> j \<le> j' \<Longrightarrow> mismatch_seen env i' j'"
  unfolding mismatch_seen_def by (meson le_trans less_le_trans)

text \<open>An operation that makes at most \<open>c\<close> requests.\<close>

definition requests :: "nat \<Rightarrow> DetectorState \<Rightarrow> DetectorState \<Rightarrow> bool" where
  "requests c s s' \<longleftrightarrow> det_clock s \<le> det_clock s' \<and> det_clock s' \<le> det_clock s + c"

lemma mismatch_root:
  "db_l1_batch_state_root (env n) b = Inr (Some h) \<Longrightarrow>
   rpc_get_l1_batch_details (env (Suc n)) b = Inr (Some (Some h')) \<Longrightarrow> h' \<noteq> h \<Longrightarrow>
   i \<le> n \<Longrightarrow> Suc n < j \<Longrightarrow> mismatch_seen env i j"
  unfolding mismatch_seen_def by metis

lemma mismatch_block:
  "db_l2_block_header_hash (env n) b = Inr (Some h) \<Longrightarrow>
   rpc_get_block_by_number (env (Suc n)) b = Inr (Some h') \<Longrightarrow> h' \<noteq> h \<Longrightarrow>
   i \<le> n \<Longrightarrow> Suc n < j \<Longrightarrow> mismatch_seen env i j"
  unfolding mismatch_seen_def by metis

lemma root_hashes_match_runs:
  "runs (root_hashes_match env b) s (\<lambda>r s'. requests 3 s s' \<and>
     (r = Inr False \<longrightarrow> mismatch_seen env (det_clock s) (det_clock s')))"
  unfolding root_hashes_match_def l1_batch_root_hash_def with_context_def
  by (simp add: wp_simps requests_def mismatch_root [of env "Suc (det_clock s)"]
      split: sum.split option.split)

lemma l2_block_hashes_match_runs:
  "runs (l2_block_hashes_match env b) s (\<lambda>r s'. requests 3 s s' \<and>
     (r = Inr False \<longrightarrow> mismatch_seen env (det_clock s) (det_clock s')))"
  unfolding l2_block_hashes_match_def l2_block_hash_def with_context_def
  by (simp add: wp_simps requests_def mismatch_block [of env "Suc (det_clock s)"]
      split: sum.split option.split)

lemma requests_trans [trans]: "requests c s t \<Longrightarrow> requests d t u \<Longrightarrow> requests (c + d) s u"
  by (simp add: requests_def)

lemma requests_mono: "requests c s t \<Longrightarrow> c \<le> d \<Longrightarrow> requests d s t"
  by (simp add: requests_def)

lemma root_hashes_and_contents_match_runs:
  "runs (root_hashes_and_contents_match env b) s (\<lambda>r s'. requests 8 s s')"
proof -
  have l2: "runs (l2_block_hashes_match env l) s' (\<lambda>r s''. requests 3 s' s'')" for l s'
    by (rule runs_mono [OF l2_block_hashes_match_runs]) simp
  show ?thesis
    unfolding root_hashes_and_contents_match_def runs_bindE
    apply (rule runs_mono [OF root_hashes_match_runs])
    apply (auto simp: wp_simps with_context_def requests_def split: sum.split option.split
        intro!: runs_mono [OF l2])
    done
qed

lemma reorg_predicate_runs: "runs (reorg_predicate env b) s (\<lambda>r s'. requests 8 s s')"
  unfolding reorg_predicate_def runs_attempt
  by (rule runs_mono [OF root_hashes_and_contents_match_runs])
    (auto simp: wp_simps split: sum.split HashMatchError.split)

section \<open>The binary search\<close>

lemma runs_binary_search:
  "runs (binary_search_with predicate left right) s Q \<longleftrightarrow>
     (if left + 1 < right
      then runs (predicate ((left + right) div 2)) s (\<lambda>r s'. case r of
          Inl e \<Rightarrow> Q (Inl e) s'
        | Inr b \<Rightarrow> if b then runs (binary_search_with predicate ((left + right) div 2) right) s' Q
                  else runs (binary_search_with predicate left ((left + right) div 2)) s' Q)
      else Q (Inr left) s)"
  by (subst runs_def, subst binary_search_with.simps)
    (auto simp: runs_def Let_def split: option.splits sum.splits)

lemma binary_search_step:
  assumes "left + 1 < right" "middle = (left + right) div 2"
    "runs (predicate middle) s (\<lambda>r s'.
       (\<forall>e. r = Inl e \<longrightarrow> Q (Inl e) s') \<and>
       (r = Inr True \<longrightarrow> runs (binary_search_with predicate middle right) s' Q) \<and>
       (r = Inr False \<longrightarrow> runs (binary_search_with predicate left middle) s' Q))"
  shows "runs (binary_search_with predicate left right) s Q"
  using assms(3) unfolding runs_binary_search [of predicate left right]
  by (simp only: assms(1,2) if_True) (erule runs_mono, auto split: sum.split)

text \<open>For ends up to \<open>2 ^ 31\<close> the sum does not wrap around, the middle lies strictly between the ends and halves the gap.\<close>

lemma middle_props:
  assumes "(left :: u32) + 1 < right" "unat left \<le> 2 ^ 31" "unat right \<le> 2 ^ 31"
  shows "unat ((left + right) div 2) = (unat left + unat right) div 2"
    "unat left < (unat left + unat right) div 2" "(unat left + unat right) div 2 < unat right"
proof -
  have l: "unat (left + 1) = unat left + 1"
    using assms(2) by (simp add: unat_word_ariths)
  then have "unat left + 1 < unat right" using assms(1) by (simp add: word_less_nat_alt)
  then have s: "unat (left + right) = unat left + unat right"
    using assms(3) by (simp add: unat_word_ariths)
  show "unat ((left + right) div 2) = (unat left + unat right) div 2"
    using s by (simp add: unat_div)
  show "unat left < (unat left + unat right) div 2" "(unat left + unat right) div 2 < unat right"
    using assms(1) l by (simp_all add: word_less_nat_alt)
qed

text \<open>The search returns whenever its predicate does, after at most as many evaluations as the gap has
  binary digits.\<close>

lemma binary_search_returns:
  assumes pred: "\<And>m s. runs (predicate m) s (\<lambda>r s'. requests c s s')"
  shows "unat left \<le> 2 ^ 31 \<Longrightarrow> unat right \<le> 2 ^ 31 \<Longrightarrow>
    runs (binary_search_with predicate left right) s
      (\<lambda>r s'. requests (c * nat_bits (unat right - unat left - 1)) s s')"
proof (induction "unat right - unat left" arbitrary: left right s rule: less_induct)
  case less
  show ?case
  proof (cases "left + 1 < right")
    case False
    then show ?thesis by (simp add: runs_binary_search [of _ left] requests_def)
  next
    case True
    define middle where "middle = (left + right) div 2"
    note m = middle_props [OF True less.prems, folded middle_def]
    define d where "d = unat right - unat left - 1"
    have "d \<noteq> 0" using m by (simp add: d_def)
    then have d: "nat_bits d = Suc (nat_bits (d div 2))" by (simp add: nat_bits.simps [of d])
    have up: "runs (binary_search_with predicate middle right) s'
        (\<lambda>r s''. requests (c * nat_bits (d div 2)) s' s'')" for s'
    proof -
      have "unat right - unat middle - 1 \<le> d div 2" using m by (simp add: d_def)
      then have "nat_bits (unat right - unat middle - 1) \<le> nat_bits (d div 2)" by (rule nat_bits_mono)
      moreover have "runs (binary_search_with predicate middle right) s'
          (\<lambda>r s''. requests (c * nat_bits (unat right - unat middle - 1)) s' s'')"
        using m less.prems by (intro less.hyps) auto
      ultimately show ?thesis by (auto elim!: runs_mono requests_mono)
    qed
    have down: "runs (binary_search_with predicate left middle) s'
        (\<lambda>r s''. requests (c * nat_bits (d div 2)) s' s'')" for s'
    proof -
      have "unat middle - unat left - 1 \<le> d div 2" using m by (simp add: d_def)
      then have "nat_bits (unat middle - unat left - 1) \<le> nat_bits (d div 2)" by (rule nat_bits_mono)
      moreover have "runs (binary_search_with predicate left middle) s'
          (\<lambda>r s''. requests (c * nat_bits (unat middle - unat left - 1)) s' s'')"
        using m less.prems by (intro less.hyps) auto
      ultimately show ?thesis by (auto elim!: runs_mono requests_mono)
    qed
    have "requests (c * nat_bits d) s s''"
      if "requests c s s'" "requests (c * nat_bits (d div 2)) s' s''" for s' s''
      using requests_trans [OF that] by (simp add: d)
    moreover have "requests (c * nat_bits d) s s'" if "requests c s s'" for s'
      using that by (rule requests_mono) (simp add: d)
    ultimately have "runs (binary_search_with predicate left right) s (\<lambda>r. requests (c * nat_bits d) s)"
      by (intro binary_search_step [OF True middle_def] runs_mono [OF pred])
        (auto intro: runs_mono [OF up] runs_mono [OF down])
    then show ?thesis by (simp add: d_def)
  qed
qed

text \<open>If the predicate answers, in all states that can arise, whether its argument is at most \<open>N\<close>, the
  search returns \<open>N\<close>.\<close>

lemma binary_search_finds:
  assumes pred: "\<And>m s. I s \<Longrightarrow> lo \<le> m \<Longrightarrow> m < hi \<Longrightarrow>
      runs (predicate m) s (\<lambda>r s'. r = Inr (m \<le> N) \<and> I s')"
  shows "unat left \<le> 2 ^ 31 \<Longrightarrow> unat right \<le> 2 ^ 31 \<Longrightarrow> left \<le> N \<Longrightarrow> N < right \<Longrightarrow> lo \<le> left \<Longrightarrow> right \<le> hi \<Longrightarrow> I s \<Longrightarrow>
    runs (binary_search_with predicate left right) s (\<lambda>r s'. r = Inr N \<and> I s')"
proof (induction "unat right - unat left" arbitrary: left right s rule: less_induct)
  case less
  show ?case
  proof (cases "left + 1 < right")
    case False
    have "unat (left + 1) = unat left + 1"
      using less.prems(1-4) by (simp add: unat_word_ariths word_less_nat_alt word_le_nat_alt)
    then have "left = N"
      using less.prems(3,4) False by (simp add: word_less_nat_alt word_le_nat_alt word_unat_eq_iff)
    then show ?thesis using False less.prems by (simp add: runs_binary_search [of _ N])
  next
    case True
    define middle where "middle = (left + right) div 2"
    note m = middle_props [OF True less.prems(1,2), folded middle_def]
    have mid: "lo \<le> middle" "middle < hi"
      using m less.prems(5,6) by (auto simp: word_less_nat_alt word_le_nat_alt)
    show ?thesis
    proof (cases "middle \<le> N")
      case le: True
      have "runs (binary_search_with predicate middle right) s' (\<lambda>r s''. r = Inr N \<and> I s'')" if "I s'" for s'
        using m less.prems(1,2,4,6) le mid that by (intro less.hyps) auto
      then show ?thesis
        using le
        by (intro binary_search_step [OF True middle_def] runs_mono [OF pred [OF less.prems(7) mid]]) auto
    next
      case gt: False
      then have "N < middle" by simp
      then have "runs (binary_search_with predicate left middle) s' (\<lambda>r s''. r = Inr N \<and> I s'')" if "I s'" for s'
        using m less.prems(1,2,3,5) mid that by (intro less.hyps) auto
      then show ?thesis
        using gt
        by (intro binary_search_step [OF True middle_def] runs_mono [OF pred [OF less.prems(7) mid]]) auto
    qed
  qed
qed

section \<open>One check\<close>

text \<open>The database holds no batch number close to \<open>2 ^ 31\<close>.\<close>

definition batch_numbers_small :: "env \<Rightarrow> bool" where
  "batch_numbers_small env \<longleftrightarrow> (\<forall>n b.
     db_last_l1_batch_with_tree_data (env n) = Inr (Some b) \<or>
     db_earliest_l1_batch_with_metadata (env n) = Inr (Some b) \<longrightarrow> unat b < 2 ^ 31)"

lemma localize_reorg_runs:
  assumes "batch_numbers_small env" "unat d \<le> 2 ^ 31"
  shows "runs (localize_reorg env d) s (\<lambda>r s'. requests 253 s s' \<and> det_clock s < det_clock s')"
proof -
  have search: "runs (detect_reorg env f d) t (\<lambda>r t'. requests 248 t t')" if "unat f < 2 ^ 31" for f t
  proof -
    have "unat d - unat f - 1 < 2 ^ 31" using assms(2) by simp
    then have "nat_bits (unat d - unat f - 1) \<le> 31" by (simp only: nat_bits_le_iff)
    then have bits: "8 * nat_bits (unat d - unat f - 1) \<le> 248" by simp
    show ?thesis
      unfolding detect_reorg_def
      by (rule runs_mono [OF binary_search_returns [OF reorg_predicate_runs]])
        (use that assms(2) requests_mono [OF _ bits] in auto)
  qed
  have small: "unat f < 2 ^ 31" if "db_earliest_l1_batch_with_metadata (env n) = Inr (Some f)" for n f
    using assms(1) that unfolding batch_numbers_small_def by blast
  have step: "requests 253 s t' \<and> det_clock s < det_clock t'"
    if "requests 3 (s\<lparr>det_clock := Suc (Suc (det_clock s))\<rparr>) t" "requests 248 t t'" for t t'
    using that by (simp add: requests_def)
  have early: "requests 253 s t \<and> det_clock s < det_clock t"
    if "requests 3 (s\<lparr>det_clock := Suc (Suc (det_clock s))\<rparr>) t" for t
    using that by (simp add: requests_def)
  show ?thesis
    unfolding localize_reorg_def
    apply (simp add: wp_simps with_context_def requests_def [of 253 s "s\<lparr>det_clock := _\<rparr>"]
        split: sum.split option.split)
    apply (intro allI impI)
    apply (rule runs_mono [OF root_hashes_match_runs])
    apply (auto simp: wp_simps split: sum.split bool.split HashMatchError.split
        intro!: runs_mono [OF search] dest: small step early)
    done
qed

lemma conclude_check_runs:
  assumes "batch_numbers_small env" "unat b < 2 ^ 31"
  shows "runs (conclude_check env b k m n) s
    (\<lambda>r s'. requests 253 s s' \<and> ((\<exists>N. r = Inl (ReorgDetected N)) \<longrightarrow> \<not> (m \<and> n)))"
proof (cases "m \<and> n")
  case True
  then show ?thesis by (simp add: conclude_check_def wp_simps requests_def)
next
  case False
  have "unat (b + (if m then 1 else 0)) \<le> 2 ^ 31" using assms(2) by (simp add: unat_word_ariths)
  with False show ?thesis
    unfolding conclude_check_def Let_def
    by (simp only: if_False wp_simps sum.case)
      (rule runs_mono [OF localize_reorg_runs [OF assms(1)]], auto simp: requests_def)
qed

lemma compare_tips_runs:
  assumes "batch_numbers_small env" "unat local < 2 ^ 31"
  shows "runs (compare_tips env local block) s (\<lambda>r s'. requests 261 s s' \<and>
    ((\<exists>N. r = Inl (ReorgDetected N)) \<longrightarrow> mismatch_seen env (det_clock s) (det_clock s')))"
proof -
  have d: "unat (min local b) < 2 ^ 31" for b
    using assms(2) by (auto simp: min_def word_le_nat_alt)
  let ?s = "s\<lparr>det_clock := Suc (Suc (det_clock s))\<rparr>"
  have tips: "requests 261 s w \<and> (R \<longrightarrow> mismatch_seen env (det_clock s) (det_clock w))"
    if "R \<longrightarrow> \<not> (m \<and> n)" "requests 3 ?s t" "requests 3 t u" "requests 253 u w"
      "\<not> m \<longrightarrow> mismatch_seen env (det_clock ?s) (det_clock t)"
      "\<not> n \<longrightarrow> mismatch_seen env (det_clock t) (det_clock u)" for t u w m n R
    using that mismatch_seen_mono [of env "det_clock ?s" "det_clock t" "det_clock s" "det_clock w"]
      mismatch_seen_mono [of env "det_clock t" "det_clock u" "det_clock s" "det_clock w"]
    by (auto simp: requests_def)
  show ?thesis
    unfolding compare_tips_def sealed_l1_batch_number_def sealed_l2_block_number_def u32_try_from_def
    apply (simp add: wp_simps Let_def requests_def [of 261 s "s\<lparr>det_clock := _\<rparr>"] split: sum.split)
    apply (intro allI impI)
    apply (rule runs_mono [OF root_hashes_match_runs])
    apply (simp split: sum.split)
    apply (intro conjI allI impI)
     apply (simp add: requests_def)
    apply (rule runs_mono [OF l2_block_hashes_match_runs])
    apply (simp split: sum.split)
    apply (intro conjI allI impI)
     apply (auto simp: requests_def split: sum.splits)[1]
    apply (rule runs_mono [OF conclude_check_runs [OF assms(1) d]])
    apply (elim conjE)
    apply (rule tips, assumption+)
     apply simp_all
    done
qed

lemma check_consistency_runs:
  assumes "batch_numbers_small env"
  shows "runs (check_consistency env) s (\<lambda>r s'. requests 264 s s' \<and> det_clock s < det_clock s' \<and>
    ((\<exists>N. r = Inl (ReorgDetected N)) \<longrightarrow> mismatch_seen env (det_clock s) (det_clock s')))"
proof -
  have small: "unat b < 2 ^ 31" if "db_last_l1_batch_with_tree_data (env n) = Inr (Some b)" for n b
    using assms that unfolding batch_numbers_small_def by blast
  let ?s = "s\<lparr>det_clock := Suc (Suc (Suc (det_clock s)))\<rparr>"
  have tips: "requests 264 s t \<and> det_clock s < det_clock t \<and>
      (R \<longrightarrow> mismatch_seen env (det_clock s) (det_clock t))"
    if "requests 261 ?s t" "R \<longrightarrow> mismatch_seen env (det_clock ?s) (det_clock t)" for t R
    using that mismatch_seen_mono [of env "det_clock ?s" "det_clock t" "det_clock s" "det_clock t"]
    by (auto simp: requests_def)
  show ?thesis
    unfolding check_consistency_def
    apply (simp add: wp_simps requests_def [of 264 s "s\<lparr>det_clock := _\<rparr>"] split: sum.split option.split)
    apply (intro allI impI)
    apply (rule runs_mono [OF compare_tips_runs [OF assms small]], assumption)
    apply (elim conjE)
    apply (rule tips; simp)
    done
qed

text \<open>C23. One check of the detector always comes to an end, whatever the database and the main node answer and
  even when their answers change between requests: as long as batch numbers are below \<open>2 ^ 31\<close>, it returns
  after at most 264 requests, and it reports a reorg only if during this check it received two
  different hashes for the same batch or for the same L2 block.\<close>
theorem check_consistency_returns:
  assumes "batch_numbers_small env"
  shows "\<exists>r s'. check_consistency env s = Some (r, s') \<and>
    det_clock s < det_clock s' \<and> det_clock s' \<le> det_clock s + 264 \<and>
    (\<forall>N. r = Inl (ReorgDetected N) \<longrightarrow> mismatch_seen env (det_clock s) (det_clock s'))"
  using check_consistency_runs [OF assms, of s] by (auto simp: runs_ex requests_def)

section \<open>A stable main node\<close>

definition root_known :: "NodeView \<Rightarrow> u32 \<Rightarrow> bool" where
  "root_known v b \<longleftrightarrow> (\<exists>h h'. db_l1_batch_state_root v b = Inr (Some h) \<and>
     rpc_get_l1_batch_details v b = Inr (Some (Some h')))"

definition root_agrees :: "NodeView \<Rightarrow> u32 \<Rightarrow> bool" where
  "root_agrees v b \<longleftrightarrow> (\<exists>h. db_l1_batch_state_root v b = Inr (Some h) \<and>
     rpc_get_l1_batch_details v b = Inr (Some (Some h)))"

definition block_known :: "NodeView \<Rightarrow> u32 \<Rightarrow> bool" where
  "block_known v b \<longleftrightarrow> (\<exists>h h'. db_l2_block_header_hash v b = Inr (Some h) \<and>
     rpc_get_block_by_number v b = Inr (Some h'))"

definition block_agrees :: "NodeView \<Rightarrow> u32 \<Rightarrow> bool" where
  "block_agrees v b \<longleftrightarrow> (\<exists>h. db_l2_block_header_hash v b = Inr (Some h) \<and>
     rpc_get_block_by_number v b = Inr (Some h))"

text \<open>A batch agrees with the main node when its root hash and the hash of its last block do.\<close>

definition batch_agrees :: "NodeView \<Rightarrow> u32 \<Rightarrow> bool" where
  "batch_agrees v b \<longleftrightarrow> root_agrees v b \<and>
     (\<exists>x y. db_l2_block_range_of_l1_batch v b = Inr (Some (x, y)) \<and> block_agrees v y)"

definition batch_known :: "NodeView \<Rightarrow> u32 \<Rightarrow> bool" where
  "batch_known v b \<longleftrightarrow> root_known v b \<and> (root_agrees v b \<longrightarrow>
     (\<exists>x y. db_l2_block_range_of_l1_batch v b = Inr (Some (x, y)) \<and> block_known v y))"

text \<open>Every request succeeds, the newest common batch or block disagrees, and the common batches agree
  exactly up to batch \<open>N\<close>.\<close>

definition fork_at :: "NodeView \<Rightarrow> u32 \<Rightarrow> bool" where
  "fork_at v N \<longleftrightarrow> db_connection v = Inr () \<and> (\<exists>local block first remote remote_block.
     db_last_l1_batch_with_tree_data v = Inr (Some local) \<and> db_sealed_l2_block v = Inr (Some block) \<and>
     db_earliest_l1_batch_with_metadata v = Inr (Some first) \<and>
     rpc_get_l1_batch_number v = Inr remote \<and> unat remote < 2 ^ 32 \<and>
     rpc_get_block_number v = Inr remote_block \<and> unat remote_block < 2 ^ 32 \<and>
     block_known v (min block (ucast remote_block)) \<and>
     \<not> (root_agrees v (min local (ucast remote)) \<and> block_agrees v (min block (ucast remote_block))) \<and>
     first \<le> N \<and> N \<le> min local (ucast remote) \<and>
     (\<forall>b. first \<le> b \<longrightarrow> b \<le> min local (ucast remote) \<longrightarrow>
        batch_known v b \<and> (batch_agrees v b \<longleftrightarrow> b \<le> N)))"

text \<open>From the request \<open>n\<close> on, the answers do not change any more.\<close>

definition stable_from :: "env \<Rightarrow> nat \<Rightarrow> NodeView \<Rightarrow> bool" where
  "stable_from env n v \<longleftrightarrow> (\<forall>k \<ge> n. env k = v)"

lemma stable_root_hashes_match:
  assumes "stable_from env n v" "n \<le> det_clock s" "db_connection v = Inr ()" "root_known v b"
  shows "runs (root_hashes_match env b) s (\<lambda>r s'. r = Inr (root_agrees v b) \<and> n \<le> det_clock s')"
  using assms unfolding root_hashes_match_def l1_batch_root_hash_def with_context_def
  by (auto simp: wp_simps stable_from_def root_known_def root_agrees_def)

lemma stable_l2_block_hashes_match:
  assumes "stable_from env n v" "n \<le> det_clock s" "db_connection v = Inr ()" "block_known v b"
  shows "runs (l2_block_hashes_match env b) s (\<lambda>r s'. r = Inr (block_agrees v b) \<and> n \<le> det_clock s')"
  using assms unfolding l2_block_hashes_match_def l2_block_hash_def with_context_def
  by (auto simp: wp_simps stable_from_def block_known_def block_agrees_def)

lemma stable_reorg_predicate:
  assumes "stable_from env n v" "n \<le> det_clock s" "db_connection v = Inr ()" "batch_known v b"
  shows "runs (reorg_predicate env b) s (\<lambda>r s'. r = Inr (batch_agrees v b) \<and> n \<le> det_clock s')"
proof -
  have root: "root_known v b" using assms(4) by (simp add: batch_known_def)
  note root_runs = stable_root_hashes_match [OF assms(1-3) root]
  show ?thesis
  proof (cases "root_agrees v b")
    case False
    then show ?thesis
      unfolding reorg_predicate_def root_hashes_and_contents_match_def runs_attempt runs_bindE
      by (intro runs_mono [OF root_runs]) (simp add: wp_simps batch_agrees_def)
  next
    case True
    then obtain x y where xy: "db_l2_block_range_of_l1_batch v b = Inr (Some (x, y))" "block_known v y"
      using assms(4) by (auto simp: batch_known_def)
    have eq: "batch_agrees v b \<longleftrightarrow> block_agrees v y" using True xy(1) by (auto simp: batch_agrees_def)
    have env: "env k = v" if "n \<le> k" for k using assms(1) that by (simp add: stable_from_def)
    show ?thesis
      unfolding reorg_predicate_def root_hashes_and_contents_match_def runs_attempt runs_bindE
      apply (rule runs_mono [OF root_runs])
      apply (clarsimp simp: wp_simps True env assms(3) xy(1) with_context_def)
      apply (rule runs_mono [OF stable_l2_block_hashes_match [OF assms(1) _ assms(3) xy(2)]])
       apply (auto simp: wp_simps eq)
      done
  qed
qed

lemma stable_localize_reorg:
  assumes "stable_from env n v" "n \<le> det_clock s" "db_connection v = Inr ()"
    "db_earliest_l1_batch_with_metadata v = Inr (Some first)"
    "unat first \<le> 2 ^ 31" "unat d \<le> 2 ^ 31" "first \<le> N" "N < d"
    and batches: "\<And>b. first \<le> b \<Longrightarrow> b < d \<Longrightarrow> batch_known v b \<and> (batch_agrees v b \<longleftrightarrow> b \<le> N)"
  shows "runs (localize_reorg env d) s (\<lambda>r s'. r = Inl (ReorgDetected N))"
proof -
  have env: "env k = v" if "n \<le> k" for k using assms(1) that by (simp add: stable_from_def)
  have "first < d" using assms(7,8) by simp
  then have first: "root_known v first" "root_agrees v first"
    using batches [of first] assms(7) by (simp_all add: batch_known_def batch_agrees_def)
  have search: "runs (detect_reorg env first d) t (\<lambda>r t'. r = Inr N \<and> n \<le> det_clock t')"
    if "n \<le> det_clock t" for t
    unfolding detect_reorg_def
  proof (rule binary_search_finds [of "\<lambda>t. n \<le> det_clock t" first d])
    fix m and u :: DetectorState
    assume "n \<le> det_clock u" "first \<le> m" "m < d"
    then show "runs (reorg_predicate env m) u (\<lambda>r u'. r = Inr (m \<le> N) \<and> n \<le> det_clock u')"
      using batches stable_reorg_predicate [OF assms(1) _ assms(3)] by fastforce
  qed (use assms that in auto)
  show ?thesis
    unfolding localize_reorg_def
    apply (simp add: wp_simps env le_SucI assms(2-4) with_context_def)
    apply (rule runs_mono [OF stable_root_hashes_match [OF assms(1) _ assms(3) first(1)]])
    using assms(2) apply simp
    apply (clarsimp simp: first(2) wp_simps)
    apply (rule runs_mono [OF search])
     apply (auto simp: wp_simps)
    done
qed

lemma stable_check:
  assumes "stable_from env n v" "n \<le> det_clock s" "fork_at v N" "batch_numbers_small env"
  shows "runs (check_consistency env) s (\<lambda>r s'. r = Inl (ReorgDetected N))"
proof -
  have env: "env k = v" if "n \<le> k" for k using assms(1) that by (simp add: stable_from_def)
  obtain local block first remote remote_block where conn: "db_connection v = Inr ()"
    and db: "db_last_l1_batch_with_tree_data v = Inr (Some local)" "db_sealed_l2_block v = Inr (Some block)"
      "db_earliest_l1_batch_with_metadata v = Inr (Some first)"
    and rpc: "rpc_get_l1_batch_number v = Inr remote" "unat remote < 2 ^ 32"
      "rpc_get_block_number v = Inr remote_block" "unat remote_block < 2 ^ 32"
    and tip: "block_known v (min block (ucast remote_block))"
      "\<not> (root_agrees v (min local (ucast remote)) \<and> block_agrees v (min block (ucast remote_block)))"
    and N: "first \<le> N" "N \<le> min local (ucast remote)"
    and batches: "\<And>b. first \<le> b \<Longrightarrow> b \<le> min local (ucast remote) \<Longrightarrow>
        batch_known v b \<and> (batch_agrees v b \<longleftrightarrow> b \<le> N)"
    using assms(3) unfolding fork_at_def by blast
  define checked where "checked = min local (ucast remote :: u32)"
  have "env n = v" by (simp add: env)
  then have "unat first < 2 ^ 31" "unat local < 2 ^ 31"
    using assms(4) db(1,3) unfolding batch_numbers_small_def by metis+
  then have small: "unat first < 2 ^ 31" "unat checked < 2 ^ 31"
    by (auto simp: checked_def min_def word_le_nat_alt)
  note batches = batches [folded checked_def]
  have "first \<le> checked" using N order_trans unfolding checked_def by blast
  then have at: "batch_known v checked" "batch_agrees v checked \<longleftrightarrow> checked \<le> N"
    using batches [of checked] by simp_all
  then have root: "root_known v checked" by (simp add: batch_known_def)
  define m where "m = root_agrees v checked"
  define d where "d = checked + (if m then 1 else 0)"
  have ud: "unat d = unat checked + (if m then 1 else 0)"
    using small(2) by (simp add: d_def unat_word_ariths)
  have "N \<noteq> checked" if "\<not> m"
    using that at(2) by (auto simp: m_def batch_agrees_def)
  then have Nd: "N < d"
    using N(2) ud by (auto simp: checked_def [symmetric] word_less_nat_alt word_le_nat_alt word_unat_eq_iff
        split: if_splits)
  have below: "b < d \<Longrightarrow> b \<le> checked" for b
    using ud by (auto simp: word_less_nat_alt word_le_nat_alt split: if_splits)
  have loc: "runs (localize_reorg env d) t (\<lambda>r t'. r = Inl (ReorgDetected N))" if "n \<le> det_clock t" for t
    using small ud N(1) Nd batches below checked_def
    by (intro stable_localize_reorg [OF assms(1) that conn db(3)]) auto
  have concl: "runs (conclude_check env checked k m b) t (\<lambda>r t'. r = Inl (ReorgDetected N))"
    if "n \<le> det_clock t" "\<not> (m \<and> b)" for t b k
    using that loc [of "t\<lparr>det_events := det_events t @ [ReportedDivergence d]\<rparr>"]
    unfolding conclude_check_def Let_def d_def [symmetric] by (simp only: if_False wp_simps sum.case) simp
  show ?thesis
    unfolding check_consistency_def compare_tips_def sealed_l1_batch_number_def
      sealed_l2_block_number_def u32_try_from_def
    using rpc(2,4)
    apply (simp add: wp_simps env le_SucI assms(2) conn db rpc Let_def checked_def [symmetric])
    apply (rule runs_mono [OF stable_root_hashes_match [OF assms(1) _ conn root]])
    using assms(2) apply simp
    apply (clarsimp simp: wp_simps)
    apply (rule runs_mono [OF stable_l2_block_hashes_match [OF assms(1) _ conn tip(1)]])
     apply simp
    apply (clarsimp simp: wp_simps m_def [symmetric])
    apply (rule concl)
    using tip(2) apply (auto simp: m_def checked_def)
    done
qed

section \<open>The loop of the detector\<close>

lemma run_inner_ends:
  assumes "batch_numbers_small env" "stable_from env n v" "fork_at v N"
    and no_stop: "\<And>i. \<not> stop_value sig i \<and> \<not> stop_changed sig i"
  shows "\<exists>e s'. run_inner env interval sig False i s = Some (Inl e, s') \<and> \<not> reorg_is_retriable e \<and>
    (n \<le> det_clock s \<longrightarrow> e = ReorgDetected N)"
proof (induction "n - det_clock s" arbitrary: i s rule: less_induct)
  case less
  obtain r s1 where check: "check_consistency env s = Some (r, s1)" "det_clock s < det_clock s1"
    using check_consistency_runs [OF assms(1), of s] by (auto simp: runs_ex)
  have found: "r = Inl (ReorgDetected N)" if "n \<le> det_clock s"
    using runs_result [OF stable_check [OF assms(2) that assms(3,1)] check(1)] .
  show ?case
  proof (cases "after_check interval False r")
    case (Inl result)
    then obtain e where e: "r = Inl e" "result = Inl e" "\<not> reorg_is_retriable e"
      by (auto simp: after_check_def split: sum.splits if_splits)
    then show ?thesis
      using Inl found by (subst run_inner.simps) (simp add: no_stop check(1))
  next
    case (Inr d)
    then have "\<not> n \<le> det_clock s" using found by (auto simp: after_check_def)
    moreover define s2 where "s2 = s1\<lparr>det_events := det_events s1 @ [SleptFor d]\<rparr>"
    ultimately have "n - det_clock s2 < n - det_clock s" using check(2) by simp
    from less [OF this, of "Suc i"] Inr \<open>\<not> n \<le> det_clock s\<close> show ?thesis
      by (subst run_inner.simps) (auto simp: no_stop check(1) Let_def s2_def)
  qed
qed

text \<open>C22. A lasting reorg is found. Suppose that from some request on the answers do not change any more,
  that they show a fork after batch \<open>N\<close>, and that nobody stops the detector. Then, whatever it was
  answered before, the detector ends with an error that is not retried; and if the answers were stable
  from the start, this error is the report of a reorg with \<open>N\<close> as the last correct batch.\<close>
theorem run_detector_finds_fork:
  assumes "batch_numbers_small env" "stable_from env n v" "fork_at v N"
    "\<forall>i. \<not> stop_value sig i \<and> \<not> stop_changed sig i"
  shows "\<exists>e s'. run_detector env interval sig s = Some (Inl e, s') \<and> \<not> reorg_is_retriable e \<and>
    (n \<le> det_clock s \<longrightarrow> e = ReorgDetected N)"
proof -
  let ?s = "s\<lparr>det_events := det_events s @ [Initialized]\<rparr>"
  obtain e s' where "run_inner env interval sig False 0 ?s = Some (Inl e, s')" "\<not> reorg_is_retriable e"
    "n \<le> det_clock s \<longrightarrow> e = ReorgDetected N"
    using run_inner_ends [OF assms(1-3), of sig interval 0 ?s] assms(4) by auto
  then show ?thesis
    by (auto simp: run_detector_def bindE_def attempt_def emit_def raiseE_def)
qed

text \<open>A main node that agrees with the local node up to batch 1 and has other batches 2 and 3.\<close>

definition example_view :: NodeView where
  "example_view = \<lparr>
     db_connection = Inr (),
     db_last_l1_batch_with_tree_data = Inr (Some 3),
     db_sealed_l2_block = Inr (Some 7),
     db_earliest_l1_batch_with_metadata = Inr (Some 0),
     db_l2_block_header_hash = (\<lambda>b. Inr (Some (ucast b))),
     db_l1_batch_state_root = (\<lambda>b. Inr (Some (ucast b))),
     db_l2_block_range_of_l1_batch = (\<lambda>b. Inr (Some (2 * b, 2 * b + 1))),
     rpc_get_block_number = Inr 9,
     rpc_get_l1_batch_number = Inr 4,
     rpc_get_block_by_number = (\<lambda>b. Inr (Some (ucast b))),
     rpc_get_l1_batch_details = (\<lambda>b. Inr (Some (Some (if b \<le> 1 then ucast b else ucast b + 1))))\<rparr>"

lemma example_view_small: "batch_numbers_small (\<lambda>_. example_view)"
  by (simp add: batch_numbers_small_def example_view_def)

lemma example_view_fork: "fork_at example_view 1"
  unfolding fork_at_def
  by (simp add: example_view_def batch_known_def batch_agrees_def root_known_def root_agrees_def
      block_known_def block_agrees_def min_def word_le_nat_alt)

theorem check_consistency_returns_witness:
  "batch_numbers_small (\<lambda>_. example_view) \<and>
   (\<exists>r s'. check_consistency (\<lambda>_. example_view) \<lparr>det_clock = 0, det_events = []\<rparr> = Some (r, s') \<and>
     0 < det_clock s' \<and> det_clock s' \<le> 264 \<and>
     (\<forall>N. r = Inl (ReorgDetected N) \<longrightarrow> mismatch_seen (\<lambda>_. example_view) 0 (det_clock s')))"
  using check_consistency_returns [OF example_view_small, of "\<lparr>det_clock = 0, det_events = []\<rparr>"]
    example_view_small by simp

theorem run_detector_finds_fork_witness:
  "\<exists>s'. run_detector (\<lambda>_. example_view) DEFAULT_SLEEP_INTERVAL
     \<lparr>stop_value = (\<lambda>_. False), stop_changed = (\<lambda>_. False)\<rparr> \<lparr>det_clock = 0, det_events = []\<rparr> =
     Some (Inl (ReorgDetected 1), s')"
proof -
  have "stable_from (\<lambda>_. example_view) 0 example_view" by (simp add: stable_from_def)
  from run_detector_finds_fork [OF example_view_small this example_view_fork,
      of "\<lparr>stop_value = (\<lambda>_. False), stop_changed = (\<lambda>_. False)\<rparr>" DEFAULT_SLEEP_INTERVAL
        "\<lparr>det_clock = 0, det_events = []\<rparr>"]
  show ?thesis by auto
qed

end
