(* ===== verification/Bytecode_Compression.thy ===== *)
theory Bytecode_Compression
  imports Utils "HOL-Library.Product_Lexorder"
begin

text \<open>
  Compression of contract bytecodes, \<^verbatim>\<open>core/lib/multivm/src/utils/bytecode.rs\<close>: the bytecode is split
  into chunks of 8 bytes, the distinct chunks form a dictionary ordered by popularity, and every chunk is
  replaced by its 2-byte index. The decoder is the one of the module's tests, which specifies the format.

  A hash map that the source iterates over is read in the order of its keys; the source sorts the
  entries right afterwards by values that are all different, so that the order of iteration does not
  matter.
\<close>

section \<open>Definitions\<close>

datatype FailedToCompressBytecodeError =
    DictionaryOverflow
  | InvalidBytecode InvalidBytecodeError

record CompressedBytecodeInfo =
  cb_original :: "u8 list"
  cb_compressed :: "u8 list"

definition fm_entries :: "('k::linorder, 'v) fmap \<Rightarrow> ('k \<times> 'v) list" where
  "fm_entries m = map (\<lambda>k. (k, the (fmlookup m k))) (sorted_list_of_set (fmdom' m))"

definition code_chunks :: "u8 list \<Rightarrow> u64 list option" where
  "code_chunks code =
     those (map (\<lambda>chunk_bytes. if length chunk_bytes = 8 then Some (word_from_be chunk_bytes) else None)
       (chunks 8 code))"

definition count_chunk :: "nat \<times> u64 \<Rightarrow> (u64, nat \<times> nat) fmap \<Rightarrow> (u64, nat \<times> nat) fmap" where
  "count_chunk pc statistic =
     (let (position, chunk) = pc;
          (n, first) = (case fmlookup statistic chunk of Some e \<Rightarrow> e | None \<Rightarrow> (0, position))
      in fmupd chunk (n + 1, first) statistic)"

definition chunk_statistic :: "u64 list \<Rightarrow> (u64, nat \<times> nat) fmap" where
  "chunk_statistic cs = fold count_chunk (List.enumerate 0 cs) fmempty"

definition statistic_sorted_by_value :: "u64 list \<Rightarrow> (u64 \<times> nat \<times> nat) list" where
  "statistic_sorted_by_value cs = sort_key snd (fm_entries (chunk_statistic cs))"

definition fill_dictionary :: "u64 list \<Rightarrow> (u64, u16) fmap" where
  "fill_dictionary cs =
     fold (\<lambda>chunk dictionary. fmupd chunk (of_nat (fmlen dictionary)) dictionary) cs fmempty"

definition compress_to_bytes :: "u8 list \<Rightarrow> (FailedToCompressBytecodeError + u8 list) option" where
  "compress_to_bytes code = (case validate_bytecode code of
       Inl e \<Rightarrow> Some (Inl (InvalidBytecode e))
     | Inr _ \<Rightarrow> do {
         cs \<leftarrow> code_chunks code;
         let sorted_statistic = statistic_sorted_by_value cs;
         if length sorted_statistic > 65535 then Some (Inl DictionaryOverflow)
         else do {
           let dictionary = fill_dictionary (map fst (rev sorted_statistic));
           encoded_data \<leftarrow> those (map (\<lambda>chunk. map_option word_be (fmlookup dictionary chunk)) cs);
           let entries = sort (map prod.swap (fm_entries dictionary));
           Some (Inr (word_be (of_nat (fmlen dictionary) :: u16)
             @ concat (map (\<lambda>(_, chunk). word_be chunk) entries) @ concat encoded_data))
         }
       })"

definition compress_bytecode ::
    "u8 list \<Rightarrow> (FailedToCompressBytecodeError + CompressedBytecodeInfo) option" where
  "compress_bytecode bytecode = (case compress_to_bytes bytecode of
       None \<Rightarrow> None
     | Some (Inl e) \<Rightarrow> Some (Inl e)
     | Some (Inr c) \<Rightarrow> Some (Inr \<lparr>cb_original = bytecode, cb_compressed = c\<rparr>))"

text \<open>The call that publishes a compressed bytecode: \<open>abi_encode\<close> is \<^verbatim>\<open>ethabi::encode\<close> of byte strings.\<close>

definition encode_call ::
    "(u8 list list \<Rightarrow> h256 option) \<Rightarrow> (u8 list list \<Rightarrow> u8 list) \<Rightarrow> CompressedBytecodeInfo \<Rightarrow> u8 list option" where
  "encode_call code_hash abi_encode bytecode = (case hash_bytecode code_hash (cb_original bytecode) of
       None \<Rightarrow> None
     | Some bytecode_hash \<Rightarrow>
         Some (word_be bytecode_hash @ replicate 32 0
           @ abi_encode [cb_original bytecode, cb_compressed bytecode]))"

text \<open>The decoder of the tests.\<close>

definition read_dictionary :: "u8 list \<Rightarrow> u64 list option" where
  "read_dictionary raw =
     (if length raw < 2 then None
      else let dictionary_len = unat (word_from_be (take 2 raw) :: u16)
           in if length raw < 2 + dictionary_len * 8 then None
              else Some (map (\<lambda>index. word_from_be (take 8 (drop (2 + index * 8) raw))) [0..<dictionary_len]))"

definition decompress_bytecode :: "u8 list \<Rightarrow> u8 list option" where
  "decompress_bytecode raw = do {
     dictionary \<leftarrow> read_dictionary raw;
     decompressed \<leftarrow> those (map (\<lambda>index_bytes.
         if length index_bytes \<noteq> 2 then None
         else let index = unat (word_from_be index_bytes :: u16)
              in if index < length dictionary then Some (word_be (dictionary ! index)) else None)
       (chunks 2 (drop (2 + length dictionary * 8) raw)));
     Some (concat decompressed)
   }"

section \<open>The statistic\<close>

lemma those_map_Some [simp]: "those (map (\<lambda>x. Some (f x)) xs) = Some (map f xs)"
  by (induction xs) auto

lemma those_map_cong: "(\<And>x. x \<in> set xs \<Longrightarrow> g x = Some (f x)) \<Longrightarrow> those (map g xs) = Some (map f xs)"
  by (induction xs) auto

lemma code_chunks_valid:
  assumes "8 dvd length code"
  shows "code_chunks code = Some (map word_from_be (chunks 8 code))"
  unfolding code_chunks_def
  by (rule those_map_cong) (use chunks_lengths [OF _ assms] in \<open>auto simp: list_all_iff\<close>)

lemma lookup_chunk_statistic:
  "fmlookup (chunk_statistic cs) c =
     (if c \<in> set cs then Some (count_list cs c, length (takeWhile (\<lambda>d. d \<noteq> c) cs)) else None)"
proof (induction cs arbitrary: c rule: rev_induct)
  case Nil
  then show ?case by (simp add: chunk_statistic_def)
next
  case (snoc d cs)
  have "chunk_statistic (cs @ [d]) = count_chunk (length cs, d) (chunk_statistic cs)"
    by (simp add: chunk_statistic_def enumerate_append_eq)
  then show ?case
    by (auto simp: snoc count_chunk_def takeWhile_append)
qed

lemma fm_entries_props:
  "distinct (map fst (fm_entries m))" "map fst (fm_entries m) = sorted_list_of_set (fmdom' m)"
  "set (fm_entries m) = {(k, v). fmlookup m k = Some v}"
proof -
  have f: "finite (fmdom' m)" by simp
  show fst: "map fst (fm_entries m) = sorted_list_of_set (fmdom' m)"
    by (simp add: fm_entries_def o_def)
  show "distinct (map fst (fm_entries m))" by (simp add: fst)
  show "set (fm_entries m) = {(k, v). fmlookup m k = Some v}"
    using f by (auto simp: fm_entries_def fmlookup_dom'_iff image_iff)
qed

lemma dom_chunk_statistic: "fmdom' (chunk_statistic cs) = set cs"
  by (auto simp: fmlookup_dom'_iff lookup_chunk_statistic split: if_splits)

text \<open>The dictionary lists every chunk once, the most frequent ones first.\<close>

lemma statistic_order:
  defines "ds \<equiv> \<lambda>cs. map fst (rev (statistic_sorted_by_value cs))"
  shows "distinct (ds cs)" "set (ds cs) = set cs"
    "sorted_wrt (\<lambda>c d. count_list cs d \<le> count_list cs c) (ds cs)"
proof -
  have d: "distinct (map fst (statistic_sorted_by_value cs))"
  proof -
    have "distinct (fm_entries (chunk_statistic cs))"
      "inj_on fst (set (fm_entries (chunk_statistic cs)))"
      using fm_entries_props(1) [of "chunk_statistic cs"] by (simp_all add: distinct_map)
    then show ?thesis by (simp add: statistic_sorted_by_value_def distinct_map)
  qed
  then show "distinct (ds cs)" by (simp add: ds_def rev_map [symmetric])
  have entries: "set (statistic_sorted_by_value cs) = {(k, v). fmlookup (chunk_statistic cs) k = Some v}"
    by (simp add: statistic_sorted_by_value_def fm_entries_props(3))
  then show "set (ds cs) = set cs"
    by (force simp: ds_def lookup_chunk_statistic split: if_splits)
  have "sorted (map snd (statistic_sorted_by_value cs))"
    by (simp add: statistic_sorted_by_value_def)
  then have "sorted_wrt (\<lambda>x y. snd x \<le> snd y) (statistic_sorted_by_value cs)"
    by (simp add: sorted_map)
  then have "sorted_wrt (\<lambda>x y. count_list cs (fst x) \<le> count_list cs (fst y)) (statistic_sorted_by_value cs)"
    by (rule sorted_wrt_mono_rel [rotated])
      (auto simp: entries lookup_chunk_statistic less_eq_prod_def split: if_splits)
  then show "sorted_wrt (\<lambda>c d. count_list cs d \<le> count_list cs c) (ds cs)"
    by (simp add: ds_def sorted_wrt_map sorted_wrt_rev)
qed

section \<open>The dictionary\<close>

lemma fill_dictionary_snoc:
  "fill_dictionary (ds @ [d]) = fmupd d (of_nat (fmlen (fill_dictionary ds))) (fill_dictionary ds)"
  by (simp add: fill_dictionary_def)

lemma dom_fill_dictionary: "fmdom' (fill_dictionary ds) = set ds"
  by (induction ds rule: rev_induct) (simp_all add: fill_dictionary_snoc, simp add: fill_dictionary_def)

lemma len_fill_dictionary: "distinct ds \<Longrightarrow> fmlen (fill_dictionary ds) = length ds"
  by (simp add: fmlen_def dom_fill_dictionary distinct_card)

lemma lookup_fill_dictionary:
  "distinct ds \<Longrightarrow> i < length ds \<Longrightarrow> fmlookup (fill_dictionary ds) (ds ! i) = Some (of_nat i)"
proof (induction ds rule: rev_induct)
  case (snoc d ds)
  show ?case
  proof (cases "i < length ds")
    case True
    then have "ds ! i \<noteq> d" using snoc.prems(1) by auto
    with True snoc show ?thesis by (simp add: fill_dictionary_snoc nth_append)
  next
    case False
    then have "i = length ds" using snoc.prems(2) by simp
    then show ?thesis using snoc.prems(1) by (simp add: fill_dictionary_snoc len_fill_dictionary)
  qed
qed simp

lemma of_nat_u16_less: "i < j \<Longrightarrow> j \<le> 65535 \<Longrightarrow> (of_nat i :: u16) < of_nat j"
  by (simp add: word_less_nat_alt unat_of_nat)

lemma dictionary_entries:
  assumes "distinct ds" "length ds \<le> 65535"
  shows "sort (map prod.swap (fm_entries (fill_dictionary ds))) = map (\<lambda>i. (of_nat i, ds ! i)) [0..<length ds]"
    (is "?l = ?r")
proof (rule sorted_distinct_set_unique)
  show "sorted ?l" by simp
  have "distinct (fm_entries (fill_dictionary ds))"
    using fm_entries_props(1) [of "fill_dictionary ds"] by (simp only: distinct_map)
  then show "distinct ?l" by (auto simp: distinct_map inj_on_def)
  have less: "(of_nat i :: u16) < of_nat j" if "i < j" "j < length ds" for i j
    using that assms(2) by (intro of_nat_u16_less) simp_all
  have "sorted_wrt (<) (map (\<lambda>i. (of_nat i :: u16, ds ! i)) [0..<length ds])"
    by (auto simp: sorted_wrt_iff_nth_less less_prod_def less)
  then show "sorted ?r" "distinct ?r" by (simp_all add: strict_sorted_iff)
  have to_r: "(v, k) \<in> set ?r" if "fmlookup (fill_dictionary ds) k = Some v" for k v
  proof -
    have "k \<in> set ds" using that dom_fill_dictionary [of ds] by (metis fmlookup_dom'_iff)
    then obtain i where "i < length ds" "k = ds ! i" by (auto simp: in_set_conv_nth)
    then show ?thesis using that lookup_fill_dictionary [OF assms(1)] by auto
  qed
  have of_r: "fmlookup (fill_dictionary ds) k = Some v" if "(v, k) \<in> set ?r" for k v
    using that lookup_fill_dictionary [OF assms(1)] by auto
  have l: "(v, k) \<in> set ?l \<longleftrightarrow> fmlookup (fill_dictionary ds) k = Some v" for v k
    by (simp only: set_sort set_map fm_entries_props(3)) force
  show "set ?l = set ?r"
  proof (rule set_eqI)
    fix x :: "u16 \<times> u64"
    obtain v k where x: "x = (v, k)" by (cases x)
    show "x \<in> set ?l \<longleftrightarrow> x \<in> set ?r" unfolding x l using to_r of_r by blast
  qed
qed

section \<open>The round trip\<close>

lemma chunks_concat:
  "\<forall>x \<in> set xs. length x = k \<Longrightarrow> 0 < k \<Longrightarrow> chunks k (concat xs) = xs"
  by (induction xs) (auto simp: chunks_append)

lemma take_drop_concat:
  "\<forall>x \<in> set xs. length x = k \<Longrightarrow> i < length xs \<Longrightarrow> take k (drop (i * k) (concat xs @ ys)) = xs ! i"
proof (induction xs arbitrary: i)
  case (Cons x xs)
  then show ?case by (cases i) auto
qed simp

lemma length_concat_same: "\<forall>x \<in> set xs. length x = k \<Longrightarrow> length (concat xs) = k * length xs"
  by (induction xs) auto

lemma read_dictionary_encoding:
  assumes "length ds \<le> 65535"
  shows "read_dictionary (word_be (of_nat (length ds) :: u16) @ concat (map word_be ds) @ rest) = Some ds"
    (is "read_dictionary ?raw = _")
proof -
  have n: "unat (word_from_be (take 2 ?raw) :: u16) = length ds"
    using assms by (simp add: unat_of_nat)
  have len: "length (concat (map word_be ds)) = length ds * 8"
    using length_concat_same [of "map word_be ds" 8] by simp
  have "word_from_be (take 8 (drop (2 + i * 8) ?raw)) = ds ! i" if "i < length ds" for i
    using that take_drop_concat [of "map word_be ds" 8 i rest] by simp
  then have "map (\<lambda>i. word_from_be (take 8 (drop (2 + i * 8) ?raw))) [0..<length ds] = ds"
    by (auto intro: nth_equalityI)
  then show ?thesis
    unfolding read_dictionary_def n using len by simp
qed

lemma decompress_encoding:
  assumes "distinct ds" "length ds \<le> 65535" "set cs \<subseteq> set ds"
  shows "decompress_bytecode (word_be (of_nat (length ds) :: u16) @ concat (map word_be ds)
      @ concat (map (\<lambda>c. word_be (the (fmlookup (fill_dictionary ds) c))) cs)) =
    Some (concat (map word_be cs))"
proof -
  let ?idx = "\<lambda>c. the (fmlookup (fill_dictionary ds) c)"
  have len: "length (concat (map word_be ds)) = length ds * 8"
    using length_concat_same [of "map word_be ds" 8] by simp
  have idx: "unat (?idx c) < length ds" "ds ! unat (?idx c) = c" if c: "c \<in> set cs" for c
  proof -
    obtain i where i: "i < length ds" "c = ds ! i" using assms(3) c by (metis in_set_conv_nth subsetD)
    then have "unat (?idx c) = i"
      using lookup_fill_dictionary [OF assms(1)] assms(2) by (simp add: unat_of_nat)
    with i show "unat (?idx c) < length ds" "ds ! unat (?idx c) = c" by simp_all
  qed
  have "chunks 2 (concat (map (\<lambda>c. word_be (?idx c)) cs)) = map (\<lambda>c. word_be (?idx c)) cs"
    by (rule chunks_concat) auto
  moreover have "those (map (\<lambda>c. if unat (?idx c) < length ds then Some (word_be (ds ! unat (?idx c)))
      else None) cs) = Some (map word_be cs)"
    by (rule those_map_cong) (simp add: idx)
  ultimately show ?thesis
    unfolding decompress_bytecode_def read_dictionary_encoding [OF assms(2)]
    by (simp add: len o_def Let_def)
qed

lemma compress_valid:
  fixes cs defines "ds \<equiv> map fst (rev (statistic_sorted_by_value cs))"
  assumes "validate_bytecode code = Inr ()" "cs = map word_from_be (chunks 8 code)"
  shows "compress_to_bytes code =
    (if length ds > 65535 then Some (Inl DictionaryOverflow)
     else Some (Inr (word_be (of_nat (length ds) :: u16) @ concat (map word_be ds)
       @ concat (map (\<lambda>c. word_be (the (fmlookup (fill_dictionary ds) c))) cs))))"
proof -
  have "length code mod 32 = 0" using assms(2) by (simp add: validate_bytecode_def Let_def split: if_splits)
  then have "8 dvd length code" by presburger
  then have cs: "code_chunks code = Some cs" using assms(3) by (simp add: code_chunks_valid)
  note ds = statistic_order(1,2) [of cs, folded ds_def]
  show ?thesis
  proof (cases "length ds > 65535")
    case True
    then show ?thesis by (simp add: compress_to_bytes_def assms(2) cs ds_def Let_def)
  next
    case False
    have "those (map (\<lambda>c. map_option word_be (fmlookup (fill_dictionary ds) c)) cs) =
      Some (map (\<lambda>c. word_be (the (fmlookup (fill_dictionary ds) c))) cs)"
    proof (rule those_map_cong)
      fix c assume "c \<in> set cs"
      then have "c \<in> fmdom' (fill_dictionary ds)" by (simp add: dom_fill_dictionary ds(2))
      then show "map_option word_be (fmlookup (fill_dictionary ds) c) =
          Some (word_be (the (fmlookup (fill_dictionary ds) c)))"
        by (auto simp: fmlookup_dom'_iff)
    qed
    moreover have "map (\<lambda>i. word_be (ds ! i)) [0..<length ds] = map word_be ds"
      by (rule nth_equalityI) simp_all
    moreover have "length (statistic_sorted_by_value cs) = length ds" by (simp add: ds_def)
    ultimately show ?thesis
      using False
      by (simp add: compress_to_bytes_def assms(2) cs Let_def len_fill_dictionary [OF ds(1)]
          dictionary_entries [OF ds(1)] o_def flip: ds_def)
  qed
qed

text \<open>C24. Compression of a bytecode never panics. An invalid bytecode and one with more than 65535 different
  chunks are refused with their error; for every other one decompression gives the bytecode again,
  the size is 2 bytes, 8 bytes for each different chunk and 2 bytes for each chunk, and the dictionary
  lists the chunks by falling number of occurrences.\<close>
theorem compress_bytecode_roundtrip:
  "let cs = (map word_from_be (chunks 8 code) :: u64 list)
   in case validate_bytecode code of
        Inl e \<Rightarrow> compress_to_bytes code = Some (Inl (InvalidBytecode e))
      | Inr _ \<Rightarrow>
          if 65535 < card (set cs) then compress_to_bytes code = Some (Inl DictionaryOverflow)
          else (\<exists>bytes ds. compress_to_bytes code = Some (Inr bytes) \<and>
            decompress_bytecode bytes = Some code \<and>
            length bytes = 2 + 8 * card (set cs) + 2 * length cs \<and>
            read_dictionary bytes = Some ds \<and>
            sorted_wrt (\<lambda>c d. count_list cs d \<le> count_list cs c) ds)"
proof (cases "validate_bytecode code")
  case (Inl e)
  then show ?thesis by (simp add: compress_to_bytes_def)
next
  case (Inr u)
  define cs where "cs = (map word_from_be (chunks 8 code) :: u64 list)"
  define ds where "ds = map fst (rev (statistic_sorted_by_value cs))"
  note ds = statistic_order [of cs, folded ds_def]
  have n: "card (set cs) = length ds" using distinct_card [OF ds(1)] ds(2) by simp
  have valid: "validate_bytecode code = Inr ()" using Inr by simp
  have "length code mod 32 = 0" using valid by (simp add: validate_bytecode_def Let_def split: if_splits)
  then have "8 dvd length code" by presburger
  then have "\<forall>c \<in> set (chunks 8 code). length c = 8"
    using chunks_lengths [of 8 code] by (simp add: list_all_iff)
  then have "map (\<lambda>c. word_be (word_from_be c :: u64)) (chunks 8 code) = chunks 8 code"
    by (simp add: map_idI)
  then have code: "concat (map word_be cs) = code" by (simp add: cs_def o_def)
  note compress = compress_valid [OF valid cs_def, folded ds_def]
  show ?thesis
  proof (cases "65535 < length ds")
    case True
    then show ?thesis using compress n valid by (simp add: cs_def)
  next
    case False
    let ?bytes = "word_be (of_nat (length ds) :: u16) @ concat (map word_be ds)
       @ concat (map (\<lambda>c. word_be (the (fmlookup (fill_dictionary ds) c))) cs)"
    have "decompress_bytecode ?bytes = Some code"
      using decompress_encoding [OF ds(1), of cs] False ds(2) code by simp
    moreover have "read_dictionary ?bytes = Some ds"
      using False by (intro read_dictionary_encoding) simp
    moreover have "length ?bytes = 2 + 8 * card (set cs) + 2 * length cs"
      using length_concat_same [of "map word_be ds" 8]
        length_concat_same [of "map (\<lambda>c. word_be (the (fmlookup (fill_dictionary ds) c))) cs" 2]
      by (simp add: n)
    moreover have "compress_to_bytes code = Some (Inr ?bytes)" using compress False by simp
    ultimately show ?thesis
      using False ds(3) unfolding valid n [symmetric] cs_def [symmetric] Let_def by auto
  qed
qed

end
