(* ===== verification/Transaction_Data.thy ===== *)
theory Transaction_Data
  imports Transactions Vm_Fees
begin

text \<open>
  Transactions as the bootloader sees them,
  \<^verbatim>\<open>core/lib/multivm/src/versions/vm_latest/types/internals/transaction_data.rs\<close>: the conversion of a
  transaction, its ABI encoding as words of the bootloader memory, its gas overhead and its hash.

  Outside the repository, and arguments here, are the ABI encoder of the \<^verbatim>\<open>ethabi\<close> crate, the reader of
  the \<^verbatim>\<open>rlp\<close> crate and \<open>keccak256\<close>. The hash of the RLP or EIP-712 form of an L2 transaction is an argument
  as well: that form is not modelled.
\<close>

section \<open>Tokens\<close>

text \<open>The \<^verbatim>\<open>ethabi::Token\<close>s that are used.\<close>

datatype Token =
    Token_Uint u256 | Token_Address address | Token_Bytes "u8 list"
  | Token_FixedArray "Token list" | Token_Array "Token list" | Token_Tuple "Token list"

section \<open>Transaction data\<close>

record TransactionData =
  td_tx_type :: u8
  td_from :: address
  td_to :: address
  td_gas_limit :: u256
  td_pubdata_price_limit :: u256
  td_max_fee_per_gas :: u256
  td_max_priority_fee_per_gas :: u256
  td_paymaster :: address
  td_nonce :: u256
  td_value :: u256
  td_reserved :: "u256 list"
  td_data :: "u8 list"
  td_signature :: "u8 list"
  td_factory_deps :: "u8 list list"
  td_paymaster_input :: "u8 list"
  td_reserved_dynamic :: "u8 list"
  td_raw_bytes :: "u8 list option"

abbreviation (input) EIP_712_TX_TYPE :: u8 where "EIP_712_TX_TYPE \<equiv> 0x71"
abbreviation (input) EIP_1559_TX_TYPE :: u8 where "EIP_1559_TX_TYPE \<equiv> 0x02"
abbreviation (input) PRIORITY_OPERATION_L2_TX_TYPE :: u8 where "PRIORITY_OPERATION_L2_TX_TYPE \<equiv> 0xff"
abbreviation (input) PROTOCOL_UPGRADE_TX_TYPE :: u8 where "PROTOCOL_UPGRADE_TX_TYPE \<equiv> 0xfe"

fun transaction_type_code :: "TransactionType \<Rightarrow> u32" where
  "transaction_type_code LegacyTransaction = 0"
| "transaction_type_code EIP2930Transaction = 1"
| "transaction_type_code EIP1559Transaction = 2"
| "transaction_type_code EIP712Transaction = ucast EIP_712_TX_TYPE"
| "transaction_type_code PriorityOpTransaction = ucast PRIORITY_OPERATION_L2_TX_TYPE"
| "transaction_type_code ProtocolUpgradeTransaction = ucast PROTOCOL_UPGRADE_TX_TYPE"

definition transaction_type_try_from :: "u32 \<Rightarrow> TransactionType option" where
  "transaction_type_try_from n =
     find (\<lambda>t. transaction_type_code t = n)
       [LegacyTransaction, EIP2930Transaction, EIP1559Transaction, EIP712Transaction,
        PriorityOpTransaction, ProtocolUpgradeTransaction]"

fun is_ethereum_type :: "TransactionType \<Rightarrow> bool" where
  "is_ethereum_type LegacyTransaction = True"
| "is_ethereum_type EIP2930Transaction = True"
| "is_ethereum_type EIP1559Transaction = True"
| "is_ethereum_type _ = False"

abbreviation (input) is_l1_tx_type :: "u8 \<Rightarrow> bool" where
  "is_l1_tx_type tx_type \<equiv> tx_type = PRIORITY_OPERATION_L2_TX_TYPE \<or> tx_type = PROTOCOL_UPGRADE_TX_TYPE"

definition unpack_v :: "u64 \<Rightarrow> (u8 \<times> u64 option) option" where
  "unpack_v v =
     (if v = 27 then Some (0, None)
      else if v = 28 then Some (1, None)
      else if v \<ge> 35 then
        (let chain_id = drop_bit 1 (v - 35);
             v = v - 35 - chain_id * 2
         in if v = 0 then Some (0, Some chain_id)
            else if v = 1 then Some (1, Some chain_id)
            else None)
      else None)"

text \<open>\<open>rlp_val_at bytes i\<close> is the integer at position \<open>i\<close> of the RLP list in \<open>bytes\<close>, if it can be read.\<close>

definition extract_chain_id :: "(u8 list \<Rightarrow> nat \<Rightarrow> u64 option) \<Rightarrow> L2TxCommonData \<Rightarrow> u64 option" where
  "extract_chain_id rlp_val_at d = (case map_option input_bytes (input d) of
       None \<Rightarrow> None
     | Some [] \<Rightarrow> None
     | Some (x # rest) \<Rightarrow>
         if x \<ge> 0x80 then do { v \<leftarrow> rlp_val_at (x # rest) 6; vc \<leftarrow> unpack_v v; snd vc }
         else if x = EIP_1559_TX_TYPE then rlp_val_at rest 0
         else if x = EIP_712_TX_TYPE then rlp_val_at rest 10
         else None)"

definition td_of_l2 ::
    "(u8 list \<Rightarrow> nat \<Rightarrow> u64 option) \<Rightarrow> Execute \<Rightarrow> u8 list option \<Rightarrow> L2TxCommonData \<Rightarrow> TransactionData" where
  "td_of_l2 rlp_val_at ex raw d =
     (let should_check_chain_id =
            (if transaction_type d = LegacyTransaction \<and> extract_chain_id rlp_val_at d \<noteq> None
             then 1 else 0);
          pubdata_limit =
            (if is_ethereum_type (transaction_type d) then ucast vm_latest_MAX_GAS_PER_PUBDATA_BYTE
             else gas_per_pubdata_limit (l2_fee d))
      in \<lparr>td_tx_type = ucast (transaction_type_code (transaction_type d)),
          td_from = initiator_address d,
          td_to = contract_address ex,
          td_gas_limit = gas_limit (l2_fee d),
          td_pubdata_price_limit = pubdata_limit,
          td_max_fee_per_gas = max_fee_per_gas (l2_fee d),
          td_max_priority_fee_per_gas = max_priority_fee_per_gas (l2_fee d),
          td_paymaster = paymaster (paymaster_params d),
          td_nonce = word_from_be (word_be (l2_nonce d)),
          td_value = execute_value ex,
          td_reserved = [should_check_chain_id, 0, 0, 0],
          td_data = calldata ex,
          td_signature = signature d,
          td_factory_deps = factory_deps ex,
          td_paymaster_input = paymaster_input (paymaster_params d),
          td_reserved_dynamic = [],
          td_raw_bytes = raw\<rparr>)"

definition td_of_l1 :: "Execute \<Rightarrow> L1TxCommonData \<Rightarrow> TransactionData" where
  "td_of_l1 ex d =
     \<lparr>td_tx_type = ucast (transaction_type_code PriorityOpTransaction),
      td_from = l1_sender d,
      td_to = contract_address ex,
      td_gas_limit = l1_gas_limit d,
      td_pubdata_price_limit = l1_gas_per_pubdata_limit d,
      td_max_fee_per_gas = l1_max_fee_per_gas d,
      td_max_priority_fee_per_gas = 0,
      td_paymaster = 0,
      td_nonce = ucast (serial_id d),
      td_value = execute_value ex,
      td_reserved = [to_mint d, h256_to_u256 (address_to_h256 (refund_recipient d)), 0, 0],
      td_data = calldata ex,
      td_signature = [],
      td_factory_deps = factory_deps ex,
      td_paymaster_input = [],
      td_reserved_dynamic = [],
      td_raw_bytes = None\<rparr>"

definition td_of_upgrade :: "Execute \<Rightarrow> ProtocolUpgradeTxCommonData \<Rightarrow> TransactionData" where
  "td_of_upgrade ex d =
     \<lparr>td_tx_type = ucast (transaction_type_code ProtocolUpgradeTransaction),
      td_from = upgrade_sender d,
      td_to = contract_address ex,
      td_gas_limit = upgrade_gas_limit d,
      td_pubdata_price_limit = upgrade_gas_per_pubdata_limit d,
      td_max_fee_per_gas = upgrade_max_fee_per_gas d,
      td_max_priority_fee_per_gas = 0,
      td_paymaster = 0,
      td_nonce = ucast (of_nat (upgrade_id d) :: u16),
      td_value = execute_value ex,
      td_reserved = [upgrade_to_mint d, h256_to_u256 (address_to_h256 (upgrade_refund_recipient d)), 0, 0],
      td_data = calldata ex,
      td_signature = [],
      td_factory_deps = factory_deps ex,
      td_paymaster_input = [],
      td_reserved_dynamic = [],
      td_raw_bytes = None\<rparr>"

definition transaction_data_from :: "(u8 list \<Rightarrow> nat \<Rightarrow> u64 option) \<Rightarrow> Transaction \<Rightarrow> TransactionData" where
  "transaction_data_from rlp_val_at tx = (case common_data tx of
       L2 d \<Rightarrow> td_of_l2 rlp_val_at (execute tx) (raw_bytes tx) d
     | L1 d \<Rightarrow> td_of_l1 (execute tx) d
     | ProtocolUpgrade d \<Rightarrow> td_of_upgrade (execute tx) d)"

section \<open>Encoding\<close>

definition abi_encode_with_custom_factory_deps ::
    "(Token list \<Rightarrow> u8 list) \<Rightarrow> TransactionData \<Rightarrow> u256 list \<Rightarrow> u8 list" where
  "abi_encode_with_custom_factory_deps encode td factory_deps_hashes =
     encode [Token_Tuple
       [Token_Uint (word_from_be (word_be (td_tx_type td))),
        Token_Address (td_from td),
        Token_Address (td_to td),
        Token_Uint (td_gas_limit td),
        Token_Uint (td_pubdata_price_limit td),
        Token_Uint (td_max_fee_per_gas td),
        Token_Uint (td_max_priority_fee_per_gas td),
        Token_Address (td_paymaster td),
        Token_Uint (td_nonce td),
        Token_Uint (td_value td),
        Token_FixedArray (map Token_Uint (td_reserved td)),
        Token_Bytes (td_data td),
        Token_Bytes (td_signature td),
        Token_Array (map Token_Uint factory_deps_hashes),
        Token_Bytes (td_paymaster_input td),
        Token_Bytes (td_reserved_dynamic td)]]"

definition td_abi_encode ::
    "(u8 list list \<Rightarrow> h256 option) \<Rightarrow> (Token list \<Rightarrow> u8 list) \<Rightarrow> TransactionData \<Rightarrow> u8 list option" where
  "td_abi_encode code_hash encode td = do {
     hashes \<leftarrow> those (map (\<lambda>dep. map_option h256_to_u256 (hash_bytecode code_hash dep)) (td_factory_deps td));
     Some (abi_encode_with_custom_factory_deps encode td hashes)
   }"

definition into_tokens ::
    "(u8 list list \<Rightarrow> h256 option) \<Rightarrow> (Token list \<Rightarrow> u8 list) \<Rightarrow> TransactionData \<Rightarrow> u256 list option" where
  "into_tokens code_hash encode td = do {
     bytes \<leftarrow> td_abi_encode code_hash encode td;
     if length bytes mod 32 = 0 then bytes_to_be_words bytes else None
   }"

abbreviation (input) TX_SLOT_OVERHEAD_GAS :: u32 where
  "TX_SLOT_OVERHEAD_GAS \<equiv> 10000"

abbreviation (input) TX_MEMORY_OVERHEAD_GAS :: u32 where
  "TX_MEMORY_OVERHEAD_GAS \<equiv> 10"

abbreviation (input) TX_MAX_COMPUTE_GAS_LIMIT :: nat where
  "TX_MAX_COMPUTE_GAS_LIMIT \<equiv> 80000000"

definition derive_overhead :: "nat \<Rightarrow> u32" where
  "derive_overhead encoded_len = max TX_SLOT_OVERHEAD_GAS (TX_MEMORY_OVERHEAD_GAS * of_nat encoded_len)"

definition overhead_gas :: "TransactionData \<Rightarrow> u32 option" where
  "overhead_gas td = map_option derive_overhead
     (encoding_len (of_nat (length (td_data td))) (of_nat (length (td_signature td)))
        (of_nat (length (td_factory_deps td))) (of_nat (length (td_paymaster_input td)))
        (of_nat (length (td_reserved_dynamic td))))"

abbreviation (input) trusted_ergs_limit :: "TransactionData \<Rightarrow> u256" where
  "trusted_ergs_limit td \<equiv> min (of_nat TX_MAX_COMPUTE_GAS_LIMIT) (td_gas_limit td)"

section \<open>Hashes\<close>

datatype TxHashCalculationError = CannotCalculateL1HashForL2Tx | CannotCalculateL2HashForL1Tx

text \<open>A panic is \<open>None\<close>: an unknown type of transaction, or a nonce of more than 32 bits.\<close>

definition td_try_into_l2 :: "TransactionData \<Rightarrow> (TxHashCalculationError + L2Tx) option" where
  "td_try_into_l2 td =
     (if is_l1_tx_type (td_tx_type td) then Some (Inl CannotCalculateL2HashForL1Tx)
      else case transaction_type_try_from (ucast (td_tx_type td)) of
        None \<Rightarrow> None
      | Some ty \<Rightarrow>
          if unat (td_nonce td) \<ge> 2 ^ 32 then None
          else Some (Inr \<lparr>
            l2_execute = \<lparr>contract_address = td_to td, calldata = td_data td,
              execute_value = td_value td, factory_deps = td_factory_deps td\<rparr>,
            l2_common_data = \<lparr>
              l2_nonce = ucast (td_nonce td),
              l2_fee = \<lparr>gas_limit = td_gas_limit td, max_fee_per_gas = td_max_fee_per_gas td,
                max_priority_fee_per_gas = td_max_priority_fee_per_gas td,
                gas_per_pubdata_limit = td_pubdata_price_limit td\<rparr>,
              initiator_address = td_from td,
              signature = td_signature td,
              transaction_type = ty,
              input = None,
              paymaster_params = \<lparr>paymaster = td_paymaster td, paymaster_input = td_paymaster_input td\<rparr>\<rparr>,
            l2_received_timestamp_ms = 0,
            l2_raw_bytes = td_raw_bytes td\<rparr>))"

definition canonical_l1_tx_hash ::
    "(u8 list \<Rightarrow> h256) \<Rightarrow> (u8 list list \<Rightarrow> h256 option) \<Rightarrow> (Token list \<Rightarrow> u8 list) \<Rightarrow> TransactionData \<Rightarrow>
     (TxHashCalculationError + h256) option" where
  "canonical_l1_tx_hash keccak256 code_hash encode td =
     (if \<not> is_l1_tx_type (td_tx_type td) then Some (Inl CannotCalculateL1HashForL2Tx)
      else map_option (Inr \<circ> keccak256) (td_abi_encode code_hash encode td))"

definition td_tx_hash ::
    "(u8 list \<Rightarrow> h256) \<Rightarrow> (u8 list list \<Rightarrow> h256 option) \<Rightarrow> (Token list \<Rightarrow> u8 list) \<Rightarrow>
     (L2Tx \<Rightarrow> u64 \<Rightarrow> h256 option) \<Rightarrow> TransactionData \<Rightarrow> u64 \<Rightarrow> h256 option" where
  "td_tx_hash keccak256 code_hash encode request_hash td chain_id =
     (if is_l1_tx_type (td_tx_type td)
      then case canonical_l1_tx_hash keccak256 code_hash encode td of Some (Inr h) \<Rightarrow> Some h | _ \<Rightarrow> None
      else case td_try_into_l2 td of Some (Inr l2_tx) \<Rightarrow> request_hash l2_tx chain_id | _ \<Rightarrow> None)"

section \<open>The size of an encoding\<close>

text \<open>The contract ABI specification fixes the size of an encoding: a static value takes its size, a dynamic
  one 32 bytes for its offset and the size of its data, byte strings are padded to words, and byte
  strings and arrays are preceded by their length.\<close>

fun abi_dynamic :: "Token \<Rightarrow> bool" where
  "abi_dynamic (Token_Uint _) = False"
| "abi_dynamic (Token_Address _) = False"
| "abi_dynamic (Token_Bytes _) = True"
| "abi_dynamic (Token_FixedArray ts) = list_ex abi_dynamic ts"
| "abi_dynamic (Token_Array _) = True"
| "abi_dynamic (Token_Tuple ts) = list_ex abi_dynamic ts"

definition words_of :: "nat \<Rightarrow> nat" where
  "words_of n = (n + 31) div 32"

fun abi_size :: "Token \<Rightarrow> nat" where
  "abi_size (Token_Uint _) = 32"
| "abi_size (Token_Address _) = 32"
| "abi_size (Token_Bytes bs) = 32 + 32 * words_of (length bs)"
| "abi_size (Token_FixedArray ts) =
     sum_list (map (\<lambda>t. if abi_dynamic t then 32 + abi_size t else abi_size t) ts)"
| "abi_size (Token_Array ts) =
     32 + sum_list (map (\<lambda>t. if abi_dynamic t then 32 + abi_size t else abi_size t) ts)"
| "abi_size (Token_Tuple ts) =
     sum_list (map (\<lambda>t. if abi_dynamic t then 32 + abi_size t else abi_size t) ts)"

definition abi_length_law :: "(Token list \<Rightarrow> u8 list) \<Rightarrow> bool" where
  "abi_length_law encode \<longleftrightarrow> (\<forall>ts. length (encode ts) = abi_size (Token_Tuple ts))"

text \<open>An encoder by the specification: the heads of the components, then the data of the dynamic ones.\<close>

fun abi_heads :: "nat \<Rightarrow> (bool \<times> u8 list) list \<Rightarrow> u8 list" where
  "abi_heads offset [] = []"
| "abi_heads offset ((dynamic, e) # es) =
     (if dynamic then word_be (of_nat offset :: u256) @ abi_heads (offset + length e) es
      else e @ abi_heads offset es)"

definition abi_assemble :: "(bool \<times> u8 list) list \<Rightarrow> u8 list" where
  "abi_assemble es =
     abi_heads (sum_list (map (\<lambda>(dynamic, e). if dynamic then 32 else length e) es)) es
     @ concat (map snd (filter fst es))"

fun abi_spec_encode :: "Token \<Rightarrow> u8 list" where
  "abi_spec_encode (Token_Uint w) = word_be w"
| "abi_spec_encode (Token_Address a) = word_be (address_to_h256 a)"
| "abi_spec_encode (Token_Bytes bs) =
     word_be (of_nat (length bs) :: u256) @ bs @ replicate (32 * words_of (length bs) - length bs) 0"
| "abi_spec_encode (Token_FixedArray ts) = abi_assemble (map (\<lambda>t. (abi_dynamic t, abi_spec_encode t)) ts)"
| "abi_spec_encode (Token_Array ts) =
     word_be (of_nat (length ts) :: u256) @ abi_assemble (map (\<lambda>t. (abi_dynamic t, abi_spec_encode t)) ts)"
| "abi_spec_encode (Token_Tuple ts) = abi_assemble (map (\<lambda>t. (abi_dynamic t, abi_spec_encode t)) ts)"

definition abi_spec :: "Token list \<Rightarrow> u8 list" where
  "abi_spec ts = abi_spec_encode (Token_Tuple ts)"

lemma length_abi_heads:
  "length (abi_heads n es) = sum_list (map (\<lambda>(dynamic, e). if dynamic then 32 else length e) es)"
  by (induction n es rule: abi_heads.induct) auto

lemma length_abi_assemble:
  "length (abi_assemble es) = sum_list (map (\<lambda>(dynamic, e). if dynamic then 32 + length e else length e) es)"
proof -
  have "sum_list (map (\<lambda>(dynamic, e). if dynamic then 32 else length e) es) +
      length (concat (map snd (filter fst es))) =
    sum_list (map (\<lambda>(dynamic, e). if dynamic then 32 + length e else length e) es)"
    by (induction es) auto
  then show ?thesis by (simp add: abi_assemble_def length_abi_heads)
qed

lemma le_words_of: "n \<le> 32 * words_of n"
  by (simp add: words_of_def)

lemma length_abi_spec_encode: "length (abi_spec_encode t) = abi_size t"
  by (induction t rule: abi_spec_encode.induct)
    (auto simp: length_abi_assemble o_def le_words_of address_to_h256_def intro!: arg_cong [of _ _ sum_list])

lemma abi_spec_length: "abi_length_law abi_spec"
  by (simp add: abi_length_law_def abi_spec_def length_abi_spec_encode del: abi_spec_encode.simps)

lemma ceil_div_words: "n < 2 ^ 64 \<Longrightarrow> ceil_div (of_nat n) 32 = Some (of_nat (words_of n))"
proof -
  assume n: "n < 2 ^ 64"
  show ?thesis
  proof (cases "n = 0")
    case True
    then show ?thesis by (simp add: ceil_div_def words_of_def)
  next
    case False
    have u: "unat (of_nat n :: u64) = n" using n by (simp add: unat_of_nat)
    then have nz: "(of_nat n :: u64) \<noteq> 0" using False by (metis unat_0)
    have "unat (of_nat n - 1 :: u64) = n - 1" using unat_minus_one [OF nz] u by simp
    then have "unat ((of_nat n - 1) div 32 :: u64) = (n - 1) div 32" by (simp add: unat_div)
    moreover have "(n - 1) div 32 + 1 < 2 ^ 64" using n by simp
    ultimately have u1: "unat ((of_nat n - 1) div 32 + 1 :: u64) = (n - 1) div 32 + 1"
      by (simp add: unat_word_ariths)
    have "(n - 1) div 32 + 1 = words_of n" using False by (simp add: words_of_def)
    moreover have "words_of n < 2 ^ 64" using n by (simp add: words_of_def)
    ultimately have "(of_nat n - 1) div 32 + 1 = (of_nat (words_of n) :: u64)"
      using u1 by (simp only: word_unat_eq_iff unat_of_nat) simp
    with nz show ?thesis by (simp add: ceil_div_def)
  qed
qed

lemma words_of_less: "n < 2 ^ 32 \<Longrightarrow> words_of n < 2 ^ 32"
  by (simp add: words_of_def)

lemma encoding_len_words:
  assumes "a < 2 ^ 32" "b < 2 ^ 32" "c < 2 ^ 32" "d < 2 ^ 32" "e < 2 ^ 32"
  shows "encoding_len (of_nat a) (of_nat b) (of_nat c) (of_nat d) (of_nat e) =
    Some (25 + words_of a + words_of b + c + words_of d + words_of e)"
proof -
  have "words_of a + words_of b + words_of d + words_of e + c < 2 ^ 64"
    using assms words_of_less [of a] words_of_less [of b] words_of_less [of d] words_of_less [of e] by simp
  then have "unat (of_nat (words_of a) + of_nat (words_of b) + of_nat (words_of d) + of_nat (words_of e)
      + of_nat c :: u64) = words_of a + words_of b + words_of d + words_of e + c"
    unfolding of_nat_add [symmetric] unat_of_nat by simp
  then show ?thesis
    using assms by (simp add: encoding_len_def ceil_div_words)
qed

lemma those_length: "those xs = Some ys \<Longrightarrow> length ys = length xs"
  by (induction xs arbitrary: ys) (auto split: option.splits)

lemma those_total: "\<forall>x \<in> set xs. f x \<noteq> None \<Longrightarrow> \<exists>ys. those (map f xs) = Some ys"
  by (induction xs) auto

lemma static_uints: "list_ex abi_dynamic (map Token_Uint ws) = False"
  "sum_list (map (\<lambda>t. if abi_dynamic t then 32 + abi_size t else abi_size t) (map Token_Uint ws)) =
     32 * length ws"
  by (induction ws) simp_all

lemma length_td_abi_encode:
  assumes "abi_length_law encode" "length (td_reserved td) = 4" "td_abi_encode code_hash encode td = Some bytes"
  shows "length bytes = 32 * (25 + words_of (length (td_data td)) + words_of (length (td_signature td))
    + length (td_factory_deps td) + words_of (length (td_paymaster_input td))
    + words_of (length (td_reserved_dynamic td)))"
proof -
  obtain hashes where "length hashes = length (td_factory_deps td)"
    "bytes = abi_encode_with_custom_factory_deps encode td hashes"
    using assms(3) unfolding td_abi_encode_def
    by (auto simp: bind_eq_Some_conv dest!: those_length)
  moreover have "length (encode ts) = abi_size (Token_Tuple ts)" for ts
    using assms(1) by (simp add: abi_length_law_def)
  ultimately show ?thesis
    using assms(2) by (simp add: abi_encode_with_custom_factory_deps_def static_uints del: map_map)
qed

lemma into_tokens_length:
  assumes "abi_length_law encode" "td = transaction_data_from rlp_val_at tx"
    "\<forall>dep \<in> set (factory_deps (execute tx)). hash_bytecode code_hash dep \<noteq> None"
    "length (td_data td) < 2 ^ 32" "length (td_signature td) < 2 ^ 32"
    "length (td_factory_deps td) < 2 ^ 32" "length (td_paymaster_input td) < 2 ^ 32"
  shows "\<exists>words. into_tokens code_hash encode td = Some words \<and>
    tx_encoding_len tx = Some (length words) \<and>
    overhead_gas td = Some (derive_overhead (length words))"
proof -
  have td: "td_factory_deps td = factory_deps (execute tx)" "td_data td = calldata (execute tx)"
    "td_reserved_dynamic td = []" "length (td_reserved td) = 4"
    unfolding assms(2) transaction_data_from_def td_of_l2_def td_of_l1_def td_of_upgrade_def Let_def
    by (simp_all split: ExecuteTransactionCommon.split)
  have "\<exists>hashes. those (map (\<lambda>dep. map_option h256_to_u256 (hash_bytecode code_hash dep))
      (td_factory_deps td)) = Some hashes"
    using assms(3) by (intro those_total) (simp add: td(1))
  then obtain bytes where bytes: "td_abi_encode code_hash encode td = Some bytes"
    by (auto simp: td_abi_encode_def)
  let ?n = "25 + words_of (length (td_data td)) + words_of (length (td_signature td))
    + length (td_factory_deps td) + words_of (length (td_paymaster_input td))
    + words_of (length (td_reserved_dynamic td))"
  have len: "length bytes = 32 * ?n" by (rule length_td_abi_encode [OF assms(1) td(4) bytes])
  then have tokens: "into_tokens code_hash encode td = Some (map word_from_be (chunks 32 bytes))"
    by (simp add: into_tokens_def bytes bytes_to_be_words_def ensure_chunkable_def)
  have "length (chunks 32 bytes) = ?n" using len by (simp add: length_chunks)
  moreover have enc: "encoding_len (of_nat (length (td_data td))) (of_nat (length (td_signature td)))
      (of_nat (length (td_factory_deps td))) (of_nat (length (td_paymaster_input td)))
      (of_nat (length (td_reserved_dynamic td))) = Some ?n"
    using assms(4-7) by (intro encoding_len_words) (simp_all add: td(3))
  moreover have "tx_encoding_len tx = encoding_len (of_nat (length (td_data td)))
      (of_nat (length (td_signature td))) (of_nat (length (td_factory_deps td)))
      (of_nat (length (td_paymaster_input td))) (of_nat (length (td_reserved_dynamic td)))"
    unfolding tx_encoding_len_def Let_def td(1-3)
    unfolding assms(2) transaction_data_from_def td_of_l2_def td_of_l1_def td_of_upgrade_def Let_def
    by (simp split: ExecuteTransactionCommon.split)
  ultimately show ?thesis using tokens by (simp add: overhead_gas_def)
qed

text \<open>C25. The predicted length of a transaction is exact. Take any encoder that respects the sizes of the
  contract ABI, and a transaction whose bytecodes can be hashed and whose byte strings are shorter
  than 4 GiB. Then its encoding for the bootloader succeeds and has exactly as many words as
  \<open>Transaction::encoding_len\<close> announces to the components that fill a batch, and the gas overhead is
  the one for this length.\<close>
theorem transaction_encoding_len_exact:
  assumes "abi_length_law encode" "td = transaction_data_from rlp_val_at tx"
    "\<forall>dep \<in> set (factory_deps (execute tx)). hash_bytecode code_hash dep \<noteq> None"
    "length (td_data td) < 2 ^ 32" "length (td_signature td) < 2 ^ 32"
    "length (td_factory_deps td) < 2 ^ 32" "length (td_paymaster_input td) < 2 ^ 32"
  shows "\<exists>words. into_tokens code_hash encode td = Some words \<and>
    tx_encoding_len tx = Some (length words) \<and>
    overhead_gas td = Some (derive_overhead (length words))"
  using assms by (rule into_tokens_length)

definition example_tx :: Transaction where
  "example_tx = \<lparr>
     common_data = L2 \<lparr>l2_nonce = 5,
       l2_fee = \<lparr>gas_limit = 100000, max_fee_per_gas = 7, max_priority_fee_per_gas = 0, gas_per_pubdata_limit = 800\<rparr>,
       initiator_address = 3, signature = replicate 75 1, transaction_type = EIP712Transaction, input = None,
       paymaster_params = \<lparr>paymaster = 4, paymaster_input = replicate 85 2\<rparr>\<rparr>,
     execute = \<lparr>contract_address = 9, calldata = replicate 65 3, execute_value = 11,
       factory_deps = [replicate 32 0, replicate 32 1]\<rparr>,
     received_timestamp_ms = 0, raw_bytes = None\<rparr>"

theorem transaction_encoding_len_exact_witness:
  "\<exists>words. into_tokens (\<lambda>_. Some 7) abi_spec (transaction_data_from (\<lambda>_ _. None) example_tx) = Some words \<and>
     tx_encoding_len example_tx = Some (length words) \<and> length words = 36"
proof -
  have "\<forall>dep \<in> set (factory_deps (execute example_tx)). hash_bytecode (\<lambda>_. Some 7) dep \<noteq> None"
    by (simp add: example_tx_def hash_bytecode_def bytes_to_chunks_def ensure_chunkable_def)
  then obtain words where
    "into_tokens (\<lambda>_. Some 7) abi_spec (transaction_data_from (\<lambda>_ _. None) example_tx) = Some words"
    "tx_encoding_len example_tx = Some (length words)"
    using transaction_encoding_len_exact [OF abi_spec_length refl, of example_tx "\<lambda>_. Some 7" "\<lambda>_ _. None"]
    by (auto simp: example_tx_def transaction_data_from_def td_of_l2_def Let_def)
  moreover have "tx_encoding_len example_tx = Some 36" by code_simp
  ultimately show ?thesis by auto
qed

end
