(* ===== verification/L2_Blocks.thy ===== *)
theory L2_Blocks
  imports Storage_View Vm_Fees
begin

text \<open>
  L2 blocks inside a batch: the hash of a block as the node computes it
  (\<^verbatim>\<open>L2BlockHasher\<close>, \<^verbatim>\<open>core/lib/types/src/block.rs\<close>), the packed block information of the system context, and
  the helpers of the VM (\<^verbatim>\<open>vm_latest/utils/l2_blocks.rs\<close>) that check the order of blocks, hash them and read
  the last block back from storage. \<open>keccak256\<close> is an argument.
\<close>

section \<open>The block hasher of the node\<close>

record L2BlockHasher =
  hasher_number :: u32
  hasher_timestamp :: u64
  prev_l2_block_hash :: h256
  txs_rolling_hash :: h256

definition legacy_hash :: "(u8 list \<Rightarrow> h256) \<Rightarrow> u32 \<Rightarrow> h256" where
  "legacy_hash keccak256 number = keccak256 (word_be number)"

definition hasher_new :: "u32 \<Rightarrow> u64 \<Rightarrow> h256 \<Rightarrow> L2BlockHasher" where
  "hasher_new number timestamp prev =
     \<lparr>hasher_number = number, hasher_timestamp = timestamp, prev_l2_block_hash = prev, txs_rolling_hash = 0\<rparr>"

definition push_tx_hash :: "(u8 list \<Rightarrow> h256) \<Rightarrow> h256 \<Rightarrow> L2BlockHasher \<Rightarrow> L2BlockHasher" where
  "push_tx_hash keccak256 hash s = s\<lparr>txs_rolling_hash := concat_and_hash keccak256 (txs_rolling_hash s) hash\<rparr>"

definition hasher_finalize :: "(u8 list \<Rightarrow> h256) \<Rightarrow> L2BlockHasher \<Rightarrow> ProtocolVersionId \<Rightarrow> h256" where
  "hasher_finalize keccak256 s protocol_version =
     (if protocol_version \<ge> Version13
      then keccak256 (word_be (ucast (hasher_number s) :: u256) @ word_be (ucast (hasher_timestamp s) :: u256)
             @ word_be (prev_l2_block_hash s) @ word_be (txs_rolling_hash s))
      else legacy_hash keccak256 (hasher_number s))"

definition hasher_hash ::
    "(u8 list \<Rightarrow> h256) \<Rightarrow> u32 \<Rightarrow> u64 \<Rightarrow> h256 \<Rightarrow> h256 \<Rightarrow> ProtocolVersionId \<Rightarrow> h256" where
  "hasher_hash keccak256 number timestamp prev rolling protocol_version =
     hasher_finalize keccak256
       \<lparr>hasher_number = number, hasher_timestamp = timestamp, prev_l2_block_hash = prev, txs_rolling_hash = rolling\<rparr>
       protocol_version"

section \<open>Packed block information\<close>

abbreviation (input) SYSTEM_BLOCK_INFO_BLOCK_NUMBER_MULTIPLIER :: u256 where
  "SYSTEM_BLOCK_INFO_BLOCK_NUMBER_MULTIPLIER \<equiv> 2 ^ 128"

definition unpack_block_info :: "u256 \<Rightarrow> (u64 \<times> u64) option" where
  "unpack_block_info info = do {
     block_number \<leftarrow> u256_as_u64 (info div SYSTEM_BLOCK_INFO_BLOCK_NUMBER_MULTIPLIER);
     block_timestamp \<leftarrow> u256_as_u64 (info mod SYSTEM_BLOCK_INFO_BLOCK_NUMBER_MULTIPLIER);
     Some (block_number, block_timestamp)
   }"

definition pack_block_info :: "u64 \<Rightarrow> u64 \<Rightarrow> u256 option" where
  "pack_block_info block_number block_timestamp = do {
     p \<leftarrow> u256_mul (ucast block_number) SYSTEM_BLOCK_INFO_BLOCK_NUMBER_MULTIPLIER;
     u256_add p (ucast block_timestamp)
   }"

section \<open>Blocks of the VM\<close>

record L2Block =
  block_number :: u32
  block_timestamp :: u64
  block_hash :: h256

abbreviation (input) SYSTEM_CONTEXT_CURRENT_L2_BLOCK_INFO_POSITION :: h256 where
  "SYSTEM_CONTEXT_CURRENT_L2_BLOCK_INFO_POSITION \<equiv> 9"

abbreviation (input) SYSTEM_CONTEXT_CURRENT_TX_ROLLING_HASH_POSITION :: h256 where
  "SYSTEM_CONTEXT_CURRENT_TX_ROLLING_HASH_POSITION \<equiv> 10"

abbreviation (input) SYSTEM_CONTEXT_CURRENT_L2_BLOCK_HASHES_POSITION :: h256 where
  "SYSTEM_CONTEXT_CURRENT_L2_BLOCK_HASHES_POSITION \<equiv> 11"

abbreviation (input) SYSTEM_CONTEXT_STORED_L2_BLOCK_HASHES :: u32 where
  "SYSTEM_CONTEXT_STORED_L2_BLOCK_HASHES \<equiv> 257"

definition get_l2_block_hash_key :: "u32 \<Rightarrow> StorageKey option" where
  "get_l2_block_hash_key number = do {
     position \<leftarrow> u256_add (h256_to_u256 SYSTEM_CONTEXT_CURRENT_L2_BLOCK_HASHES_POSITION)
       (ucast (number mod SYSTEM_CONTEXT_STORED_L2_BLOCK_HASHES));
     Some \<lparr>key_account = SYSTEM_CONTEXT_ADDRESS, key_slot = u256_to_h256 position\<rparr>
   }"

text \<open>Whether the assertions hold.\<close>

definition assert_next_block :: "L2Block \<Rightarrow> L2BlockEnv \<Rightarrow> bool" where
  "assert_next_block prev_block next_block \<longleftrightarrow>
     (if block_number prev_block = 0 then block_timestamp prev_block \<le> l2_block_env_timestamp next_block
      else block_number prev_block + 1 = l2_block_env_number next_block \<and>
        block_timestamp prev_block < l2_block_env_timestamp next_block) \<and>
     block_hash prev_block = l2_block_env_prev_block_hash next_block"

definition vm_l2_block_hash :: "(u8 list \<Rightarrow> h256) \<Rightarrow> u32 \<Rightarrow> u64 \<Rightarrow> h256 \<Rightarrow> h256 \<Rightarrow> h256" where
  "vm_l2_block_hash keccak256 number timestamp prev rolling =
     keccak256 (word_be (ucast number :: u256) @ word_be (ucast timestamp :: u256)
       @ word_be prev @ word_be rolling)"

definition load_last_l2_block ::
    "(u8 list \<Rightarrow> h256) \<Rightarrow> StorageView \<Rightarrow> (L2Block option \<times> StorageView) option" where
  "load_last_l2_block keccak256 s =
     (let (info, s) = view_read_value
            \<lparr>key_account = SYSTEM_CONTEXT_ADDRESS, key_slot = SYSTEM_CONTEXT_CURRENT_L2_BLOCK_INFO_POSITION\<rparr> s
      in do {
        nt \<leftarrow> unpack_block_info (h256_to_u256 info);
        let number = (ucast (fst nt) :: u32);
        if number = 0 then Some (None, s)
        else do {
          position \<leftarrow> get_l2_block_hash_key (number - 1);
          let (prev, s) = view_read_value position s;
          let (rolling, s) = view_read_value
            \<lparr>key_account = SYSTEM_CONTEXT_ADDRESS, key_slot = SYSTEM_CONTEXT_CURRENT_TX_ROLLING_HASH_POSITION\<rparr> s;
          Some (Some \<lparr>block_number = number, block_timestamp = snd nt,
            block_hash = vm_l2_block_hash keccak256 number (snd nt) prev rolling\<rparr>, s)
        }
      })"

section \<open>Correctness\<close>

lemma unat_multiplier: "unat SYSTEM_BLOCK_INFO_BLOCK_NUMBER_MULTIPLIER = 2 ^ 128"
  by simp

text \<open>Packing never panics and is inverted by unpacking.\<close>

lemma pack_unpack_block_info:
  "\<exists>info. pack_block_info n t = Some info \<and> unpack_block_info info = Some (n, t)"
proof -
  have n: "unat n < 2 ^ 64" and t: "unat t < 2 ^ 64" using unsigned_less [of n] unsigned_less [of t] by simp_all
  have m: "unat n * 2 ^ 128 + unat t < 2 ^ 256"
  proof -
    have "unat n * 2 ^ 128 \<le> (2 ^ 64 - 1) * 2 ^ 128" using n by (intro mult_right_mono) auto
    then show ?thesis using t by simp
  qed
  define p :: u256 where "p = ucast n * SYSTEM_BLOCK_INFO_BLOCK_NUMBER_MULTIPLIER"
  have p: "unat p = unat n * 2 ^ 128"
    using m by (simp add: p_def unat_word_ariths unat_multiplier unat_ucast_64_256)
  define info where "info = p + ucast t"
  have i: "unat info = unat n * 2 ^ 128 + unat t"
    using m p by (simp add: info_def unat_word_ariths unat_ucast_64_256)
  have pack: "pack_block_info n t = Some info"
    using m p by (simp add: pack_block_info_def u256_mul_def u256_add_def p_def info_def
        unat_multiplier unat_ucast_64_256)
  have t': "unat t < 2 ^ 128" using t by simp
  have "unat (info div SYSTEM_BLOCK_INFO_BLOCK_NUMBER_MULTIPLIER) = unat n"
    using t' by (simp add: unat_div unat_multiplier i)
  moreover have "unat (info mod SYSTEM_BLOCK_INFO_BLOCK_NUMBER_MULTIPLIER) = unat t"
    using t' by (simp add: unat_mod unat_multiplier i)
  moreover have "u256_as_u64 v = Some w" if "unat v = unat w" for v and w :: u64
    using that unsigned_less [of w] by (simp add: u256_as_u64_def word_unat_eq_iff unat_ucast_256_64)
  ultimately show ?thesis using pack by (simp add: unpack_block_info_def)
qed

text \<open>From protocol version 13 on, the node and the VM compute the same hash of a block.\<close>

lemma block_hashes_agree:
  assumes "Version13 \<le> version"
  shows "hasher_hash keccak256 number timestamp prev rolling version =
    vm_l2_block_hash keccak256 number timestamp prev rolling"
  using assms by (simp add: hasher_hash_def hasher_finalize_def vm_l2_block_hash_def)

end
