(* ===== verification/Bootloader_State.thy ===== *)
theory Bootloader_State
  imports Transaction_Data L2_Blocks Bytecode_Compression
begin

text \<open>
  The state of the bootloader, \<^verbatim>\<open>core/lib/multivm/src/versions/vm_latest/bootloader_state\<close>, and the layout
  of its memory, \<^verbatim>\<open>vm_latest/constants.rs\<close>: which transactions and L2 blocks were pushed into the memory,
  where the next one goes, and how the whole memory is rebuilt at the end of a batch. \<open>usize\<close> offsets
  are natural numbers. The functions that come from outside are collected in one record.
\<close>

section \<open>Memory layout\<close>

abbreviation (input) MAX_NEW_FACTORY_DEPS :: nat where "MAX_NEW_FACTORY_DEPS \<equiv> 32"
abbreviation (input) MAX_TXS_IN_BATCH :: nat where "MAX_TXS_IN_BATCH \<equiv> 10000"
abbreviation (input) DEBUG_SLOTS_OFFSET :: nat where "DEBUG_SLOTS_OFFSET \<equiv> 8"
abbreviation (input) DEBUG_FIRST_SLOTS :: nat where "DEBUG_FIRST_SLOTS \<equiv> 32"
abbreviation (input) PAYMASTER_CONTEXT_SLOTS :: nat where "PAYMASTER_CONTEXT_SLOTS \<equiv> 32 + 1"
abbreviation (input) MAX_POSTOP_SLOTS :: nat where "MAX_POSTOP_SLOTS \<equiv> PAYMASTER_CONTEXT_SLOTS + 7"
abbreviation (input) CURRENT_L2_TX_HASHES_SLOTS :: nat where "CURRENT_L2_TX_HASHES_SLOTS \<equiv> 2"
abbreviation (input) NEW_FACTORY_DEPS_RESERVED_SLOTS :: nat where
  "NEW_FACTORY_DEPS_RESERVED_SLOTS \<equiv> MAX_NEW_FACTORY_DEPS + 4"
abbreviation (input) OPERATOR_REFUNDS_SLOTS :: nat where "OPERATOR_REFUNDS_SLOTS \<equiv> MAX_TXS_IN_BATCH"

definition OPERATOR_REFUNDS_OFFSET :: nat where
  "OPERATOR_REFUNDS_OFFSET = DEBUG_SLOTS_OFFSET + DEBUG_FIRST_SLOTS + PAYMASTER_CONTEXT_SLOTS
     + CURRENT_L2_TX_HASHES_SLOTS + NEW_FACTORY_DEPS_RESERVED_SLOTS"

abbreviation (input) TX_OVERHEAD_OFFSET :: nat where
  "TX_OVERHEAD_OFFSET \<equiv> OPERATOR_REFUNDS_OFFSET + OPERATOR_REFUNDS_SLOTS"
abbreviation (input) TX_OVERHEAD_SLOTS :: nat where "TX_OVERHEAD_SLOTS \<equiv> MAX_TXS_IN_BATCH"
abbreviation (input) TX_TRUSTED_GAS_LIMIT_OFFSET :: nat where
  "TX_TRUSTED_GAS_LIMIT_OFFSET \<equiv> TX_OVERHEAD_OFFSET + TX_OVERHEAD_SLOTS"
abbreviation (input) TX_TRUSTED_GAS_LIMIT_SLOTS :: nat where "TX_TRUSTED_GAS_LIMIT_SLOTS \<equiv> MAX_TXS_IN_BATCH"

abbreviation (input) TX_OPERATOR_L2_BLOCK_INFO_OFFSET :: nat where
  "TX_OPERATOR_L2_BLOCK_INFO_OFFSET \<equiv> TX_TRUSTED_GAS_LIMIT_OFFSET + TX_TRUSTED_GAS_LIMIT_SLOTS"
abbreviation (input) TX_OPERATOR_SLOTS_PER_L2_BLOCK_INFO :: nat where "TX_OPERATOR_SLOTS_PER_L2_BLOCK_INFO \<equiv> 4"
abbreviation (input) TX_OPERATOR_L2_BLOCK_INFO_SLOTS :: nat where
  "TX_OPERATOR_L2_BLOCK_INFO_SLOTS \<equiv> (MAX_TXS_IN_BATCH + 1) * TX_OPERATOR_SLOTS_PER_L2_BLOCK_INFO"

abbreviation (input) COMPRESSED_BYTECODES_OFFSET :: nat where
  "COMPRESSED_BYTECODES_OFFSET \<equiv> TX_OPERATOR_L2_BLOCK_INFO_OFFSET + TX_OPERATOR_L2_BLOCK_INFO_SLOTS"
abbreviation (input) COMPRESSED_BYTECODES_SLOTS :: nat where "COMPRESSED_BYTECODES_SLOTS \<equiv> 196608"
abbreviation (input) PRIORITY_TXS_L1_DATA_OFFSET :: nat where
  "PRIORITY_TXS_L1_DATA_OFFSET \<equiv> COMPRESSED_BYTECODES_OFFSET + COMPRESSED_BYTECODES_SLOTS"
abbreviation (input) PRIORITY_TXS_L1_DATA_SLOTS :: nat where "PRIORITY_TXS_L1_DATA_SLOTS \<equiv> 2"
abbreviation (input) OPERATOR_PROVIDED_L1_MESSENGER_PUBDATA_OFFSET :: nat where
  "OPERATOR_PROVIDED_L1_MESSENGER_PUBDATA_OFFSET \<equiv> PRIORITY_TXS_L1_DATA_OFFSET + PRIORITY_TXS_L1_DATA_SLOTS"
definition OPERATOR_PROVIDED_L1_MESSENGER_PUBDATA_SLOTS :: nat where
  "OPERATOR_PROVIDED_L1_MESSENGER_PUBDATA_SLOTS = 1360000"
definition BOOTLOADER_TX_DESCRIPTION_OFFSET :: nat where
  "BOOTLOADER_TX_DESCRIPTION_OFFSET =
     OPERATOR_PROVIDED_L1_MESSENGER_PUBDATA_OFFSET + OPERATOR_PROVIDED_L1_MESSENGER_PUBDATA_SLOTS"
abbreviation (input) BOOTLOADER_TX_DESCRIPTION_SIZE :: nat where "BOOTLOADER_TX_DESCRIPTION_SIZE \<equiv> 2"
definition TX_DESCRIPTION_OFFSET :: nat where
  "TX_DESCRIPTION_OFFSET = BOOTLOADER_TX_DESCRIPTION_OFFSET
     + BOOTLOADER_TX_DESCRIPTION_SIZE * MAX_TXS_IN_BATCH + MAX_POSTOP_SLOTS"

definition get_bootloader_tx_encoding_space :: "MultiVMSubversion \<Rightarrow> u32" where
  "get_bootloader_tx_encoding_space subversion =
     of_nat (vm_latest_used_bootloader_memory_words subversion - TX_DESCRIPTION_OFFSET - MAX_TXS_IN_BATCH)"

abbreviation (input) VM_HOOK_PARAMS_COUNT :: u32 where "VM_HOOK_PARAMS_COUNT \<equiv> 3"

definition get_result_success_first_slot :: "MultiVMSubversion \<Rightarrow> u32" where
  "get_result_success_first_slot subversion =
     (of_nat (vm_latest_used_bootloader_memory_bytes subversion) - of_nat MAX_TXS_IN_BATCH * 32) div 32"

abbreviation (input) get_vm_hook_position :: "MultiVMSubversion \<Rightarrow> u32" where
  "get_vm_hook_position subversion \<equiv> get_result_success_first_slot subversion - 1"

abbreviation (input) get_vm_hook_params_start_position :: "MultiVMSubversion \<Rightarrow> u32" where
  "get_vm_hook_params_start_position subversion \<equiv> get_vm_hook_position subversion - VM_HOOK_PARAMS_COUNT"

lemmas layout_defs = OPERATOR_REFUNDS_OFFSET_def
  OPERATOR_PROVIDED_L1_MESSENGER_PUBDATA_SLOTS_def BOOTLOADER_TX_DESCRIPTION_OFFSET_def TX_DESCRIPTION_OFFSET_def

section \<open>Transactions and L2 blocks in the bootloader\<close>

text \<open>What comes from outside: the hash function, the hash of a bytecode, the ABI encoder and the hash of
  the request form of an L2 transaction.\<close>

record VmParams =
  vp_keccak256 :: "u8 list \<Rightarrow> h256"
  vp_code_hash :: "u8 list list \<Rightarrow> h256 option"
  vp_encode :: "Token list \<Rightarrow> u8 list"
  vp_request_hash :: "L2Tx \<Rightarrow> u64 \<Rightarrow> h256 option"

datatype TxExecutionMode = VerifyExecute | EstimateFee | EthCall

type_synonym BootloaderMemory = "(nat \<times> u256) list"

record BootloaderTx =
  btx_hash :: h256
  btx_encoded :: "u256 list"
  btx_compressed_bytecodes :: "CompressedBytecodeInfo list"
  btx_refund :: u64
  btx_gas_overhead :: u32
  btx_trusted_gas_limit :: u256
  btx_offset :: nat

definition bootloader_tx_new ::
    "VmParams \<Rightarrow> TransactionData \<Rightarrow> u64 \<Rightarrow> u32 \<Rightarrow> u256 \<Rightarrow> CompressedBytecodeInfo list \<Rightarrow> nat \<Rightarrow> u64 \<Rightarrow>
     BootloaderTx option" where
  "bootloader_tx_new P tx predefined_refund predefined_overhead trusted_gas_limit compressed_bytecodes
     tx_offset chain_id = do {
       hash \<leftarrow> td_tx_hash (vp_keccak256 P) (vp_code_hash P) (vp_encode P) (vp_request_hash P) tx chain_id;
       tokens \<leftarrow> into_tokens (vp_code_hash P) (vp_encode P) tx;
       Some \<lparr>btx_hash = hash, btx_encoded = tokens, btx_compressed_bytecodes = compressed_bytecodes,
         btx_refund = predefined_refund, btx_gas_overhead = predefined_overhead,
         btx_trusted_gas_limit = trusted_gas_limit, btx_offset = tx_offset\<rparr>
     }"

abbreviation (input) encoded_len :: "BootloaderTx \<Rightarrow> nat" where
  "encoded_len tx \<equiv> length (btx_encoded tx)"

record BootloaderL2Block =
  bl_number :: u32
  bl_timestamp :: u64
  bl_txs_rolling_hash :: h256
  bl_prev_block_hash :: h256
  bl_first_tx_index :: nat
  bl_max_virtual_blocks_to_create :: u32
  bl_txs :: "BootloaderTx list"

abbreviation (input) EMPTY_TXS_ROLLING_HASH :: h256 where
  "EMPTY_TXS_ROLLING_HASH \<equiv> 0"

definition bootloader_block_new :: "L2BlockEnv \<Rightarrow> nat \<Rightarrow> BootloaderL2Block" where
  "bootloader_block_new l2_block first_tx_place =
     \<lparr>bl_number = l2_block_env_number l2_block, bl_timestamp = l2_block_env_timestamp l2_block,
      bl_txs_rolling_hash = EMPTY_TXS_ROLLING_HASH, bl_prev_block_hash = l2_block_env_prev_block_hash l2_block,
      bl_first_tx_index = first_tx_place,
      bl_max_virtual_blocks_to_create = l2_block_env_max_virtual_blocks_to_create l2_block, bl_txs = []\<rparr>"

definition update_rolling_hash :: "VmParams \<Rightarrow> h256 \<Rightarrow> BootloaderL2Block \<Rightarrow> BootloaderL2Block" where
  "update_rolling_hash P hash b =
     b\<lparr>bl_txs_rolling_hash := concat_and_hash (vp_keccak256 P) (bl_txs_rolling_hash b) hash\<rparr>"

definition block_push_tx :: "VmParams \<Rightarrow> BootloaderTx \<Rightarrow> BootloaderL2Block \<Rightarrow> BootloaderL2Block" where
  "block_push_tx P tx b =
     (let b = update_rolling_hash P (btx_hash tx) b in b\<lparr>bl_txs := bl_txs b @ [tx]\<rparr>)"

definition get_hash :: "VmParams \<Rightarrow> BootloaderL2Block \<Rightarrow> h256" where
  "get_hash P b = vm_l2_block_hash (vp_keccak256 P) (bl_number b) (bl_timestamp b) (bl_prev_block_hash b)
     (bl_txs_rolling_hash b)"

definition bl_l2_block :: "VmParams \<Rightarrow> BootloaderL2Block \<Rightarrow> L2Block" where
  "bl_l2_block P b = \<lparr>block_number = bl_number b, block_timestamp = bl_timestamp b, block_hash = get_hash P b\<rparr>"

record L2BlockSnapshot =
  snap_txs_rolling_hash :: h256
  snap_txs_len :: nat

definition make_block_snapshot :: "BootloaderL2Block \<Rightarrow> L2BlockSnapshot" where
  "make_block_snapshot b = \<lparr>snap_txs_rolling_hash = bl_txs_rolling_hash b, snap_txs_len = length (bl_txs b)\<rparr>"

definition apply_block_snapshot :: "L2BlockSnapshot \<Rightarrow> BootloaderL2Block \<Rightarrow> BootloaderL2Block option" where
  "apply_block_snapshot snap b =
     (let b = b\<lparr>bl_txs_rolling_hash := snap_txs_rolling_hash snap\<rparr>
      in if length (bl_txs b) > snap_txs_len snap
         then Some (b\<lparr>bl_txs := take (snap_txs_len snap) (bl_txs b)\<rparr>)
         else if length (bl_txs b) < snap_txs_len snap then None
         else Some b)"

section \<open>Writing to the memory\<close>

definition get_memory_for_compressed_bytecodes ::
    "VmParams \<Rightarrow> CompressedBytecodeInfo list \<Rightarrow> u256 list option" where
  "get_memory_for_compressed_bytecodes P compressed_bytecodes = do {
     calls \<leftarrow> those (map (encode_call (vp_code_hash P) (\<lambda>bs. vp_encode P (map Token_Bytes bs)))
       compressed_bytecodes);
     bytes_to_be_words (concat calls)
   }"

definition assemble_tx_meta :: "TxExecutionMode \<Rightarrow> bool \<Rightarrow> u256" where
  "assemble_tx_meta execution_mode execute_tx =
     word_from_be ((case execution_mode of VerifyExecute \<Rightarrow> 0 | EstimateFee \<Rightarrow> 0 | EthCall \<Rightarrow> 2)
       # replicate 30 0 @ [if execute_tx then 1 else 0])"

definition apply_l2_block_inner ::
    "BootloaderMemory \<Rightarrow> BootloaderL2Block \<Rightarrow> nat \<Rightarrow> bool \<Rightarrow> BootloaderMemory" where
  "apply_l2_block_inner memory block txs_index start_new_l2_block =
     (let block_position = TX_OPERATOR_L2_BLOCK_INFO_OFFSET + txs_index * TX_OPERATOR_SLOTS_PER_L2_BLOCK_INFO
      in memory @
        [(block_position, ucast (bl_number block)),
         (block_position + 1, ucast (bl_timestamp block)),
         (block_position + 2, h256_to_u256 (bl_prev_block_hash block)),
         (block_position + 3,
          if start_new_l2_block then ucast (bl_max_virtual_blocks_to_create block) else 0)])"

definition apply_l2_block :: "BootloaderMemory \<Rightarrow> BootloaderL2Block \<Rightarrow> nat \<Rightarrow> BootloaderMemory" where
  "apply_l2_block memory block txs_index = apply_l2_block_inner memory block txs_index True"

definition apply_tx_to_memory ::
    "VmParams \<Rightarrow> BootloaderMemory \<Rightarrow> BootloaderTx \<Rightarrow> BootloaderL2Block \<Rightarrow> nat \<Rightarrow> nat \<Rightarrow> nat \<Rightarrow>
     TxExecutionMode \<Rightarrow> bool \<Rightarrow> (BootloaderMemory \<times> nat) option" where
  "apply_tx_to_memory P memory tx block tx_index tx_offset compressed_bytecodes_size execution_mode
     start_new_l2_block =
     (let description_offset = BOOTLOADER_TX_DESCRIPTION_OFFSET + BOOTLOADER_TX_DESCRIPTION_SIZE * tx_index;
          tx_description_offset = TX_DESCRIPTION_OFFSET + tx_offset;
          memory = memory @
            [(description_offset, assemble_tx_meta execution_mode True),
             (description_offset + 1, ucast (of_nat (32 * tx_description_offset) :: u64)),
             (OPERATOR_REFUNDS_OFFSET + tx_index, ucast (btx_refund tx)),
             (TX_OVERHEAD_OFFSET + tx_index, ucast (btx_gas_overhead tx)),
             (TX_TRUSTED_GAS_LIMIT_OFFSET + tx_index, btx_trusted_gas_limit tx)];
          memory = memory @
            zip [tx_description_offset..<tx_description_offset + encoded_len tx] (btx_encoded tx);
          memory = apply_l2_block_inner memory block tx_index start_new_l2_block;
          compressed_bytecodes_offset = COMPRESSED_BYTECODES_OFFSET + 1 + compressed_bytecodes_size
      in do {
        encoded \<leftarrow> get_memory_for_compressed_bytecodes P (btx_compressed_bytecodes tx);
        Some (memory @ zip [compressed_bytecodes_offset..<compressed_bytecodes_offset + length encoded] encoded,
          length encoded)
      })"

definition apply_pubdata_to_memory ::
    "VmParams \<Rightarrow> BootloaderMemory \<Rightarrow> PubdataInput \<Rightarrow> BootloaderMemory option" where
  "apply_pubdata_to_memory P memory pubdata_information = do {
     raw \<leftarrow> build_pubdata pubdata_information True;
     let start = OPERATOR_PROVIDED_L1_MESSENGER_PUBDATA_OFFSET + 2;
     let encoded = vp_encode P [Token_Bytes raw];
     if length encoded < 32 then None
     else do {
       let pubdata = drop 32 encoded;
       if length pubdata div 32 \<le> OPERATOR_PROVIDED_L1_MESSENGER_PUBDATA_SLOTS - 2
       then Some (memory @ map (\<lambda>(slot_offset, v). (start + slot_offset, word_from_be v))
              (List.enumerate 0 (chunks 32 pubdata)))
       else None
     }
   }"

section \<open>The state\<close>

record BootloaderState =
  bs_tx_to_execute :: nat
  bs_l2_blocks :: "BootloaderL2Block list"
  bs_compressed_bytecodes_encoding :: nat
  bs_initial_memory :: BootloaderMemory
  bs_execution_mode :: TxExecutionMode
  bs_free_tx_offset :: nat
  bs_pubdata_information :: "PubdataInput option"

record BootloaderStateSnapshot =
  snap_tx_to_execute :: nat
  snap_l2_blocks_len :: nat
  snap_last_l2_block :: L2BlockSnapshot
  snap_compressed_bytecodes_encoding :: nat
  snap_free_tx_offset :: nat
  snap_is_pubdata_information_provided :: bool

definition bootloader_state_new :: "TxExecutionMode \<Rightarrow> BootloaderMemory \<Rightarrow> L2BlockEnv \<Rightarrow> BootloaderState" where
  "bootloader_state_new execution_mode initial_memory first_block =
     \<lparr>bs_tx_to_execute = 0, bs_l2_blocks = [bootloader_block_new first_block 0],
      bs_compressed_bytecodes_encoding = 0, bs_initial_memory = initial_memory,
      bs_execution_mode = execution_mode, bs_free_tx_offset = 0, bs_pubdata_information = None\<rparr>"

definition last_l2_block :: "BootloaderState \<Rightarrow> BootloaderL2Block option" where
  "last_l2_block s = (if bs_l2_blocks s = [] then None else Some (last (bs_l2_blocks s)))"

definition free_tx_index :: "BootloaderState \<Rightarrow> nat option" where
  "free_tx_index s = map_option (\<lambda>b. bl_first_tx_index b + length (bl_txs b)) (last_l2_block s)"

definition current_tx :: "BootloaderState \<Rightarrow> nat option" where
  "current_tx s = (if bs_tx_to_execute s = 0 then None else Some (bs_tx_to_execute s - 1))"

text \<open>The search goes through the blocks from the last one to the first one, and the lists below are in
  this order. \<open>find_tx_mut\<close> gives access for an update, which is an argument.\<close>

fun find_tx_in :: "nat \<Rightarrow> BootloaderL2Block list \<Rightarrow> BootloaderTx option" where
  "find_tx_in tx_index [] = None"
| "find_tx_in tx_index (b # bs) =
     (if tx_index \<ge> bl_first_tx_index b
      then (let i = tx_index - bl_first_tx_index b
            in if i < length (bl_txs b) then Some (bl_txs b ! i) else None)
      else find_tx_in tx_index bs)"

definition find_tx :: "nat \<Rightarrow> BootloaderState \<Rightarrow> BootloaderTx option" where
  "find_tx tx_index s = find_tx_in tx_index (rev (bs_l2_blocks s))"

fun find_tx_mut_in ::
    "nat \<Rightarrow> (BootloaderTx \<Rightarrow> BootloaderTx) \<Rightarrow> BootloaderL2Block list \<Rightarrow> BootloaderL2Block list option" where
  "find_tx_mut_in tx_index f [] = None"
| "find_tx_mut_in tx_index f (b # bs) =
     (if tx_index \<ge> bl_first_tx_index b
      then (let i = tx_index - bl_first_tx_index b
            in if i < length (bl_txs b)
               then Some (b\<lparr>bl_txs := (bl_txs b)[i := f (bl_txs b ! i)]\<rparr> # bs) else None)
      else map_option (\<lambda>bs'. b # bs') (find_tx_mut_in tx_index f bs))"

definition find_tx_mut :: "nat \<Rightarrow> (BootloaderTx \<Rightarrow> BootloaderTx) \<Rightarrow> BootloaderState \<Rightarrow> BootloaderState option" where
  "find_tx_mut tx_index f s =
     map_option (\<lambda>bs. s\<lparr>bs_l2_blocks := rev bs\<rparr>) (find_tx_mut_in tx_index f (rev (bs_l2_blocks s)))"

definition set_refund_for_current_tx :: "u64 \<Rightarrow> BootloaderState \<Rightarrow> BootloaderState option" where
  "set_refund_for_current_tx refund s = do {
     i \<leftarrow> current_tx s;
     find_tx_mut i (\<lambda>tx. tx\<lparr>btx_refund := refund\<rparr>) s
   }"

definition set_pubdata_input :: "PubdataInput \<Rightarrow> BootloaderState \<Rightarrow> BootloaderState option" where
  "set_pubdata_input info s =
     (if bs_pubdata_information s = None then Some (s\<lparr>bs_pubdata_information := Some info\<rparr>) else None)"

definition push_l2_block :: "L2BlockEnv \<Rightarrow> BootloaderState \<Rightarrow> BootloaderState option" where
  "push_l2_block l2_block s = do {
     i \<leftarrow> free_tx_index s;
     Some (s\<lparr>bs_l2_blocks := bs_l2_blocks s @ [bootloader_block_new l2_block i]\<rparr>)
   }"

definition start_new_l2_block :: "VmParams \<Rightarrow> L2BlockEnv \<Rightarrow> BootloaderState \<Rightarrow> BootloaderState option" where
  "start_new_l2_block P l2_block s = do {
     last_block \<leftarrow> last_l2_block s;
     if bl_txs last_block = [] then None
     else if \<not> assert_next_block (bl_l2_block P last_block) l2_block then None
     else push_l2_block l2_block s
   }"

definition push_tx ::
    "VmParams \<Rightarrow> TransactionData \<Rightarrow> u32 \<Rightarrow> u64 \<Rightarrow> CompressedBytecodeInfo list \<Rightarrow> u256 \<Rightarrow> u64 \<Rightarrow> BootloaderState \<Rightarrow>
     (BootloaderMemory \<times> BootloaderState) option" where
  "push_tx P tx predefined_overhead predefined_refund compressed_bytecodes trusted_limit chain_id s = do {
     let tx_offset = bs_free_tx_offset s;
     bootloader_tx \<leftarrow> bootloader_tx_new P tx predefined_refund predefined_overhead trusted_limit
       compressed_bytecodes tx_offset chain_id;
     block \<leftarrow> last_l2_block s;
     i \<leftarrow> free_tx_index s;
     mc \<leftarrow> apply_tx_to_memory P [] bootloader_tx block i (bs_free_tx_offset s)
       (bs_compressed_bytecodes_encoding s) (bs_execution_mode s) (bl_txs block = []);
     Some (fst mc,
       s\<lparr>bs_compressed_bytecodes_encoding := bs_compressed_bytecodes_encoding s + snd mc,
         bs_free_tx_offset := tx_offset + encoded_len bootloader_tx,
         bs_l2_blocks := butlast (bs_l2_blocks s) @ [block_push_tx P bootloader_tx block]\<rparr>)
   }"

abbreviation (input) get_pubdata_information :: "BootloaderState \<Rightarrow> PubdataInput option" where
  "get_pubdata_information s \<equiv> bs_pubdata_information s"

text \<open>The two nested loops of \<open>bootloader_memory\<close>: the loop state is the memory, the offset, the size of
  the compressed bytecodes and the index of the next transaction.\<close>

type_synonym MemoryLoop = "BootloaderMemory \<times> nat \<times> nat \<times> nat"

fun apply_block_txs ::
    "VmParams \<Rightarrow> TxExecutionMode \<Rightarrow> BootloaderL2Block \<Rightarrow> nat \<Rightarrow> BootloaderTx list \<Rightarrow> MemoryLoop \<Rightarrow>
     MemoryLoop option" where
  "apply_block_txs P mode l2_block num [] st = Some st"
| "apply_block_txs P mode l2_block num (tx # txs) (memory, tx_offset, compressed_offset, tx_index) = do {
     mc \<leftarrow> apply_tx_to_memory P memory tx l2_block tx_index tx_offset compressed_offset mode (num = 0);
     apply_block_txs P mode l2_block (num + 1) txs
       (fst mc, tx_offset + encoded_len tx, compressed_offset + snd mc, tx_index + 1)
   }"

fun apply_blocks :: "VmParams \<Rightarrow> TxExecutionMode \<Rightarrow> BootloaderL2Block list \<Rightarrow> MemoryLoop \<Rightarrow> MemoryLoop option" where
  "apply_blocks P mode [] st = Some st"
| "apply_blocks P mode (l2_block # blocks) st = do {
     (memory, tx_offset, compressed_offset, tx_index) \<leftarrow> apply_block_txs P mode l2_block 0 (bl_txs l2_block) st;
     apply_blocks P mode blocks
       (if bl_txs l2_block = [] then apply_l2_block memory l2_block tx_index else memory,
        tx_offset, compressed_offset, tx_index)
   }"

definition bootloader_memory :: "VmParams \<Rightarrow> BootloaderState \<Rightarrow> BootloaderMemory option" where
  "bootloader_memory P s = do {
     st \<leftarrow> apply_blocks P (bs_execution_mode s) (bs_l2_blocks s) (bs_initial_memory s, 0, 0, 0);
     pubdata_information \<leftarrow> bs_pubdata_information s;
     apply_pubdata_to_memory P (fst st) pubdata_information
   }"

definition get_last_tx_compressed_bytecodes :: "BootloaderState \<Rightarrow> CompressedBytecodeInfo list option" where
  "get_last_tx_compressed_bytecodes s =
     map_option (\<lambda>b. if bl_txs b = [] then [] else btx_compressed_bytecodes (last (bl_txs b))) (last_l2_block s)"

definition move_tx_to_execute_pointer :: "BootloaderState \<Rightarrow> (nat \<times> BootloaderState) option" where
  "move_tx_to_execute_pointer s = do {
     i \<leftarrow> free_tx_index s;
     if bs_tx_to_execute s < i
     then Some (bs_tx_to_execute s, s\<lparr>bs_tx_to_execute := bs_tx_to_execute s + 1\<rparr>)
     else None
   }"

abbreviation (input) get_tx_description_offset :: "nat \<Rightarrow> BootloaderState \<Rightarrow> nat option" where
  "get_tx_description_offset tx_index s \<equiv>
     map_option (\<lambda>tx. TX_DESCRIPTION_OFFSET + btx_offset tx) (find_tx tx_index s)"

definition insert_fictive_l2_block ::
    "VmParams \<Rightarrow> BootloaderState \<Rightarrow> (BootloaderL2Block \<times> BootloaderState) option" where
  "insert_fictive_l2_block P s = do {
     block \<leftarrow> last_l2_block s;
     s \<leftarrow> (if bl_txs block \<noteq> []
          then start_new_l2_block P \<lparr>l2_block_env_number = bl_number block + 1, l2_block_env_timestamp = bl_timestamp block + 1,
            l2_block_env_prev_block_hash = get_hash P block, l2_block_env_max_virtual_blocks_to_create = 1\<rparr> s
          else Some s);
     block \<leftarrow> last_l2_block s;
     Some (block, s)
   }"

definition get_snapshot :: "BootloaderState \<Rightarrow> BootloaderStateSnapshot option" where
  "get_snapshot s = do {
     block \<leftarrow> last_l2_block s;
     Some \<lparr>snap_tx_to_execute = bs_tx_to_execute s, snap_l2_blocks_len = length (bs_l2_blocks s),
       snap_last_l2_block = make_block_snapshot block,
       snap_compressed_bytecodes_encoding = bs_compressed_bytecodes_encoding s,
       snap_free_tx_offset = bs_free_tx_offset s,
       snap_is_pubdata_information_provided = (bs_pubdata_information s \<noteq> None)\<rparr>
   }"

definition apply_snapshot :: "BootloaderStateSnapshot \<Rightarrow> BootloaderState \<Rightarrow> BootloaderState option" where
  "apply_snapshot snap s =
     (let s = s\<lparr>bs_tx_to_execute := snap_tx_to_execute snap,
                bs_compressed_bytecodes_encoding := snap_compressed_bytecodes_encoding snap,
                bs_free_tx_offset := snap_free_tx_offset snap\<rparr>
      in if length (bs_l2_blocks s) < snap_l2_blocks_len snap then None
         else let s = s\<lparr>bs_l2_blocks := take (snap_l2_blocks_len snap) (bs_l2_blocks s)\<rparr>
         in do {
           block \<leftarrow> last_l2_block s;
           block \<leftarrow> apply_block_snapshot (snap_last_l2_block snap) block;
           let s = s\<lparr>bs_l2_blocks := butlast (bs_l2_blocks s) @ [block]\<rparr>;
           if \<not> snap_is_pubdata_information_provided snap then Some (s\<lparr>bs_pubdata_information := None\<rparr>)
           else if bs_pubdata_information s \<noteq> None then Some s
           else None
         })"

section \<open>Sequences of operations\<close>

text \<open>What a batch does with the state: the result also has the writes for the memory of the running VM.\<close>

datatype BootloaderOp =
    Op_StartBlock L2BlockEnv
  | Op_PushTx TransactionData u32 u64 "CompressedBytecodeInfo list" u256 u64
  | Op_MovePointer
  | Op_SetPubdata PubdataInput
  | Op_FictiveBlock

fun bs_step :: "VmParams \<Rightarrow> BootloaderOp \<Rightarrow> BootloaderState \<Rightarrow> (BootloaderMemory \<times> BootloaderState) option" where
  "bs_step P (Op_StartBlock e) s = map_option (\<lambda>s. ([], s)) (start_new_l2_block P e s)"
| "bs_step P (Op_PushTx tx overhead refund bytecodes limit chain_id) s =
     push_tx P tx overhead refund bytecodes limit chain_id s"
| "bs_step P Op_MovePointer s = map_option (\<lambda>(_, s). ([], s)) (move_tx_to_execute_pointer s)"
| "bs_step P (Op_SetPubdata p) s = map_option (\<lambda>s. ([], s)) (set_pubdata_input p s)"
| "bs_step P Op_FictiveBlock s = map_option (\<lambda>(_, s). ([], s)) (insert_fictive_l2_block P s)"

fun bs_run :: "VmParams \<Rightarrow> BootloaderOp list \<Rightarrow> BootloaderState \<Rightarrow> (BootloaderMemory \<times> BootloaderState) option" where
  "bs_run P [] s = Some ([], s)"
| "bs_run P (op # ops) s = do {
     (m, s) \<leftarrow> bs_step P op s;
     (ms, s) \<leftarrow> bs_run P ops s;
     Some (m @ ms, s)
   }"

lemma bs_run_Cons:
  assumes "bs_run P (op # ops) s = Some (inc, s')"
  obtains m s1 ms where "bs_step P op s = Some (m, s1)" "bs_run P ops s1 = Some (ms, s')" "inc = m @ ms"
  using assms by (auto simp: bind_eq_Some_conv)

lemma last_l2_block_Some: "last_l2_block s = Some b \<longleftrightarrow> (\<exists>bs. bs_l2_blocks s = bs @ [b])"
  unfolding last_l2_block_def
  by (metis append_butlast_last_id last_snoc option.distinct(1) option.inject snoc_eq_iff_butlast)

text \<open>A step either pushes a transaction, or appends an empty block to a block with transactions, or
  changes neither blocks nor memory.\<close>

lemma push_tx_cases:
  assumes "push_tx P tx overhead refund bytecodes limit chain_id s = Some (m, s')"
  obtains bs b t c where "bs_l2_blocks s = bs @ [b]"
    "apply_tx_to_memory P [] t b (bl_first_tx_index b + length (bl_txs b)) (bs_free_tx_offset s)
       (bs_compressed_bytecodes_encoding s) (bs_execution_mode s) (bl_txs b = []) = Some (m, c)"
    "s' = s\<lparr>bs_compressed_bytecodes_encoding := bs_compressed_bytecodes_encoding s + c,
         bs_free_tx_offset := bs_free_tx_offset s + encoded_len t,
         bs_l2_blocks := bs @ [block_push_tx P t b]\<rparr>"
  using assms unfolding push_tx_def Let_def
  by (auto simp: bind_eq_Some_conv last_l2_block_Some free_tx_index_def)

lemma start_new_l2_block_cases:
  assumes "start_new_l2_block P e s = Some s'"
  obtains bs b where "bs_l2_blocks s = bs @ [b]" "bl_txs b \<noteq> []"
    "s' = s\<lparr>bs_l2_blocks := bs @ [b, bootloader_block_new e (bl_first_tx_index b + length (bl_txs b))]\<rparr>"
  using assms unfolding start_new_l2_block_def push_l2_block_def
  by (auto simp: bind_eq_Some_conv last_l2_block_Some free_tx_index_def split: if_splits)

lemma bs_step_cases:
  assumes "bs_step P op s = Some (m, s')"
  obtains
    (push) bs b t c where "bs_l2_blocks s = bs @ [b]"
      "apply_tx_to_memory P [] t b (bl_first_tx_index b + length (bl_txs b)) (bs_free_tx_offset s)
         (bs_compressed_bytecodes_encoding s) (bs_execution_mode s) (bl_txs b = []) = Some (m, c)"
      "s' = s\<lparr>bs_compressed_bytecodes_encoding := bs_compressed_bytecodes_encoding s + c,
           bs_free_tx_offset := bs_free_tx_offset s + encoded_len t,
           bs_l2_blocks := bs @ [block_push_tx P t b]\<rparr>"
  | (block) bs b e where "m = []" "bs_l2_blocks s = bs @ [b]" "bl_txs b \<noteq> []"
      "s' = s\<lparr>bs_l2_blocks := bs @ [b, bootloader_block_new e (bl_first_tx_index b + length (bl_txs b))]\<rparr>"
  | (move) "m = []" "s' = s\<lparr>bs_tx_to_execute := bs_tx_to_execute s + 1\<rparr>"
  | (pubdata) p where "m = []" "bs_pubdata_information s = None" "s' = s\<lparr>bs_pubdata_information := Some p\<rparr>"
  | (none) "m = []" "s' = s"
proof (cases op)
  case (Op_StartBlock e)
  then have "m = []" "start_new_l2_block P e s = Some s'" using assms by auto
  then show ?thesis by (auto elim!: start_new_l2_block_cases intro: block)
next
  case (Op_PushTx tx overhead refund bytecodes limit chain_id)
  then have "push_tx P tx overhead refund bytecodes limit chain_id s = Some (m, s')" using assms by simp
  then show ?thesis by (auto elim!: push_tx_cases intro: push)
next
  case Op_MovePointer
  then show ?thesis
    using assms by (auto simp: move_tx_to_execute_pointer_def bind_eq_Some_conv split: if_splits intro: move)
next
  case (Op_SetPubdata p)
  then show ?thesis using assms by (auto simp: set_pubdata_input_def split: if_splits intro: pubdata)
next
  case Op_FictiveBlock
  then have m: "m = []" and "\<exists>b b'. last_l2_block s = Some b \<and>
      (if bl_txs b \<noteq> [] then start_new_l2_block P b' s = Some s' else s' = s)"
    using assms by (auto simp: insert_fictive_l2_block_def bind_eq_Some_conv split: if_splits)
  then show ?thesis by (auto elim!: start_new_l2_block_cases intro: block none split: if_splits)
qed

section \<open>Snapshots\<close>

text \<open>\<open>s'\<close> is \<open>s\<close> after transactions were added to its last block and blocks were appended.\<close>

definition grows :: "BootloaderState \<Rightarrow> BootloaderState \<Rightarrow> bool" where
  "grows s s' \<longleftrightarrow> (\<exists>bs b h txs more.
     bs_l2_blocks s = bs @ [b] \<and>
     bs_l2_blocks s' = bs @ b\<lparr>bl_txs_rolling_hash := h, bl_txs := bl_txs b @ txs\<rparr> # more) \<and>
   bs_initial_memory s' = bs_initial_memory s \<and> bs_execution_mode s' = bs_execution_mode s \<and>
   (bs_pubdata_information s = None \<or> bs_pubdata_information s' = bs_pubdata_information s)"

lemma grows_refl: "last_l2_block s \<noteq> None \<Longrightarrow> grows s s"
proof -
  assume "last_l2_block s \<noteq> None"
  then obtain bs b where b: "bs_l2_blocks s = bs @ [b]" by (auto simp: last_l2_block_Some)
  then have "bs_l2_blocks s = bs @ b\<lparr>bl_txs_rolling_hash := bl_txs_rolling_hash b, bl_txs := bl_txs b @ []\<rparr> # []"
    by simp
  with b show ?thesis unfolding grows_def by blast
qed

lemma grows_blocks:
  assumes "grows s s1" "bs_l2_blocks s1 = cs @ [c]"
    "(\<exists>h t. c' = c\<lparr>bl_txs_rolling_hash := h, bl_txs := bl_txs c @ [t]\<rparr> \<and> new = []) \<or> c' = c"
    "bs_l2_blocks s2 = cs @ c' # new" "bs_initial_memory s2 = bs_initial_memory s1"
    "bs_execution_mode s2 = bs_execution_mode s1" "bs_pubdata_information s2 = bs_pubdata_information s1"
  shows "grows s s2"
proof -
  obtain bs b h txs more where b: "bs_l2_blocks s = bs @ [b]"
    and s1: "bs_l2_blocks s1 = bs @ b\<lparr>bl_txs_rolling_hash := h, bl_txs := bl_txs b @ txs\<rparr> # more"
    using assms(1) unfolding grows_def by blast
  have "\<exists>h' txs' more'. bs_l2_blocks s2 = bs @ b\<lparr>bl_txs_rolling_hash := h', bl_txs := bl_txs b @ txs'\<rparr> # more'"
  proof (cases more rule: rev_cases)
    case Nil
    then have c: "cs = bs" "c = b\<lparr>bl_txs_rolling_hash := h, bl_txs := bl_txs b @ txs\<rparr>"
      using s1 assms(2) by simp_all
    show ?thesis
      using assms(3)
    proof
      assume "\<exists>h t. c' = c\<lparr>bl_txs_rolling_hash := h, bl_txs := bl_txs c @ [t]\<rparr> \<and> new = []"
      then obtain h' t where "c' = c\<lparr>bl_txs_rolling_hash := h', bl_txs := bl_txs c @ [t]\<rparr>" by blast
      then show ?thesis
        using assms(4) c by (intro exI [of _ h'] exI [of _ "txs @ [t]"] exI [of _ new]) simp
    next
      assume "c' = c"
      then show ?thesis using assms(4) c by (intro exI [of _ h] exI [of _ txs] exI [of _ new]) simp
    qed
  next
    case (snoc more1 d)
    then have "cs = bs @ b\<lparr>bl_txs_rolling_hash := h, bl_txs := bl_txs b @ txs\<rparr> # more1"
      using s1 assms(2) by simp
    then show ?thesis
      using assms(4) by (intro exI [of _ h] exI [of _ txs] exI [of _ "more1 @ c' # new"]) simp
  qed
  then show ?thesis using assms(1,5-7) b unfolding grows_def by auto
qed

lemma block_push_tx_eq:
  "block_push_tx P t b = b\<lparr>bl_txs_rolling_hash := concat_and_hash (vp_keccak256 P) (bl_txs_rolling_hash b) (btx_hash t),
     bl_txs := bl_txs b @ [t]\<rparr>"
  by (simp add: block_push_tx_def update_rolling_hash_def Let_def)

lemma grows_step:
  assumes "grows s s1" "bs_step P op s1 = Some (m, s2)"
  shows "grows s s2"
  using assms(2)
proof (cases rule: bs_step_cases)
  case (push bs b t c)
  then show ?thesis by (intro grows_blocks [OF assms(1) push(1), of "block_push_tx P t b" "[]"])
      (auto simp: block_push_tx_eq)
next
  case (block bs b e)
  then show ?thesis by (intro grows_blocks [OF assms(1) block(2), of b]) auto
next
  case move
  then show ?thesis using assms(1) by (simp add: grows_def)
next
  case (pubdata p)
  then show ?thesis using assms(1) by (auto simp: grows_def)
next
  case none
  then show ?thesis using assms(1) by simp
qed

lemma grows_run: "grows s s1 \<Longrightarrow> bs_run P ops s1 = Some (m, s2) \<Longrightarrow> grows s s2"
proof (induction ops arbitrary: s1 m)
  case (Cons op ops)
  from Cons.prems(2) show ?case
    by (rule bs_run_Cons) (auto intro: Cons.IH grows_step [OF Cons.prems(1)])
qed simp

lemma snapshot_restores:
  assumes "grows s s'" "get_snapshot s = Some snap"
  shows "apply_snapshot snap s' = Some s"
proof -
  obtain bs b h txs more where b: "bs_l2_blocks s = bs @ [b]"
    and s': "bs_l2_blocks s' = bs @ b\<lparr>bl_txs_rolling_hash := h, bl_txs := bl_txs b @ txs\<rparr> # more"
    using assms(1) unfolding grows_def by blast
  have last: "last_l2_block s = Some b" using b by (simp add: last_l2_block_Some)
  have snap: "snap = \<lparr>snap_tx_to_execute = bs_tx_to_execute s, snap_l2_blocks_len = length bs + 1,
       snap_last_l2_block = make_block_snapshot b,
       snap_compressed_bytecodes_encoding = bs_compressed_bytecodes_encoding s,
       snap_free_tx_offset = bs_free_tx_offset s,
       snap_is_pubdata_information_provided = (bs_pubdata_information s \<noteq> None)\<rparr>"
    using assms(2) by (simp add: get_snapshot_def last b)
  have "apply_block_snapshot (make_block_snapshot b) (b\<lparr>bl_txs_rolling_hash := h, bl_txs := bl_txs b @ txs\<rparr>) = Some b"
    by (auto simp: apply_block_snapshot_def make_block_snapshot_def Let_def)
  then show ?thesis
    using assms(1) b by (auto simp: snap apply_snapshot_def Let_def s' last_l2_block_def grows_def)
qed

text \<open>C26. Rolling the bootloader state back to a snapshot restores it exactly: whatever sequence of blocks,
  transactions, moves of the execution pointer and pubdata inputs follows the snapshot, applying the
  snapshot does not panic and gives the state from which it was taken.\<close>
theorem bootloader_snapshot_restores:
  assumes "get_snapshot s = Some snap" "bs_run P ops s = Some (m, s')"
  shows "apply_snapshot snap s' = Some s"
proof -
  have "last_l2_block s \<noteq> None" using assms(1) by (auto simp: get_snapshot_def bind_eq_Some_conv)
  then have "grows s s'" using assms(2) grows_refl grows_run by blast
  then show ?thesis using assms(1) by (rule snapshot_restores)
qed

section \<open>Incremental and complete memory\<close>

text \<open>The writes are appended to the memory they are given, and depend on the block only through its
  number, its timestamp, the previous hash and the number of virtual blocks.\<close>

definition same_info :: "BootloaderL2Block \<Rightarrow> BootloaderL2Block \<Rightarrow> bool" where
  "same_info b b' \<longleftrightarrow> bl_number b = bl_number b' \<and> bl_timestamp b = bl_timestamp b' \<and>
     bl_prev_block_hash b = bl_prev_block_hash b' \<and>
     bl_max_virtual_blocks_to_create b = bl_max_virtual_blocks_to_create b'"

lemma apply_tx_to_memory_append:
  assumes "same_info b b'"
  shows "apply_tx_to_memory P mem t b i off c mode f =
    map_option (\<lambda>(m, k). (mem @ m, k)) (apply_tx_to_memory P [] t b' i off c mode f)"
  using assms unfolding apply_tx_to_memory_def apply_l2_block_inner_def Let_def same_info_def
  by (cases "get_memory_for_compressed_bytecodes P (btx_compressed_bytecodes t)") simp_all

lemma apply_pubdata_append:
  "apply_pubdata_to_memory P mem p = map_option (\<lambda>m. mem @ m) (apply_pubdata_to_memory P [] p)"
  unfolding apply_pubdata_to_memory_def Let_def by (cases "build_pubdata p True") auto

lemma apply_block_txs_info:
  "same_info b b' \<Longrightarrow> apply_block_txs P mode b num txs st = apply_block_txs P mode b' num txs st"
proof (induction txs arbitrary: num st)
  case (Cons t txs)
  have "apply_tx_to_memory P m t b i off c mode f = apply_tx_to_memory P m t b' i off c mode f" for m i off c f
    by (rule trans [OF apply_tx_to_memory_append [OF Cons.prems] sym [OF apply_tx_to_memory_append]])
      (simp add: same_info_def)
  then show ?case using Cons.IH [OF Cons.prems] by (cases st) simp
qed simp

lemma apply_block_txs_snoc:
  "apply_block_txs P mode b num (txs @ [t]) st =
     do { st' \<leftarrow> apply_block_txs P mode b num txs st; apply_block_txs P mode b (num + length txs) [t] st' }"
proof (induction txs arbitrary: num st)
  case (Cons u txs)
  obtain m off c i where st: "st = (m, off, c, i)" by (cases st)
  show ?case by (simp add: st Cons.IH del: apply_block_txs.simps(2)) (simp add: Cons.IH)
qed simp

lemma apply_blocks_append:
  "apply_blocks P mode (bs @ cs) st = do { st' \<leftarrow> apply_blocks P mode bs st; apply_blocks P mode cs st' }"
proof (induction bs arbitrary: st)
  case (Cons b bs)
  show ?case
    by (cases "apply_block_txs P mode b 0 (bl_txs b) st") (auto simp: Cons.IH)
qed simp

text \<open>The loops of \<open>bootloader_memory\<close> stop, before the last block's own information, with the initial
  memory and the increments, and with the counters of the state.\<close>

definition memory_tracks :: "VmParams \<Rightarrow> BootloaderMemory \<Rightarrow> BootloaderState \<Rightarrow> bool" where
  "memory_tracks P inc s \<longleftrightarrow> (\<exists>bs b st.
     bs_l2_blocks s = bs @ [b] \<and>
     apply_blocks P (bs_execution_mode s) bs (bs_initial_memory s, 0, 0, 0) = Some st \<and>
     apply_block_txs P (bs_execution_mode s) b 0 (bl_txs b) st =
       Some (bs_initial_memory s @ inc, bs_free_tx_offset s, bs_compressed_bytecodes_encoding s,
             bl_first_tx_index b + length (bl_txs b)))"

lemma memory_tracks_new: "memory_tracks P [] (bootloader_state_new mode mem e)"
  by (simp add: memory_tracks_def bootloader_state_new_def bootloader_block_new_def)

lemma memory_tracks_step:
  assumes "memory_tracks P inc s" "bs_step P op s = Some (m, s')"
  shows "memory_tracks P (inc @ m) s'"
proof -
  obtain bs b st where b: "bs_l2_blocks s = bs @ [b]"
    and st: "apply_blocks P (bs_execution_mode s) bs (bs_initial_memory s, 0, 0, 0) = Some st"
    and txs: "apply_block_txs P (bs_execution_mode s) b 0 (bl_txs b) st =
       Some (bs_initial_memory s @ inc, bs_free_tx_offset s, bs_compressed_bytecodes_encoding s,
             bl_first_tx_index b + length (bl_txs b))"
    using assms(1) unfolding memory_tracks_def by blast
  from assms(2) show ?thesis
  proof (cases rule: bs_step_cases)
    case (push bs' b' t c)
    then have eq: "bs' = bs" "b' = b" using b by simp_all
    have info: "same_info (block_push_tx P t b) b" by (simp add: same_info_def block_push_tx_eq)
    have "apply_tx_to_memory P (bs_initial_memory s @ inc) t b (bl_first_tx_index b + length (bl_txs b))
        (bs_free_tx_offset s) (bs_compressed_bytecodes_encoding s) (bs_execution_mode s) (bl_txs b = []) =
      Some ((bs_initial_memory s @ inc) @ m, c)"
      using push(2) eq by (subst apply_tx_to_memory_append [of b b]) (simp_all add: same_info_def)
    then have "apply_block_txs P (bs_execution_mode s) b 0 (bl_txs b @ [t]) st =
       Some (bs_initial_memory s @ inc @ m, bs_free_tx_offset s + encoded_len t,
         bs_compressed_bytecodes_encoding s + c, bl_first_tx_index b + length (bl_txs b) + 1)"
      by (simp add: apply_block_txs_snoc txs)
    then show ?thesis
      unfolding memory_tracks_def
      by (intro exI [of _ bs] exI [of _ "block_push_tx P t b"] exI [of _ st])
        (simp add: push(3) eq st apply_block_txs_info [OF info [unfolded block_push_tx_eq]] block_push_tx_eq)
  next
    case (block bs' b' e)
    then have eq: "bs' = bs" "b' = b" using b by simp_all
    let ?st = "(bs_initial_memory s @ inc, bs_free_tx_offset s, bs_compressed_bytecodes_encoding s,
             bl_first_tx_index b + length (bl_txs b))"
    have "apply_blocks P (bs_execution_mode s) (bs @ [b]) (bs_initial_memory s, 0, 0, 0) = Some ?st"
      using block(3) eq by (simp add: apply_blocks_append st txs)
    then show ?thesis
      unfolding memory_tracks_def
      by (intro exI [of _ "bs @ [b]"] exI exI [of _ ?st])
        (auto simp: block(1,4) eq bootloader_block_new_def)
  next
    case move
    then show ?thesis using assms(1) by (simp add: memory_tracks_def)
  next
    case (pubdata p)
    then show ?thesis using assms(1) by (simp add: memory_tracks_def)
  next
    case none
    then show ?thesis using assms(1) by simp
  qed
qed

lemma memory_tracks_run:
  "memory_tracks P inc s \<Longrightarrow> bs_run P ops s = Some (m, s') \<Longrightarrow> memory_tracks P (inc @ m) s'"
proof (induction ops arbitrary: inc s m)
  case (Cons op ops)
  from Cons.prems(2) show ?case
    by (rule bs_run_Cons) (use Cons.IH [OF memory_tracks_step [OF Cons.prems(1)]] in auto)
qed simp

lemma bs_run_initial:
  "bs_run P ops s = Some (m, s') \<Longrightarrow> bs_initial_memory s' = bs_initial_memory s"
proof (induction ops arbitrary: s m)
  case (Cons op ops)
  from Cons.prems show ?case
  proof (rule bs_run_Cons)
    fix m1 s1 ms assume "bs_step P op s = Some (m1, s1)" "bs_run P ops s1 = Some (ms, s')"
    then show ?thesis using Cons.IH [of s1 ms] by (auto elim!: bs_step_cases)
  qed
qed simp


section \<open>Memory areas\<close>

text \<open>The slots in use after \<open>n\<close> transactions with \<open>off\<close> encoded words and \<open>c\<close> words of compressed bytecodes.\<close>

definition used_slots :: "nat \<Rightarrow> nat \<Rightarrow> nat \<Rightarrow> nat set" where
  "used_slots n off c =
     {OPERATOR_REFUNDS_OFFSET..<OPERATOR_REFUNDS_OFFSET + n} \<union>
     {TX_OVERHEAD_OFFSET..<TX_OVERHEAD_OFFSET + n} \<union>
     {TX_TRUSTED_GAS_LIMIT_OFFSET..<TX_TRUSTED_GAS_LIMIT_OFFSET + n} \<union>
     {TX_OPERATOR_L2_BLOCK_INFO_OFFSET..<TX_OPERATOR_L2_BLOCK_INFO_OFFSET + 4 * n} \<union>
     {COMPRESSED_BYTECODES_OFFSET + 1..<COMPRESSED_BYTECODES_OFFSET + 1 + c} \<union>
     {BOOTLOADER_TX_DESCRIPTION_OFFSET..<BOOTLOADER_TX_DESCRIPTION_OFFSET + 2 * n} \<union>
     {TX_DESCRIPTION_OFFSET..<TX_DESCRIPTION_OFFSET + off}"

definition tx_slots :: "nat \<Rightarrow> nat \<Rightarrow> nat \<Rightarrow> nat \<Rightarrow> nat \<Rightarrow> nat list" where
  "tx_slots n off c len k =
     [BOOTLOADER_TX_DESCRIPTION_OFFSET + 2 * n, BOOTLOADER_TX_DESCRIPTION_OFFSET + 2 * n + 1,
      OPERATOR_REFUNDS_OFFSET + n, TX_OVERHEAD_OFFSET + n, TX_TRUSTED_GAS_LIMIT_OFFSET + n]
     @ [TX_DESCRIPTION_OFFSET + off..<TX_DESCRIPTION_OFFSET + off + len]
     @ [TX_OPERATOR_L2_BLOCK_INFO_OFFSET + n * 4, TX_OPERATOR_L2_BLOCK_INFO_OFFSET + n * 4 + 1,
        TX_OPERATOR_L2_BLOCK_INFO_OFFSET + n * 4 + 2, TX_OPERATOR_L2_BLOCK_INFO_OFFSET + n * 4 + 3]
     @ [COMPRESSED_BYTECODES_OFFSET + 1 + c..<COMPRESSED_BYTECODES_OFFSET + 1 + c + k]"

lemma apply_tx_slots:
  assumes "apply_tx_to_memory P [] t b n off c mode f = Some (m, k)"
  shows "map fst m = tx_slots n off c (encoded_len t) k"
  using assms unfolding apply_tx_to_memory_def apply_l2_block_inner_def tx_slots_def Let_def
  by (auto simp: bind_eq_Some_conv map_fst_zip)

lemma used_slots_mono: "n \<le> n' \<Longrightarrow> off \<le> off' \<Longrightarrow> c \<le> c' \<Longrightarrow> used_slots n off c \<subseteq> used_slots n' off' c'"
  unfolding used_slots_def by auto

lemma tx_slots_used: "set (tx_slots n off c len k) \<subseteq> used_slots (n + 1) (off + len) (c + k)"
  unfolding used_slots_def tx_slots_def by auto

lemma tx_slots_fresh:
  assumes "n < MAX_TXS_IN_BATCH" "c + k < COMPRESSED_BYTECODES_SLOTS"
  shows "distinct (tx_slots n off c len k)" "set (tx_slots n off c len k) \<inter> used_slots n off c = {}"
  using assms unfolding tx_slots_def used_slots_def layout_defs by auto

definition tx_count :: "BootloaderState \<Rightarrow> nat" where
  "tx_count s = (case free_tx_index s of Some i \<Rightarrow> i | None \<Rightarrow> 0)"

definition state_slots :: "BootloaderState \<Rightarrow> nat set" where
  "state_slots s = used_slots (tx_count s) (bs_free_tx_offset s) (bs_compressed_bytecodes_encoding s)"

text \<open>The number of transactions and the compressed bytecodes respect the sizes of their areas.\<close>

definition slots_available :: "BootloaderState \<Rightarrow> bool" where
  "slots_available s \<longleftrightarrow>
     tx_count s \<le> MAX_TXS_IN_BATCH \<and> bs_compressed_bytecodes_encoding s < COMPRESSED_BYTECODES_SLOTS"

text \<open>Operations only advance the counters, and their writes go to slots that were free before.\<close>

lemma bs_step_slots:
  assumes "bs_step P op s = Some (m, s')"
  shows "state_slots s \<subseteq> state_slots s'" "slots_available s' \<Longrightarrow> slots_available s"
    "slots_available s' \<Longrightarrow> distinct (map fst m) \<and> set (map fst m) \<subseteq> state_slots s' - state_slots s"
proof -
  have "state_slots s \<subseteq> state_slots s' \<and> (slots_available s' \<longrightarrow> slots_available s \<and>
    distinct (map fst m) \<and> set (map fst m) \<subseteq> state_slots s' - state_slots s)"
    using assms
  proof (cases rule: bs_step_cases)
    case (push bs b t k)
    define n where "n = bl_first_tx_index b + length (bl_txs b)"
    have n: "tx_count s = n" "tx_count s' = n + 1"
      unfolding tx_count_def free_tx_index_def last_l2_block_def n_def
      by (simp_all add: push(1,3) block_push_tx_eq)
    let ?off = "bs_free_tx_offset s" and ?c = "bs_compressed_bytecodes_encoding s"
    have m: "map fst m = tx_slots n ?off ?c (encoded_len t) k"
      using apply_tx_slots [OF push(2)] by (simp add: n_def)
    have s': "state_slots s' = used_slots (n + 1) (?off + encoded_len t) (?c + k)"
      unfolding state_slots_def n by (simp add: push(3))
    have s: "state_slots s = used_slots n ?off ?c" by (simp add: state_slots_def n)
    have "state_slots s \<subseteq> state_slots s'" unfolding s s' by (rule used_slots_mono) simp_all
    moreover have "n < MAX_TXS_IN_BATCH \<and> ?c + k < COMPRESSED_BYTECODES_SLOTS" if "slots_available s'"
      using that unfolding slots_available_def n by (simp add: push(3))
    ultimately show ?thesis
      using tx_slots_fresh [of n ?c k ?off "encoded_len t"] tx_slots_used [of n ?off ?c "encoded_len t" k]
      unfolding m s s' slots_available_def [of s] n by auto
  next
    case (block bs b e)
    then have "tx_count s' = tx_count s"
      by (simp add: tx_count_def free_tx_index_def last_l2_block_def bootloader_block_new_def)
    then show ?thesis using block(1,4) by (simp add: state_slots_def slots_available_def)
  next
    case move
    then show ?thesis
      by (simp add: state_slots_def slots_available_def tx_count_def free_tx_index_def last_l2_block_def)
  next
    case (pubdata p)
    then show ?thesis
      by (simp add: state_slots_def slots_available_def tx_count_def free_tx_index_def last_l2_block_def)
  next
    case none
    then show ?thesis by simp
  qed
  then show "state_slots s \<subseteq> state_slots s'" "slots_available s' \<Longrightarrow> slots_available s"
    "slots_available s' \<Longrightarrow> distinct (map fst m) \<and> set (map fst m) \<subseteq> state_slots s' - state_slots s"
    by blast+
qed

lemma bs_run_slots:
  "bs_run P ops s = Some (m, s') \<Longrightarrow> slots_available s' \<Longrightarrow>
     state_slots s \<subseteq> state_slots s' \<and> slots_available s \<and>
     distinct (map fst m) \<and> set (map fst m) \<subseteq> state_slots s' - state_slots s"
proof (induction ops arbitrary: s m)
  case (Cons op ops)
  from Cons.prems(1) obtain m1 s1 ms where step: "bs_step P op s = Some (m1, s1)"
    and run: "bs_run P ops s1 = Some (ms, s')" and m: "m = m1 @ ms" by (rule bs_run_Cons)
  have rest: "state_slots s1 \<subseteq> state_slots s'" "slots_available s1" "distinct (map fst ms)"
    "set (map fst ms) \<subseteq> state_slots s' - state_slots s1"
    using Cons.IH [OF run Cons.prems(2)] by blast+
  have first: "state_slots s \<subseteq> state_slots s1" "slots_available s" "distinct (map fst m1)"
    "set (map fst m1) \<subseteq> state_slots s1 - state_slots s"
    using bs_step_slots [OF step] rest(2) by blast+
  have "set (map fst m1) \<inter> set (map fst ms) = {}" using first(4) rest(4) by blast
  then show ?case using first rest unfolding m map_append set_append distinct_append by blast
qed simp

lemma layout_ends:
  "TX_DESCRIPTION_OFFSET + unat (get_bootloader_tx_encoding_space v) = unat (get_result_success_first_slot v)"
  "unat (get_result_success_first_slot v) = unat (get_vm_hook_params_start_position v) + 4"
  by (cases v; simp add: get_bootloader_tx_encoding_space_def get_result_success_first_slot_def layout_defs
      vm_latest_used_bootloader_memory_words_def unat_of_nat)+

lemma used_slots_bounds:
  assumes "a \<in> used_slots n off c" "n \<le> MAX_TXS_IN_BATCH" "c < COMPRESSED_BYTECODES_SLOTS"
  shows "OPERATOR_REFUNDS_OFFSET \<le> a"
    "a < PRIORITY_TXS_L1_DATA_OFFSET \<or> BOOTLOADER_TX_DESCRIPTION_OFFSET \<le> a"
    "a < TX_DESCRIPTION_OFFSET + off"
  using assms unfolding used_slots_def layout_defs by auto

lemma bs_run_writes:
  assumes "bs_run P ops (bootloader_state_new mode init first) = Some (inc, s)" "slots_available s"
    "bs_free_tx_offset s \<le> unat (get_bootloader_tx_encoding_space v)"
  shows "distinct (map fst inc) \<and>
    (\<forall>a \<in> fst ` set inc.
       OPERATOR_REFUNDS_OFFSET \<le> a \<and> a < unat (get_result_success_first_slot v) \<and>
       (a < PRIORITY_TXS_L1_DATA_OFFSET \<or> BOOTLOADER_TX_DESCRIPTION_OFFSET \<le> a) \<and>
       (bs_free_tx_offset s + 4 \<le> unat (get_bootloader_tx_encoding_space v) \<longrightarrow>
          a < unat (get_vm_hook_params_start_position v))) \<and>
    TX_DESCRIPTION_OFFSET + unat (get_bootloader_tx_encoding_space v) =
      unat (get_vm_hook_params_start_position v) + 4"
proof -
  note slots = bs_run_slots [OF assms(1,2)]
  have "OPERATOR_REFUNDS_OFFSET \<le> a \<and> a < unat (get_result_success_first_slot v) \<and>
       (a < PRIORITY_TXS_L1_DATA_OFFSET \<or> BOOTLOADER_TX_DESCRIPTION_OFFSET \<le> a) \<and>
       (bs_free_tx_offset s + 4 \<le> unat (get_bootloader_tx_encoding_space v) \<longrightarrow>
          a < unat (get_vm_hook_params_start_position v))" if "a \<in> fst ` set inc" for a
  proof -
    have "a \<in> state_slots s" using slots that by auto
    then have "OPERATOR_REFUNDS_OFFSET \<le> a"
      "a < PRIORITY_TXS_L1_DATA_OFFSET \<or> BOOTLOADER_TX_DESCRIPTION_OFFSET \<le> a"
      "a < TX_DESCRIPTION_OFFSET + bs_free_tx_offset s"
      using assms(2) used_slots_bounds unfolding state_slots_def slots_available_def by blast+
    then show ?thesis using assms(3) layout_ends [of v] by auto
  qed
  then show ?thesis using slots layout_ends [of v] by simp
qed


section \<open>An example batch\<close>

definition example_params :: VmParams where
  "example_params = \<lparr>vp_keccak256 = (\<lambda>_. 5), vp_code_hash = (\<lambda>_. Some 7), vp_encode = (\<lambda>_. replicate 64 1),
     vp_request_hash = (\<lambda>_ _. Some 3)\<rparr>"

definition example_td :: TransactionData where
  "example_td = transaction_data_from (\<lambda>_ _. None) example_tx"

definition example_block :: "u32 \<Rightarrow> L2BlockEnv" where
  "example_block n = \<lparr>l2_block_env_number = n, l2_block_env_timestamp = ucast n + 10,
     l2_block_env_prev_block_hash = 5, l2_block_env_max_virtual_blocks_to_create = 1\<rparr>"

definition example_ops :: "BootloaderOp list" where
  "example_ops = [Op_PushTx example_td 1 2 [] 9 270, Op_MovePointer, Op_StartBlock (example_block 2),
     Op_PushTx example_td 1 2 [] 9 270]"

definition example_start :: BootloaderState where
  "example_start = bootloader_state_new VerifyExecute [] (example_block 1)"

lemma example_tokens:
  "\<exists>ws. into_tokens (vp_code_hash example_params) (vp_encode example_params) example_td = Some ws \<and> length ws = 2"
  by (simp add: into_tokens_def td_abi_encode_def abi_encode_with_custom_factory_deps_def example_params_def
      example_td_def example_tx_def transaction_data_from_def td_of_l2_def Let_def hash_bytecode_def
      bytes_to_chunks_def ensure_chunkable_def bytes_to_be_words_def length_chunks)

lemma example_hash:
  "td_tx_hash (vp_keccak256 example_params) (vp_code_hash example_params) (vp_encode example_params)
     (vp_request_hash example_params) example_td chain_id = Some 3"
proof -
  have "\<not> is_l1_tx_type (td_tx_type example_td) \<and>
      (case td_try_into_l2 example_td of Some (Inr _) \<Rightarrow> True | _ \<Rightarrow> False)"
    by (simp add: example_td_def example_tx_def transaction_data_from_def td_of_l2_def Let_def
        td_try_into_l2_def transaction_type_try_from_def word_from_be_def word_be_def
        from_be_be_bytes)
  then show ?thesis
    by (auto simp: td_tx_hash_def example_params_def split: option.splits sum.splits)
qed

lemma example_push:
  assumes "last_l2_block s = Some b"
  shows "\<exists>m b' t. push_tx example_params example_td 1 2 [] 9 270 s = Some (m, s\<lparr>
      bs_compressed_bytecodes_encoding := bs_compressed_bytecodes_encoding s,
      bs_free_tx_offset := bs_free_tx_offset s + 2,
      bs_l2_blocks := butlast (bs_l2_blocks s) @ [block_push_tx example_params t b]\<rparr>)"
proof -
  obtain ws where ws: "into_tokens (vp_code_hash example_params) (vp_encode example_params) example_td = Some ws"
    "length ws = 2" using example_tokens by blast
  show ?thesis
    using assms
    by (auto simp: push_tx_def bootloader_tx_new_def example_hash ws free_tx_index_def apply_tx_to_memory_def
        get_memory_for_compressed_bytecodes_def bytes_to_be_words_def ensure_chunkable_def Let_def)
qed

lemma example_run:
  "\<exists>inc s. bs_run example_params example_ops example_start = Some (inc, s) \<and> slots_available s \<and>
     bs_free_tx_offset s = 4"
proof -
  have l0: "last_l2_block example_start = Some (bootloader_block_new (example_block 1) 0)"
    by (simp add: example_start_def bootloader_state_new_def last_l2_block_def)
  let ?b1 = "\<lambda>t. block_push_tx example_params t (bootloader_block_new (example_block 1) 0)"
  let ?s1 = "\<lambda>t. example_start\<lparr>bs_compressed_bytecodes_encoding := 0, bs_free_tx_offset := 2, bs_l2_blocks := [?b1 t]\<rparr>"
  obtain m1 t1 where p1: "push_tx example_params example_td 1 2 [] 9 270 example_start = Some (m1, ?s1 t1)"
    using example_push [OF l0] by (auto simp: example_start_def bootloader_state_new_def)
  have mv: "move_tx_to_execute_pointer (?s1 t1) = Some (0, (?s1 t1)\<lparr>bs_tx_to_execute := Suc 0\<rparr>)"
    by (simp add: move_tx_to_execute_pointer_def free_tx_index_def last_l2_block_def block_push_tx_eq
        example_start_def bootloader_state_new_def bootloader_block_new_def)
  define s2 where "s2 = (?s1 t1)\<lparr>bs_tx_to_execute := Suc 0,
      bs_l2_blocks := [?b1 t1, bootloader_block_new (example_block 2) (Suc 0)]\<rparr>"
  have st: "start_new_l2_block example_params (example_block 2) ((?s1 t1)\<lparr>bs_tx_to_execute := Suc 0\<rparr>) = Some s2"
    unfolding s2_def
    by (simp add: start_new_l2_block_def push_l2_block_def free_tx_index_def last_l2_block_def block_push_tx_eq
        bootloader_block_new_def example_block_def assert_next_block_def bl_l2_block_def get_hash_def
        vm_l2_block_hash_def example_params_def)
  have l2: "last_l2_block s2 = Some (bootloader_block_new (example_block 2) (Suc 0))"
    by (simp add: s2_def last_l2_block_def)
  let ?s3 = "\<lambda>t. s2\<lparr>bs_compressed_bytecodes_encoding := 0, bs_free_tx_offset := 4,
      bs_l2_blocks := [?b1 t1, block_push_tx example_params t (bootloader_block_new (example_block 2) (Suc 0))]\<rparr>"
  obtain m2 t2 where p2: "push_tx example_params example_td 1 2 [] 9 270 s2 = Some (m2, ?s3 t2)"
    using example_push [OF l2] by (auto simp: s2_def)
  have "bs_run example_params example_ops example_start = Some (m1 @ m2, ?s3 t2)"
    by (simp add: example_ops_def p1 mv st p2)
  then show ?thesis
    by (auto simp: slots_available_def tx_count_def free_tx_index_def last_l2_block_def block_push_tx_eq
        bootloader_block_new_def)
qed

theorem bootloader_snapshot_restores_witness:
  "\<exists>snap m s. get_snapshot example_start = Some snap \<and>
     bs_run example_params example_ops example_start = Some (m, s) \<and> apply_snapshot snap s = Some example_start"
proof -
  obtain snap where "get_snapshot example_start = Some snap"
    by (simp add: get_snapshot_def example_start_def bootloader_state_new_def last_l2_block_def)
  then show ?thesis using example_run bootloader_snapshot_restores by blast
qed



end
