(* ===== verification/Seal_Criteria.thy ===== *)
theory Seal_Criteria
  imports Bootloader_State Storage_Logs
begin

text \<open>
  When a batch is closed: \<^verbatim>\<open>core/node/state_keeper/src/seal_criteria\<close>, with the metrics it reads
  (\<^verbatim>\<open>core/lib/vm_interface/src/types/outputs/statistic.rs\<close>) and the L1 gas estimates of
  \<^verbatim>\<open>core/node/state_keeper/src/utils.rs\<close>. Metrics of type \<open>usize\<close> are 64-bit words, because they are added
  up without a check; limits and positions of type \<open>usize\<close> are natural numbers. The criteria do not read the
  time at which the batch was opened, which is left out, and metrics and traces have no effect on
  the result. A failed assertion is \<open>None\<close>.
\<close>

section \<open>Execution metrics\<close>

record CircuitStatistic =
  cs_main_vm :: rat
  cs_ram_permutation :: rat
  cs_storage_application :: rat
  cs_storage_sorter :: rat
  cs_code_decommitter :: rat
  cs_code_decommitter_sorter :: rat
  cs_log_demuxer :: rat
  cs_events_sorter :: rat
  cs_keccak256 :: rat
  cs_ecrecover :: rat
  cs_sha256 :: rat
  cs_secp256k1_verify :: rat
  cs_transient_storage_checker :: rat

definition circuit_total :: "CircuitStatistic \<Rightarrow> nat" where
  "circuit_total c =
     f32_ceil_to_usize (cs_main_vm c) + f32_ceil_to_usize (cs_ram_permutation c)
     + f32_ceil_to_usize (cs_storage_application c) + f32_ceil_to_usize (cs_storage_sorter c)
     + f32_ceil_to_usize (cs_code_decommitter c) + f32_ceil_to_usize (cs_code_decommitter_sorter c)
     + f32_ceil_to_usize (cs_log_demuxer c) + f32_ceil_to_usize (cs_events_sorter c)
     + f32_ceil_to_usize (cs_keccak256 c) + f32_ceil_to_usize (cs_ecrecover c)
     + f32_ceil_to_usize (cs_sha256 c) + f32_ceil_to_usize (cs_secp256k1_verify c)
     + f32_ceil_to_usize (cs_transient_storage_checker c)"

definition circuit_add :: "CircuitStatistic \<Rightarrow> CircuitStatistic \<Rightarrow> CircuitStatistic" where
  "circuit_add a b =
     \<lparr>cs_main_vm = f32_add (cs_main_vm a) (cs_main_vm b),
      cs_ram_permutation = f32_add (cs_ram_permutation a) (cs_ram_permutation b),
      cs_storage_application = f32_add (cs_storage_application a) (cs_storage_application b),
      cs_storage_sorter = f32_add (cs_storage_sorter a) (cs_storage_sorter b),
      cs_code_decommitter = f32_add (cs_code_decommitter a) (cs_code_decommitter b),
      cs_code_decommitter_sorter = f32_add (cs_code_decommitter_sorter a) (cs_code_decommitter_sorter b),
      cs_log_demuxer = f32_add (cs_log_demuxer a) (cs_log_demuxer b),
      cs_events_sorter = f32_add (cs_events_sorter a) (cs_events_sorter b),
      cs_keccak256 = f32_add (cs_keccak256 a) (cs_keccak256 b),
      cs_ecrecover = f32_add (cs_ecrecover a) (cs_ecrecover b),
      cs_sha256 = f32_add (cs_sha256 a) (cs_sha256 b),
      cs_secp256k1_verify = f32_add (cs_secp256k1_verify a) (cs_secp256k1_verify b),
      cs_transient_storage_checker =
        f32_add (cs_transient_storage_checker a) (cs_transient_storage_checker b)\<rparr>"

abbreviation circuit_default :: CircuitStatistic where
  "circuit_default \<equiv> \<lparr>cs_main_vm = 0, cs_ram_permutation = 0, cs_storage_application = 0,
     cs_storage_sorter = 0, cs_code_decommitter = 0, cs_code_decommitter_sorter = 0,
     cs_log_demuxer = 0, cs_events_sorter = 0, cs_keccak256 = 0, cs_ecrecover = 0, cs_sha256 = 0,
     cs_secp256k1_verify = 0, cs_transient_storage_checker = 0\<rparr>"

record TransactionExecutionMetrics =
  tm_initial_storage_writes :: u64
  tm_repeated_storage_writes :: u64
  tm_gas_used :: u64
  tm_gas_remaining :: u32
  tm_event_topics :: u16
  tm_published_bytecode_bytes :: u64
  tm_l2_l1_long_messages :: u64
  tm_l2_l1_logs :: u64
  tm_contracts_used :: u64
  tm_contracts_deployed :: u16
  tm_vm_events :: u64
  tm_storage_logs :: u64
  tm_total_log_queries :: u64
  tm_cycles_used :: u32
  tm_computational_gas_used :: u32
  tm_total_updated_values_size :: u64
  tm_pubdata_published :: u32
  tm_circuit_statistic :: CircuitStatistic

record VmExecutionMetrics =
  em_gas_used :: u64
  em_published_bytecode_bytes :: u64
  em_l2_l1_long_messages :: u64
  em_l2_to_l1_logs :: u64
  em_contracts_used :: u64
  em_contracts_deployed :: u16
  em_vm_events :: u64
  em_storage_logs :: u64
  em_total_log_queries :: u64
  em_cycles_used :: u32
  em_computational_gas_used :: u32
  em_pubdata_published :: u32
  em_circuit_statistic :: CircuitStatistic

definition vm_metrics_from_tx_metrics :: "TransactionExecutionMetrics \<Rightarrow> VmExecutionMetrics" where
  "vm_metrics_from_tx_metrics m =
     \<lparr>em_gas_used = tm_gas_used m, em_published_bytecode_bytes = tm_published_bytecode_bytes m,
      em_l2_l1_long_messages = tm_l2_l1_long_messages m, em_l2_to_l1_logs = tm_l2_l1_logs m,
      em_contracts_used = tm_contracts_used m, em_contracts_deployed = tm_contracts_deployed m,
      em_vm_events = tm_vm_events m, em_storage_logs = tm_storage_logs m,
      em_total_log_queries = tm_total_log_queries m, em_cycles_used = tm_cycles_used m,
      em_computational_gas_used = tm_computational_gas_used m,
      em_pubdata_published = tm_pubdata_published m, em_circuit_statistic = tm_circuit_statistic m\<rparr>"

definition writes_metrics_from_tx_metrics :: "TransactionExecutionMetrics \<Rightarrow> DeduplicatedWritesMetrics" where
  "writes_metrics_from_tx_metrics m =
     \<lparr>initial_storage_writes = tm_initial_storage_writes m,
      repeated_storage_writes = tm_repeated_storage_writes m,
      total_updated_values_size = tm_total_updated_values_size m\<rparr>"

text \<open>A serialized log takes 88 bytes.\<close>

definition vm_metrics_size :: "VmExecutionMetrics \<Rightarrow> u64" where
  "vm_metrics_size m =
     em_l2_to_l1_logs m * 88 + em_l2_l1_long_messages m + em_published_bytecode_bytes m
     + em_l2_to_l1_logs m * 4"

definition vm_metrics_add :: "VmExecutionMetrics \<Rightarrow> VmExecutionMetrics \<Rightarrow> VmExecutionMetrics" where
  "vm_metrics_add a b =
     \<lparr>em_gas_used = em_gas_used a + em_gas_used b,
      em_published_bytecode_bytes = em_published_bytecode_bytes a + em_published_bytecode_bytes b,
      em_l2_l1_long_messages = em_l2_l1_long_messages a + em_l2_l1_long_messages b,
      em_l2_to_l1_logs = em_l2_to_l1_logs a + em_l2_to_l1_logs b,
      em_contracts_used = em_contracts_used a + em_contracts_used b,
      em_contracts_deployed = em_contracts_deployed a + em_contracts_deployed b,
      em_vm_events = em_vm_events a + em_vm_events b,
      em_storage_logs = em_storage_logs a + em_storage_logs b,
      em_total_log_queries = em_total_log_queries a + em_total_log_queries b,
      em_cycles_used = em_cycles_used a + em_cycles_used b,
      em_computational_gas_used = em_computational_gas_used a + em_computational_gas_used b,
      em_pubdata_published = em_pubdata_published a + em_pubdata_published b,
      em_circuit_statistic = circuit_add (em_circuit_statistic a) (em_circuit_statistic b)\<rparr>"

abbreviation vm_metrics_default :: VmExecutionMetrics where
  "vm_metrics_default \<equiv> \<lparr>em_gas_used = 0, em_published_bytecode_bytes = 0, em_l2_l1_long_messages = 0,
     em_l2_to_l1_logs = 0, em_contracts_used = 0, em_contracts_deployed = 0, em_vm_events = 0,
     em_storage_logs = 0, em_total_log_queries = 0, em_cycles_used = 0, em_computational_gas_used = 0,
     em_pubdata_published = 0, em_circuit_statistic = circuit_default\<rparr>"

section \<open>L1 gas estimates\<close>

record BlockGasCount =
  gc_commit :: u32
  gc_prove :: u32
  gc_execute :: u32

definition any_field_greater_than :: "BlockGasCount \<Rightarrow> u32 \<Rightarrow> bool" where
  "any_field_greater_than g bound \<longleftrightarrow> gc_commit g > bound \<or> gc_prove g > bound \<or> gc_execute g > bound"

definition gas_count_add :: "BlockGasCount \<Rightarrow> BlockGasCount \<Rightarrow> BlockGasCount" where
  "gas_count_add a b =
     \<lparr>gc_commit = gc_commit a + gc_commit b, gc_prove = gc_prove a + gc_prove b,
      gc_execute = gc_execute a + gc_execute b\<rparr>"

abbreviation gas_count_default :: BlockGasCount where
  "gas_count_default \<equiv> \<lparr>gc_commit = 0, gc_prove = 0, gc_execute = 0\<rparr>"

datatype AggregatedActionType = CommitAction | PublishProofOnchain | ExecuteAction

fun l1_batch_base_cost :: "AggregatedActionType \<Rightarrow> u32" where
  "l1_batch_base_cost CommitAction = 31000"
| "l1_batch_base_cost PublishProofOnchain = 7000"
| "l1_batch_base_cost ExecuteAction = 30000"

fun base_tx_cost :: "Transaction \<Rightarrow> AggregatedActionType \<Rightarrow> u32" where
  "base_tx_cost tx CommitAction = 0"
| "base_tx_cost tx PublishProofOnchain = 0"
| "base_tx_cost tx ExecuteAction =
     (case common_data tx of L1 _ \<Rightarrow> 12500 | L2 _ \<Rightarrow> 0 | ProtocolUpgrade _ \<Rightarrow> 0)"

abbreviation (input) GAS_PER_BYTE :: u32 where "GAS_PER_BYTE \<equiv> 18"

abbreviation (input) additional_pubdata_commit_cost :: "VmExecutionMetrics \<Rightarrow> u32" where
  "additional_pubdata_commit_cost m \<equiv> ucast (vm_metrics_size m) * GAS_PER_BYTE"

definition new_block_gas_count :: BlockGasCount where
  "new_block_gas_count =
     \<lparr>gc_commit = l1_batch_base_cost CommitAction, gc_prove = l1_batch_base_cost PublishProofOnchain,
      gc_execute = l1_batch_base_cost ExecuteAction\<rparr>"

definition gas_count_from_tx_and_metrics :: "Transaction \<Rightarrow> VmExecutionMetrics \<Rightarrow> BlockGasCount" where
  "gas_count_from_tx_and_metrics tx m =
     \<lparr>gc_commit = base_tx_cost tx CommitAction + additional_pubdata_commit_cost m,
      gc_prove = base_tx_cost tx PublishProofOnchain, gc_execute = base_tx_cost tx ExecuteAction\<rparr>"

definition gas_count_from_metrics :: "VmExecutionMetrics \<Rightarrow> BlockGasCount" where
  "gas_count_from_metrics m =
     \<lparr>gc_commit = additional_pubdata_commit_cost m, gc_prove = 0, gc_execute = 0\<rparr>"

definition gas_count_from_writes :: "DeduplicatedWritesMetrics \<Rightarrow> ProtocolVersionId \<Rightarrow> BlockGasCount" where
  "gas_count_from_writes w v =
     \<lparr>gc_commit = ucast (metrics_size w v) * GAS_PER_BYTE, gc_prove = 0, gc_execute = 0\<rparr>"

section \<open>Resolutions\<close>

datatype VmRevertReason =
    General string "u8 list"
  | InnerTxErrorReason
  | VmError
  | UnknownReason "u8 list" "u8 list"

datatype Halt =
    ValidationFailed VmRevertReason
  | PaymasterValidationFailed VmRevertReason
  | PrePaymasterPreparationFailed VmRevertReason
  | PayForTxFailed VmRevertReason
  | FailedToMarkFactoryDependencies VmRevertReason
  | FailedToChargeFee VmRevertReason
  | FromIsNotAnAccount
  | InnerTxError
  | UnknownHalt VmRevertReason
  | UnexpectedVMBehavior string
  | BootloaderOutOfGasHalt
  | ValidationOutOfGas
  | TooBigGasLimit
  | NotEnoughGasProvidedHalt
  | MissingInvocationLimitReached
  | FailedToSetL2Block string
  | FailedToAppendTransactionToL2Block string
  | VMPanic
  | TracerCustom string
  | FailedToPublishCompressedBytecodes

datatype UnexecutableReason =
    HaltReason Halt
  | TxEncodingSize
  | LargeEncodingSize
  | PubdataLimit
  | ProofWillFail
  | TooMuchGas
  | OutOfGasForBatchTip
  | BootloaderOutOfGas
  | NotEnoughGasProvided

datatype SealResolution = NoSeal | IncludeAndSeal | ExcludeAndSeal | Unexecutable UnexecutableReason

fun resolution_stricter :: "SealResolution \<Rightarrow> SealResolution \<Rightarrow> SealResolution" where
  "resolution_stricter (Unexecutable reason) _ = Unexecutable reason"
| "resolution_stricter _ (Unexecutable reason) = Unexecutable reason"
| "resolution_stricter ExcludeAndSeal _ = ExcludeAndSeal"
| "resolution_stricter _ ExcludeAndSeal = ExcludeAndSeal"
| "resolution_stricter IncludeAndSeal _ = IncludeAndSeal"
| "resolution_stricter _ IncludeAndSeal = IncludeAndSeal"
| "resolution_stricter NoSeal NoSeal = NoSeal"

abbreviation (input) resolution_should_seal :: "SealResolution \<Rightarrow> bool" where
  "resolution_should_seal r \<equiv> r = IncludeAndSeal \<or> r = ExcludeAndSeal"

record SealData =
  sd_execution_metrics :: VmExecutionMetrics
  sd_gas_count :: BlockGasCount
  sd_cumulative_size :: nat
  sd_writes_metrics :: DeduplicatedWritesMetrics
  sd_gas_remaining :: u32

definition bootloader_encoding_size ::
    "VmParams \<Rightarrow> (u8 list \<Rightarrow> nat \<Rightarrow> u64 option) \<Rightarrow> Transaction \<Rightarrow> nat option" where
  "bootloader_encoding_size P rlp_val_at tx =
     map_option length (into_tokens (vp_code_hash P) (vp_encode P) (transaction_data_from rlp_val_at tx))"

definition seal_data_for_transaction ::
    "VmParams \<Rightarrow> (u8 list \<Rightarrow> nat \<Rightarrow> u64 option) \<Rightarrow> Transaction \<Rightarrow> TransactionExecutionMetrics \<Rightarrow>
     ProtocolVersionId \<Rightarrow> SealData option" where
  "seal_data_for_transaction P rlp_val_at tx m v =
     (let execution_metrics = vm_metrics_from_tx_metrics m;
          writes_metrics = writes_metrics_from_tx_metrics m;
          gas_count = gas_count_add (gas_count_from_tx_and_metrics tx execution_metrics)
                        (gas_count_from_writes writes_metrics v)
      in map_option (\<lambda>size.
           \<lparr>sd_execution_metrics = execution_metrics, sd_gas_count = gas_count, sd_cumulative_size = size,
            sd_writes_metrics = writes_metrics, sd_gas_remaining = tm_gas_remaining m\<rparr>)
         (bootloader_encoding_size P rlp_val_at tx))"

section \<open>Criteria\<close>

text \<open>The fields of the configuration that the sealers read.\<close>

record StateKeeperConfig =
  transaction_slots :: nat
  block_commit_deadline_ms :: u64
  l2_block_commit_deadline_ms :: u64
  l2_block_max_payload_size :: nat
  max_single_tx_gas :: u32
  reject_tx_at_geometry_percentage :: rat
  reject_tx_at_eth_params_percentage :: rat
  reject_tx_at_gas_percentage :: rat
  close_block_at_geometry_percentage :: rat
  close_block_at_eth_params_percentage :: rat
  close_block_at_gas_percentage :: rat
  max_pubdata_per_batch :: u64
  max_circuits_per_batch :: nat

text \<open>The words of a bootloader page in the two oldest versions come from the VM library; the other
  layouts are spelled out, from the first slots to the descriptions of the transactions.\<close>

fun get_bootloader_encoding_space :: "nat \<Rightarrow> VmVersion \<Rightarrow> u32" where
  "get_bootloader_encoding_space heap_words M5WithRefunds =
     of_nat (heap_words - (111 + 2 * 1024 + 2 * 1024 + 40) - 1024)"
| "get_bootloader_encoding_space heap_words M5WithoutRefunds =
     of_nat (heap_words - (111 + 2 * 1024 + 2 * 1024 + 40) - 1024)"
| "get_bootloader_encoding_space heap_words M6Initial =
     of_nat (heap_words - (111 + 3 * 1024 + 32768 + 2 * 1024 + 40) - 1024)"
| "get_bootloader_encoding_space heap_words M6BugWithCompressionFixed =
     of_nat (heap_words - (111 + 3 * 1024 + 32768 + 2 * 1024 + 40) - 1024)"
| "get_bootloader_encoding_space heap_words Vm1_3_2 =
     of_nat (2 ^ 24 div 32 - (111 + 3 * 1024 + 32768 + 2 * 1024 + 40) - 1024)"
| "get_bootloader_encoding_space heap_words VmVirtualBlocks =
     of_nat (2 ^ 24 div 32 - (111 + 3 * 1024 + (1024 + 1) * 4 + 32768 + 2 * 1024 + 40) - 1024)"
| "get_bootloader_encoding_space heap_words VmVirtualBlocksRefundsEnhancement =
     of_nat (2 ^ 24 div 32 - (111 + 3 * 1024 + (1024 + 1) * 4 + 32768 + 2 * 1024 + 40) - 1024)"
| "get_bootloader_encoding_space heap_words VmBoojumIntegration =
     of_nat (2 ^ 24 div 32
       - (111 + 3 * 1024 + (1024 + 1) * 4 + 32768 + 2 + 208000 + 2 * 1024 + 40) - 1024)"
| "get_bootloader_encoding_space heap_words Vm1_4_1 =
     of_nat (24000000 div 32
       - (111 + 3 * 10000 + (10000 + 1) * 4 + 32768 + 2 + 208000 + 2 * 10000 + 40) - 10000)"
| "get_bootloader_encoding_space heap_words Vm1_4_2 =
     of_nat (30000000 div 32
       - (111 + 3 * 10000 + (10000 + 1) * 4 + 65536 + 2 + 451000 + 2 * 10000 + 40) - 10000)"
| "get_bootloader_encoding_space heap_words Vm1_5_0SmallBootloaderMemory =
     get_bootloader_tx_encoding_space SmallBootloaderMemory"
| "get_bootloader_encoding_space heap_words Vm1_5_0IncreasedBootloaderMemory =
     get_bootloader_tx_encoding_space IncreasedBootloaderMemory"

text \<open>A configured share of a limit, rounded.\<close>

abbreviation share :: "nat \<Rightarrow> rat \<Rightarrow> rat" where
  "share limit percentage \<equiv> f64_round_int (f64_mul (f64_of_nat limit) percentage)"

definition slots_criterion :: "StateKeeperConfig \<Rightarrow> nat \<Rightarrow> ProtocolVersionId \<Rightarrow> SealResolution option" where
  "slots_criterion config txs_in_batch v =
     (let max_txs_in_batch = get_bootloader_max_txs_in_batch (vm_version_of v)
      in if \<not> transaction_slots config \<le> max_txs_in_batch then None
         else Some (if txs_in_batch \<ge> transaction_slots config then IncludeAndSeal else NoSeal))"

definition gas_criterion :: "StateKeeperConfig \<Rightarrow> SealData \<Rightarrow> SealData \<Rightarrow> SealResolution" where
  "gas_criterion config block_data tx_data =
     (let tx_bound = f64_to_u32 (share (unat (max_single_tx_gas config)) (reject_tx_at_gas_percentage config));
          block_bound = f64_to_u32 (share (unat (max_single_tx_gas config)) (close_block_at_gas_percentage config))
      in if any_field_greater_than (gas_count_add (sd_gas_count tx_data) new_block_gas_count) tx_bound
         then Unexecutable TooMuchGas
         else if any_field_greater_than (sd_gas_count block_data) (max_single_tx_gas config)
         then ExcludeAndSeal
         else if any_field_greater_than (sd_gas_count block_data) block_bound
         then IncludeAndSeal
         else NoSeal)"

definition pubdata_bytes_criterion ::
    "u64 \<Rightarrow> StateKeeperConfig \<Rightarrow> SealData \<Rightarrow> SealData \<Rightarrow> ProtocolVersionId \<Rightarrow> SealResolution" where
  "pubdata_bytes_criterion max_pubdata_per_l1_batch config block_data tx_data v =
     (let reject_bound = share (unat max_pubdata_per_l1_batch) (reject_tx_at_eth_params_percentage config);
          include_and_seal_bound =
            share (unat max_pubdata_per_l1_batch) (close_block_at_eth_params_percentage config);
          block_size = vm_metrics_size (sd_execution_metrics block_data)
            + metrics_size (sd_writes_metrics block_data) v;
          tx_size = (if em_pubdata_published (sd_execution_metrics tx_data) = 0
            then vm_metrics_size (sd_execution_metrics tx_data) + metrics_size (sd_writes_metrics tx_data) v
            else ucast (em_pubdata_published (sd_execution_metrics tx_data)));
          overhead = of_nat (execution_metrics_bootloader_batch_tip_overhead (vm_version_of v))
      in if tx_size + overhead > f64_to_u64 reject_bound then Unexecutable PubdataLimit
         else if block_size + overhead > max_pubdata_per_l1_batch then ExcludeAndSeal
         else if block_size + overhead > f64_to_u64 include_and_seal_bound then IncludeAndSeal
         else NoSeal)"

definition circuits_criterion ::
    "StateKeeperConfig \<Rightarrow> SealData \<Rightarrow> SealData \<Rightarrow> ProtocolVersionId \<Rightarrow> SealResolution option" where
  "circuits_criterion config block_data tx_data v =
     (let max_allowed = get_max_batch_base_layer_circuits (vm_version_of v);
          overhead = circuit_statistics_bootloader_batch_tip_overhead (vm_version_of v);
          reject_bound = unat (f64_to_u64
            (share (max_circuits_per_batch config) (reject_tx_at_geometry_percentage config)));
          include_and_seal_bound = unat (f64_to_u64
            (share (max_circuits_per_batch config) (close_block_at_geometry_percentage config)));
          used_circuits_tx = circuit_total (em_circuit_statistic (sd_execution_metrics tx_data));
          used_circuits_batch = circuit_total (em_circuit_statistic (sd_execution_metrics block_data))
      in if \<not> max_circuits_per_batch config \<le> max_allowed then None
         else if \<not> overhead < max_circuits_per_batch config then None
         else Some
           (if used_circuits_tx + overhead \<ge> reject_bound then Unexecutable ProofWillFail
            else if used_circuits_batch + overhead \<ge> max_circuits_per_batch config then ExcludeAndSeal
            else if used_circuits_batch + overhead \<ge> include_and_seal_bound then IncludeAndSeal
            else NoSeal))"

definition tx_encoding_size_criterion ::
    "nat \<Rightarrow> StateKeeperConfig \<Rightarrow> SealData \<Rightarrow> SealData \<Rightarrow> ProtocolVersionId \<Rightarrow> SealResolution" where
  "tx_encoding_size_criterion heap_words config block_data tx_data v =
     (let space = unat (get_bootloader_encoding_space heap_words (vm_version_of v));
          reject_bound = share space (reject_tx_at_geometry_percentage config);
          include_and_seal_bound = share space (close_block_at_geometry_percentage config)
      in if sd_cumulative_size tx_data > unat (f64_to_u64 reject_bound) then Unexecutable LargeEncodingSize
         else if sd_cumulative_size block_data > space then ExcludeAndSeal
         else if sd_cumulative_size block_data > unat (f64_to_u64 include_and_seal_bound)
         then IncludeAndSeal
         else NoSeal)"

definition gas_for_batch_tip_criterion :: "nat \<Rightarrow> SealData \<Rightarrow> ProtocolVersionId \<Rightarrow> SealResolution" where
  "gas_for_batch_tip_criterion txs_in_batch tx_data v =
     (let batch_tip_overhead = gas_bootloader_batch_tip_overhead (vm_version_of v)
      in if sd_gas_remaining tx_data < batch_tip_overhead
         then if txs_in_batch = 1 then Unexecutable OutOfGasForBatchTip else ExcludeAndSeal
         else NoSeal)"

section \<open>Sealers\<close>

datatype SealCriterion =
    SlotsCriterion
  | GasCriterion
  | PubDataBytesCriterion u64
  | CircuitsCriterion
  | TxEncodingSizeCriterion
  | GasForBatchTipCriterion

fun criterion_should_seal ::
    "nat \<Rightarrow> SealCriterion \<Rightarrow> StateKeeperConfig \<Rightarrow> nat \<Rightarrow> SealData \<Rightarrow> SealData \<Rightarrow> ProtocolVersionId \<Rightarrow>
     SealResolution option" where
  "criterion_should_seal heap_words SlotsCriterion config txs_in_batch block_data tx_data v =
     slots_criterion config txs_in_batch v"
| "criterion_should_seal heap_words GasCriterion config txs_in_batch block_data tx_data v =
     Some (gas_criterion config block_data tx_data)"
| "criterion_should_seal heap_words (PubDataBytesCriterion max_pubdata) config txs_in_batch block_data tx_data v =
     Some (pubdata_bytes_criterion max_pubdata config block_data tx_data v)"
| "criterion_should_seal heap_words CircuitsCriterion config txs_in_batch block_data tx_data v =
     circuits_criterion config block_data tx_data v"
| "criterion_should_seal heap_words TxEncodingSizeCriterion config txs_in_batch block_data tx_data v =
     Some (tx_encoding_size_criterion heap_words config block_data tx_data v)"
| "criterion_should_seal heap_words GasForBatchTipCriterion config txs_in_batch block_data tx_data v =
     Some (gas_for_batch_tip_criterion txs_in_batch tx_data v)"

fun prom_criterion_name :: "SealCriterion \<Rightarrow> string" where
  "prom_criterion_name SlotsCriterion = ''slots''"
| "prom_criterion_name GasCriterion = ''gas''"
| "prom_criterion_name (PubDataBytesCriterion _) = ''pub_data_size''"
| "prom_criterion_name CircuitsCriterion = ''circuits_criterion''"
| "prom_criterion_name TxEncodingSizeCriterion = ''tx_encoding_size''"
| "prom_criterion_name GasForBatchTipCriterion = ''gas_for_batch_tip''"

record SequencerSealer =
  sealer_config :: StateKeeperConfig
  sealers :: "SealCriterion list"

definition default_sealers :: "StateKeeperConfig \<Rightarrow> SealCriterion list" where
  "default_sealers config =
     [SlotsCriterion, GasCriterion, PubDataBytesCriterion (max_pubdata_per_batch config),
      CircuitsCriterion, TxEncodingSizeCriterion, GasForBatchTipCriterion]"

abbreviation (input) sequencer_sealer_new :: "StateKeeperConfig \<Rightarrow> SequencerSealer" where
  "sequencer_sealer_new config \<equiv> \<lparr>sealer_config = config, sealers = default_sealers config\<rparr>"

fun find_unexecutable_loop ::
    "nat \<Rightarrow> StateKeeperConfig \<Rightarrow> SealData \<Rightarrow> ProtocolVersionId \<Rightarrow> SealCriterion list \<Rightarrow> string option option" where
  "find_unexecutable_loop heap_words config d v [] = Some None"
| "find_unexecutable_loop heap_words config d v (c # cs) =
     (case criterion_should_seal heap_words c config 1 d d v of
        None \<Rightarrow> None
      | Some (Unexecutable _) \<Rightarrow> Some (Some (prom_criterion_name c))
      | Some _ \<Rightarrow> find_unexecutable_loop heap_words config d v cs)"

definition find_unexecutable_reason ::
    "nat \<Rightarrow> SequencerSealer \<Rightarrow> SealData \<Rightarrow> ProtocolVersionId \<Rightarrow> string option option" where
  "find_unexecutable_reason heap_words s d v = find_unexecutable_loop heap_words (sealer_config s) d v (sealers s)"

fun should_seal_loop ::
    "nat \<Rightarrow> StateKeeperConfig \<Rightarrow> nat \<Rightarrow> SealData \<Rightarrow> SealData \<Rightarrow> ProtocolVersionId \<Rightarrow> SealCriterion list \<Rightarrow>
     SealResolution \<Rightarrow> SealResolution option" where
  "should_seal_loop heap_words config txs_in_batch b t v [] final = Some final"
| "should_seal_loop heap_words config txs_in_batch b t v (c # cs) final =
     (case criterion_should_seal heap_words c config txs_in_batch b t v of
        None \<Rightarrow> None
      | Some r \<Rightarrow> should_seal_loop heap_words config txs_in_batch b t v cs (resolution_stricter final r))"

definition should_seal_l1_batch ::
    "nat \<Rightarrow> SequencerSealer \<Rightarrow> nat \<Rightarrow> SealData \<Rightarrow> SealData \<Rightarrow> ProtocolVersionId \<Rightarrow> SealResolution option" where
  "should_seal_l1_batch heap_words s txs_in_batch b t v =
     should_seal_loop heap_words (sealer_config s) txs_in_batch b t v (sealers s) NoSeal"

text \<open>The sealer of external nodes never seals.\<close>

definition noop_find_unexecutable_reason :: "SealData \<Rightarrow> ProtocolVersionId \<Rightarrow> string option option" where
  "noop_find_unexecutable_reason d v = Some None"

definition noop_should_seal_l1_batch ::
    "nat \<Rightarrow> SealData \<Rightarrow> SealData \<Rightarrow> ProtocolVersionId \<Rightarrow> SealResolution option" where
  "noop_should_seal_l1_batch txs_in_batch b t v = Some NoSeal"

section \<open>The contract of a sealer\<close>

fun is_unexecutable :: "SealResolution \<Rightarrow> bool" where
  "is_unexecutable (Unexecutable _) = True"
| "is_unexecutable _ = False"

text \<open>What the state keeper and the API rely on: a transaction has a reason to be unexecutable exactly
  if a batch that consists of it alone is resolved that way.\<close>

locale conditional_sealer =
  fixes find_reason :: "SealData \<Rightarrow> ProtocolVersionId \<Rightarrow> string option option"
    and resolve :: "nat \<Rightarrow> SealData \<Rightarrow> SealData \<Rightarrow> ProtocolVersionId \<Rightarrow> SealResolution option"
  assumes reason_agrees:
    "resolve 1 d d v = Some r \<Longrightarrow> \<exists>x. find_reason d v = Some x \<and> (x \<noteq> None \<longleftrightarrow> is_unexecutable r)"
begin

lemma no_reason_no_rejection:
  assumes "find_reason d v = Some None" "resolve 1 d d v = Some r"
  shows "\<not> is_unexecutable r"
  using reason_agrees [OF assms(2)] assms(1) by simp

lemma reason_rejection:
  assumes "find_reason d v = Some (Some name)" "resolve 1 d d v = Some r"
  shows "\<exists>reason. r = Unexecutable reason"
  using reason_agrees [OF assms(2)] assms(1) by (cases r) auto

end

text \<open>The reference: the first rejection wins, then exclusion, then inclusion.\<close>

definition strictest :: "SealResolution list \<Rightarrow> SealResolution" where
  "strictest rs =
     (case find is_unexecutable rs of
        Some r \<Rightarrow> r
      | None \<Rightarrow> if ExcludeAndSeal \<in> set rs then ExcludeAndSeal
                else if IncludeAndSeal \<in> set rs then IncludeAndSeal else NoSeal)"

lemma strictest_stricter: "strictest (resolution_stricter a b # rs) = strictest (a # b # rs)"
  by (cases a; cases b) (simp_all add: strictest_def)

lemma strictest_single [simp]: "strictest [r] = r"
  by (cases r) (simp_all add: strictest_def)

lemma strictest_NoSeal [simp]: "strictest (NoSeal # rs) = strictest rs"
  by (simp add: strictest_def)

lemma find_None_iff_unexecutable: "find is_unexecutable rs = None \<longleftrightarrow> (\<forall>r \<in> set rs. \<not> is_unexecutable r)"
  by (auto simp: find_None_iff)

lemma is_unexecutable_strictest: "is_unexecutable (strictest rs) \<longleftrightarrow> (\<exists>r \<in> set rs. is_unexecutable r)"
proof (cases "find is_unexecutable rs")
  case None
  then have "\<forall>r \<in> set rs. \<not> is_unexecutable r" by (simp only: find_None_iff_unexecutable)
  with None show ?thesis by (simp add: strictest_def)
next
  case (Some r)
  then have "is_unexecutable r \<and> r \<in> set rs" by (auto simp: find_Some_iff)
  with Some show ?thesis by (auto simp: strictest_def)
qed

lemma strictest_excludes: "strictest rs = ExcludeAndSeal \<Longrightarrow> ExcludeAndSeal \<in> set rs"
  by (auto simp: strictest_def find_Some_iff split: option.splits if_splits)

lemma strictest_accepts:
  assumes "strictest rs = NoSeal \<or> strictest rs = IncludeAndSeal" "r \<in> set rs"
  shows "r = NoSeal \<or> r = IncludeAndSeal"
proof -
  have "\<not> is_unexecutable (strictest rs)" using assms(1) by auto
  then have "\<not> is_unexecutable r" using assms(2) by (auto simp: is_unexecutable_strictest)
  moreover have "r \<noteq> ExcludeAndSeal"
    using assms \<open>\<not> is_unexecutable (strictest rs)\<close>
    by (auto simp: strictest_def is_unexecutable_strictest find_None_iff_unexecutable split: option.splits if_splits)
      (auto simp: find_Some_iff)
  ultimately show ?thesis by (cases r) auto
qed

lemma should_seal_loop_strictest:
  "should_seal_loop hw config n b t v cs final =
     map_option (\<lambda>rs. strictest (final # rs))
       (those (map (\<lambda>c. criterion_should_seal hw c config n b t v) cs))"
  by (induction cs arbitrary: final) (simp_all add: strictest_stricter option.map_comp o_def split: option.split)

lemma find_unexecutable_loop_agrees:
  assumes "those (map (\<lambda>c. criterion_should_seal hw c config 1 d d v) cs) = Some rs"
  shows "\<exists>x. find_unexecutable_loop hw config d v cs = Some x \<and> (x \<noteq> None \<longleftrightarrow> (\<exists>r \<in> set rs. is_unexecutable r))"
  using assms
proof (induction cs arbitrary: rs)
  case (Cons c cs)
  then obtain r rs' where r: "criterion_should_seal hw c config 1 d d v = Some r"
    and rs: "those (map (\<lambda>c. criterion_should_seal hw c config 1 d d v) cs) = Some rs'" "rs = r # rs'"
    by (auto split: option.splits)
  from Cons.IH [OF rs(1)] show ?case
    by (cases r) (auto simp: r [simplified] rs(2))
qed simp

lemma should_seal_l1_batch_strictest:
  "should_seal_l1_batch hw s n b t v =
     map_option strictest (those (map (\<lambda>c. criterion_should_seal hw c (sealer_config s) n b t v) (sealers s)))"
  by (simp add: should_seal_l1_batch_def should_seal_loop_strictest)

interpretation sequencer: conditional_sealer "find_unexecutable_reason hw s" "should_seal_l1_batch hw s" for hw s
proof
  fix d v r
  assume "should_seal_l1_batch hw s 1 d d v = Some r"
  then obtain rs where "those (map (\<lambda>c. criterion_should_seal hw c (sealer_config s) 1 d d v) (sealers s)) = Some rs"
    "r = strictest rs"
    by (auto simp: should_seal_l1_batch_strictest)
  then show "\<exists>x. find_unexecutable_reason hw s d v = Some x \<and> (x \<noteq> None \<longleftrightarrow> is_unexecutable r)"
    using find_unexecutable_loop_agrees
    by (simp add: find_unexecutable_reason_def is_unexecutable_strictest)
qed

interpretation noop: conditional_sealer noop_find_unexecutable_reason noop_should_seal_l1_batch
  by unfold_locales (auto simp: noop_find_unexecutable_reason_def noop_should_seal_l1_batch_def)


section \<open>A transaction alone in its batch\<close>

lemma any_field_greater_than_mono:
  "any_field_greater_than g b \<Longrightarrow> a \<le> b \<Longrightarrow> any_field_greater_than g a"
  by (auto simp: any_field_greater_than_def)

lemma gas_criterion_alone:
  assumes "reject_tx_at_gas_percentage config \<le> 1"
    "sd_gas_count b = gas_count_add (sd_gas_count t) new_block_gas_count"
  shows "gas_criterion config b t \<noteq> ExcludeAndSeal"
  using any_field_greater_than_mono [OF _ f64_share_u32 [OF assms(1)], of _ "max_single_tx_gas config"]
  by (auto simp: gas_criterion_def Let_def assms(2))

lemma encoding_space_small: "unat (get_bootloader_encoding_space hw v) < 2 ^ 53"
proof -
  have "unat (get_bootloader_encoding_space hw v) < 2 ^ LENGTH(32)" by (rule unsigned_less)
  then show ?thesis by simp
qed

lemma tx_encoding_size_criterion_alone:
  assumes "reject_tx_at_geometry_percentage config \<le> 1" "sd_cumulative_size b = sd_cumulative_size t"
  shows "tx_encoding_size_criterion hw config b t v \<noteq> ExcludeAndSeal"
  using f64_share_u64 [OF assms(1) encoding_space_small, of hw "vm_version_of v"]
  by (simp add: tx_encoding_size_criterion_def Let_def assms(2))

lemma max_circuits_small: "get_max_batch_base_layer_circuits v \<le> 34100"
  by (cases v) simp_all

lemma circuits_criterion_alone:
  assumes "reject_tx_at_geometry_percentage config \<le> 1"
    "circuit_total (em_circuit_statistic (sd_execution_metrics b)) =
     circuit_total (em_circuit_statistic (sd_execution_metrics t))"
  shows "circuits_criterion config b t v \<noteq> Some ExcludeAndSeal"
proof (cases "max_circuits_per_batch config \<le> get_max_batch_base_layer_circuits (vm_version_of v)")
  case True
  then have "max_circuits_per_batch config < 2 ^ 53"
    using max_circuits_small [of "vm_version_of v"] by simp
  from f64_share_u64 [OF assms(1) this] show ?thesis
    by (simp add: circuits_criterion_def Let_def assms(2))
qed (simp add: circuits_criterion_def Let_def)

lemma batch_tip_overhead_small: "execution_metrics_bootloader_batch_tip_overhead v \<le> 2000"
  by (cases v) simp_all

lemma pubdata_bytes_criterion_alone:
  assumes "reject_tx_at_eth_params_percentage config \<le> 1" "unat limit < 2 ^ 53"
    "vm_metrics_size (sd_execution_metrics b) = vm_metrics_size (sd_execution_metrics t)"
    "sd_writes_metrics b = sd_writes_metrics t"
    "em_pubdata_published (sd_execution_metrics t) = 0 \<or>
     vm_metrics_size (sd_execution_metrics t) + metrics_size (sd_writes_metrics t) v
       \<le> ucast (em_pubdata_published (sd_execution_metrics t))"
  shows "pubdata_bytes_criterion limit config b t v \<noteq> ExcludeAndSeal"
proof -
  let ?p = "em_pubdata_published (sd_execution_metrics t)"
  let ?size = "vm_metrics_size (sd_execution_metrics t) + metrics_size (sd_writes_metrics t) v"
  let ?o = "of_nat (execution_metrics_bootloader_batch_tip_overhead (vm_version_of v)) :: u64"
  define tx_size where "tx_size = (if ?p = 0 then ?size else ucast ?p)"
  have "f64_to_u64 (share (unat limit) (reject_tx_at_eth_params_percentage config)) \<le> limit"
    using f64_share_u64 [OF assms(1,2)] by (simp add: word_le_nat_alt)
  moreover have "?size + ?o \<le> tx_size + ?o"
  proof (cases "?p = 0")
    case False
    then have le: "?size \<le> ucast ?p" using assms(5) by simp
    have "unat ?p < 2 ^ LENGTH(32)" by (rule unsigned_less)
    then have "unat (ucast ?p :: u64) < 2 ^ 32" by (simp add: unsigned_ucast_eq take_bit_nat_eq_self)
    moreover have "unat ?o \<le> 2000"
      using batch_tip_overhead_small [of "vm_version_of v"] by (simp add: unat_of_nat)
    ultimately have "unat (ucast ?p + ?o) = unat (ucast ?p :: u64) + unat ?o"
      "unat (?size + ?o) = unat ?size + unat ?o"
      using le by (simp_all add: word_le_nat_alt flip: unat_add_lem)
    with le False show ?thesis by (simp add: word_le_nat_alt tx_size_def)
  qed (simp add: tx_size_def)
  ultimately show ?thesis
    by (auto simp: pubdata_bytes_criterion_def Let_def assms(3,4) tx_size_def [symmetric])
qed

text \<open>C16. A transaction that is alone in its batch is never postponed to the next batch, so no
  transaction can be postponed forever. Take a configuration whose rejection thresholds do not exceed
  the limits of a batch, and a transaction whose published pubdata, if the VM reports any, is not below
  the size computed from its logs and writes. Then the resolution for the batch that holds only this
  transaction is not \<open>ExcludeAndSeal\<close>.\<close>
theorem sole_transaction_not_excluded:
  assumes "reject_tx_at_gas_percentage config \<le> 1" "reject_tx_at_eth_params_percentage config \<le> 1"
    "reject_tx_at_geometry_percentage config \<le> 1" "unat (max_pubdata_per_batch config) < 2 ^ 53"
    "b = t\<lparr>sd_gas_count := gas_count_add (sd_gas_count t) new_block_gas_count\<rparr>"
    "em_pubdata_published (sd_execution_metrics t) = 0 \<or>
     vm_metrics_size (sd_execution_metrics t) + metrics_size (sd_writes_metrics t) v
       \<le> ucast (em_pubdata_published (sd_execution_metrics t))"
  shows "should_seal_l1_batch hw (sequencer_sealer_new config) 1 b t v \<noteq> Some ExcludeAndSeal"
proof
  assume "should_seal_l1_batch hw (sequencer_sealer_new config) 1 b t v = Some ExcludeAndSeal"
  then obtain rs where rs: "those (map (\<lambda>c. criterion_should_seal hw c config 1 b t v) (default_sealers config)) = Some rs"
    "strictest rs = ExcludeAndSeal"
    by (auto simp: should_seal_l1_batch_strictest)
  have "gas_criterion config b t \<noteq> ExcludeAndSeal"
    "pubdata_bytes_criterion (max_pubdata_per_batch config) config b t v \<noteq> ExcludeAndSeal"
    "circuits_criterion config b t v \<noteq> Some ExcludeAndSeal"
    "tx_encoding_size_criterion hw config b t v \<noteq> ExcludeAndSeal"
    using assms(1-4,6)
    by (simp_all add: gas_criterion_alone pubdata_bytes_criterion_alone circuits_criterion_alone
        tx_encoding_size_criterion_alone assms(5))
  moreover have "slots_criterion config 1 v \<noteq> Some ExcludeAndSeal"
    "gas_for_batch_tip_criterion 1 t v \<noteq> ExcludeAndSeal"
    by (simp_all add: slots_criterion_def gas_for_batch_tip_criterion_def Let_def)
  moreover have "ExcludeAndSeal \<in> set rs" by (rule strictest_excludes [OF rs(2)])
  ultimately show False
    using rs(1) by (auto simp: default_sealers_def split: option.splits)
qed

lemma share_one:
  assumes "n < 2 ^ 53"
  shows "share n 1 = of_nat n"
proof -
  have "f64_mul (f64_of_nat n) 1 = of_nat n"
    using f64_of_nat_exact [OF assms] by (simp add: f64_mul_def) (simp add: f64_of_nat_def)
  moreover have "\<lfloor>of_nat n + 1 / 2 :: rat\<rfloor> = int n" by (simp add: floor_eq_iff)
  ultimately show ?thesis by (simp add: f64_round_int_def)
qed

text \<open>A configuration whose thresholds are the limits themselves, and a transaction that sends one long
  message to L1.\<close>

definition full_config :: StateKeeperConfig where
  "full_config = \<lparr>transaction_slots = 8000, block_commit_deadline_ms = 2500,
     l2_block_commit_deadline_ms = 1000, l2_block_max_payload_size = 1000000,
     max_single_tx_gas = 15000000, reject_tx_at_geometry_percentage = 1,
     reject_tx_at_eth_params_percentage = 1, reject_tx_at_gas_percentage = 1,
     close_block_at_geometry_percentage = 1, close_block_at_eth_params_percentage = 1,
     close_block_at_gas_percentage = 1, max_pubdata_per_batch = 120000, max_circuits_per_batch = 31100\<rparr>"

definition message_data :: "u64 \<Rightarrow> u32 \<Rightarrow> BlockGasCount \<Rightarrow> SealData" where
  "message_data len published gas =
     \<lparr>sd_execution_metrics = vm_metrics_default\<lparr>em_l2_l1_long_messages := len, em_pubdata_published := published\<rparr>,
      sd_gas_count = gas, sd_cumulative_size = 30,
      sd_writes_metrics = \<lparr>initial_storage_writes = 0, repeated_storage_writes = 0, total_updated_values_size = 0\<rparr>,
      sd_gas_remaining = 1000000000\<rparr>"

theorem sole_transaction_not_excluded_witness:
  "should_seal_l1_batch 0 (sequencer_sealer_new full_config) 1
     (message_data 100000 100000 new_block_gas_count) (message_data 100000 100000 gas_count_default) Version24
   \<noteq> Some ExcludeAndSeal"
  by (rule sole_transaction_not_excluded)
    (simp_all add: full_config_def message_data_def gas_count_add_def new_block_gas_count_def
      vm_metrics_size_def metrics_size_def is_pre_boojum_def less_eq_ProtocolVersionId_def)

lemma shares_of_full_config [simp]:
  "f64_to_u32 (share 15000000 1) = 15000000" "f64_to_u64 (share 120000 1) = 120000"
  "unat (f64_to_u64 (share 31100 1)) = 31100" "unat (f64_to_u64 (share 336985 1)) = 336985"
  by (simp_all add: share_one f64_to_u32_def f64_to_u64_def)

lemma verdicts_on_message:
  assumes "t = message_data len p gas_count_default" "b = message_data len p new_block_gas_count"
  shows "slots_criterion full_config 1 Version24 = Some NoSeal"
    "gas_criterion full_config b t = NoSeal"
    "circuits_criterion full_config b t Version24 = Some NoSeal"
    "tx_encoding_size_criterion hw full_config b t Version24 = NoSeal"
    "gas_for_batch_tip_criterion 1 t Version24 = NoSeal"
  by (simp_all add: slots_criterion_def gas_criterion_def circuits_criterion_def gas_for_batch_tip_criterion_def
      tx_encoding_size_criterion_def Let_def full_config_def message_data_def assms any_field_greater_than_def
      gas_count_add_def new_block_gas_count_def circuit_total_def f32_ceil_to_usize_def
      get_bootloader_tx_encoding_space_def vm_latest_used_bootloader_memory_words_def
      vm_latest_used_bootloader_memory_bytes.simps layout_defs)


end
