(* ===== verification/State_Keeper.thy ===== *)
theory State_Keeper
  imports Seal_Criteria
begin

text \<open>
  The state keeper of the main node: how transactions are executed, accepted into the open batch or
  turned away, and how the batch is cut into L2 blocks. The theory follows
  \<^verbatim>\<open>core/node/state_keeper/src/updates\<close> (the accumulated results of the pending L2 block and of the pending
  batch), \<^verbatim>\<open>keeper.rs\<close> (\<open>process_one_tx\<close>, \<open>process_upgrade_tx\<close> and the loop of \<open>process_l1_batch\<close>), the timeouts of
  \<^verbatim>\<open>seal_criteria/mod.rs\<close> and the outputs of the VM in
  \<^verbatim>\<open>core/lib/vm_interface/src/types/outputs/execution_result.rs\<close>. What the loop asks of its environment (the clock, the next
  transaction, the result of the VM, the answers of the I/O layer) is the input of an iteration; the calls
  it makes are recorded in order. Call traces are carried along in the type \<open>'c\<close>.
\<close>

section \<open>Outputs of the VM\<close>

record VmEvent =
  ev_location :: "u32 \<times> u32"
  ev_address :: address
  ev_indexed_topics :: "h256 list"
  ev_value :: "u8 list"

record L2ToL1Log =
  shard_id :: u8
  is_service :: bool
  tx_number_in_block :: u16
  log_sender :: address
  log_key :: h256
  log_value :: h256

abbreviation (input) L1_MESSENGER_ADDRESS :: address where "L1_MESSENGER_ADDRESS \<equiv> 0x8008"
abbreviation (input) PUBLISH_BYTECODE_OVERHEAD :: u64 where "PUBLISH_BYTECODE_OVERHEAD \<equiv> 100"

text \<open>The signatures of the events \<open>L1MessageSent\<close> and \<open>MarkedAsKnown\<close>.\<close>

definition L1_MESSAGE_EVENT_SIGNATURE :: h256 where
  "L1_MESSAGE_EVENT_SIGNATURE = word_from_be
     [58, 54, 228, 114, 145, 244, 32, 31, 175, 19, 127, 171, 8, 29, 146, 41, 91, 206, 45, 83, 190,
      44, 108, 166, 139, 168, 44, 127, 170, 156, 226, 65]"

definition PUBLISHED_BYTECODE_SIGNATURE :: h256 where
  "PUBLISHED_BYTECODE_SIGNATURE = word_from_be
     [201, 71, 34, 255, 19, 234, 207, 83, 84, 124, 71, 65, 218, 181, 34, 131, 83, 160, 89, 56, 255,
      205, 213, 212, 162, 213, 51, 174, 14, 97, 130, 135]"

definition extract_long_l2_to_l1_messages ::
    "(u8 list \<Rightarrow> u8 list option) \<Rightarrow> VmEvent list \<Rightarrow> u8 list list option" where
  "extract_long_l2_to_l1_messages decode_bytes events =
     those (map (\<lambda>e. decode_bytes (ev_value e))
       (filter (\<lambda>e. ev_address e = L1_MESSENGER_ADDRESS \<and> length (ev_indexed_topics e) = 3 \<and>
          ev_indexed_topics e ! 0 = L1_MESSAGE_EVENT_SIGNATURE) events))"

definition extract_published_bytecodes :: "VmEvent list \<Rightarrow> h256 list" where
  "extract_published_bytecodes events =
     map (\<lambda>e. ev_indexed_topics e ! 1)
       (filter (\<lambda>e. ev_address e = KNOWN_CODES_STORAGE_ADDRESS \<and> length (ev_indexed_topics e) = 3 \<and>
          ev_indexed_topics e ! 0 = PUBLISHED_BYTECODE_SIGNATURE \<and> ev_indexed_topics e ! 2 \<noteq> 0) events)"

record VmExecutionLogs =
  vl_storage_logs :: "StorageLogWithPreviousValue list"
  vl_events :: "VmEvent list"
  vl_user_l2_to_l1_logs :: "L2ToL1Log list"
  vl_system_l2_to_l1_logs :: "L2ToL1Log list"
  vl_total_log_queries_count :: u64

record VmExecutionStatistics =
  vs_contracts_used :: u64
  vs_cycles_used :: u32
  vs_gas_used :: u64
  vs_gas_remaining :: u32
  vs_computational_gas_used :: u32
  vs_total_log_queries :: u64
  vs_pubdata_published :: u32
  vs_circuit_statistic :: CircuitStatistic

record Refunds =
  gas_refunded :: u64
  operator_suggested_refund :: u64

datatype ExecutionResult = ExecSuccess "u8 list" | ExecRevert VmRevertReason | ExecHalt Halt

fun exec_is_failed :: "ExecutionResult \<Rightarrow> bool" where
  "exec_is_failed (ExecSuccess _) = False"
| "exec_is_failed (ExecRevert _) = True"
| "exec_is_failed (ExecHalt _) = True"

record VmExecutionResultAndLogs =
  vr_result :: ExecutionResult
  vr_logs :: VmExecutionLogs
  vr_statistics :: VmExecutionStatistics
  vr_refunds :: Refunds

text \<open>The local function \<open>bytecode_len_in_bytes\<close> of this file reads the length from the same two bytes as the
  one of \<open>zksync_utils\<close>.\<close>

definition get_execution_metrics ::
    "(u8 list \<Rightarrow> u8 list option) \<Rightarrow> VmExecutionResultAndLogs \<Rightarrow> Transaction option \<Rightarrow> VmExecutionMetrics option" where
  "get_execution_metrics decode_bytes r tx =
     do { let contracts_deployed = (case tx of None \<Rightarrow> 0 | Some tx \<Rightarrow> of_nat (length (Execute.factory_deps (execute tx))));
          messages \<leftarrow> extract_long_l2_to_l1_messages decode_bytes (vl_events (vr_logs r));
          let long_messages = (\<Sum>m\<leftarrow>messages. of_nat ((length m + 31) div 32 * 32 + 64));
          let bytecode_bytes = (\<Sum>h\<leftarrow>extract_published_bytecodes (vl_events (vr_logs r)).
                of_nat (bytecode_len_in_bytes h) + PUBLISH_BYTECODE_OVERHEAD);
          Some \<lparr>em_gas_used = vs_gas_used (vr_statistics r),
            em_published_bytecode_bytes = bytecode_bytes,
            em_l2_l1_long_messages = long_messages,
            em_l2_to_l1_logs = of_nat (length (vl_user_l2_to_l1_logs (vr_logs r))
              + length (vl_system_l2_to_l1_logs (vr_logs r))),
            em_contracts_used = vs_contracts_used (vr_statistics r),
            em_contracts_deployed = contracts_deployed,
            em_vm_events = of_nat (length (vl_events (vr_logs r))),
            em_storage_logs = of_nat (length (vl_storage_logs (vr_logs r))),
            em_total_log_queries = vs_total_log_queries (vr_statistics r),
            em_cycles_used = vs_cycles_used (vr_statistics r),
            em_computational_gas_used = vs_computational_gas_used (vr_statistics r),
            em_pubdata_published = vs_pubdata_published (vr_statistics r),
            em_circuit_statistic = vs_circuit_statistic (vr_statistics r)\<rparr> }"

datatype TxExecutionStatus = TxSuccess | TxFailure

record 'c TransactionExecutionResult =
  ter_transaction :: Transaction
  ter_hash :: h256
  ter_execution_info :: VmExecutionMetrics
  ter_execution_status :: TxExecutionStatus
  ter_refunded_gas :: u64
  ter_operator_suggested_refund :: u64
  ter_compressed_bytecodes :: "CompressedBytecodeInfo list"
  ter_call_traces :: "'c list"
  ter_revert_reason :: "string option"

section \<open>Accumulated updates\<close>

text \<open>What comes from outside: the functions of the VM model, the RLP reader, the ABI decoder of a byte
  string, hexadecimal printing, the length of the protobuf encoding of a transaction and the heap size of the two oldest VM versions.\<close>

record KeeperParams =
  kp_vm :: VmParams
  kp_rlp_val_at :: "u8 list \<Rightarrow> nat \<Rightarrow> u64 option"
  kp_decode_bytes :: "u8 list \<Rightarrow> u8 list option"
  kp_hex :: "u8 list \<Rightarrow> string"
  kp_payload_len :: "Transaction \<Rightarrow> nat"
  kp_heap_words :: nat

fun display_revert_reason :: "(u8 list \<Rightarrow> string) \<Rightarrow> VmRevertReason \<Rightarrow> string" where
  "display_revert_reason hex (General msg _) = msg"
| "display_revert_reason hex VmError = ''VM Error''"
| "display_revert_reason hex InnerTxErrorReason = ''Bootloader-based tx failed''"
| "display_revert_reason hex (UnknownReason function_selector data) =
     ''Error function_selector = 0x'' @ hex function_selector @ '', data = 0x'' @ hex data"

definition extract_bytecodes_marked_as_known :: "VmEvent list \<Rightarrow> h256 list" where
  "extract_bytecodes_marked_as_known events =
     map (\<lambda>e. ev_indexed_topics e ! 1)
       (filter (\<lambda>e. ev_address e = KNOWN_CODES_STORAGE_ADDRESS \<and> length (ev_indexed_topics e) = 3 \<and>
          ev_indexed_topics e ! 0 = PUBLISHED_BYTECODE_SIGNATURE) events)"

record 'c L2BlockUpdates =
  bu_executed_transactions :: "'c TransactionExecutionResult list"
  bu_events :: "VmEvent list"
  bu_storage_logs :: "StorageLogWithPreviousValue list"
  bu_user_l2_to_l1_logs :: "L2ToL1Log list"
  bu_system_l2_to_l1_logs :: "L2ToL1Log list"
  bu_new_factory_deps :: "(h256, u8 list) fmap"
  bu_l1_gas_count :: BlockGasCount
  bu_block_execution_metrics :: VmExecutionMetrics
  bu_txs_encoding_size :: nat
  bu_payload_encoding_size :: nat
  bu_timestamp :: u64
  bu_number :: u32
  bu_prev_block_hash :: h256
  bu_virtual_blocks :: u32
  bu_protocol_version :: ProtocolVersionId

definition l2_block_updates_new ::
    "u64 \<Rightarrow> u32 \<Rightarrow> h256 \<Rightarrow> u32 \<Rightarrow> ProtocolVersionId \<Rightarrow> 'c L2BlockUpdates" where
  "l2_block_updates_new timestamp number prev_block_hash virtual_blocks v =
     \<lparr>bu_executed_transactions = [], bu_events = [], bu_storage_logs = [], bu_user_l2_to_l1_logs = [],
      bu_system_l2_to_l1_logs = [], bu_new_factory_deps = fmempty, bu_l1_gas_count = gas_count_default,
      bu_block_execution_metrics = vm_metrics_default, bu_txs_encoding_size = 0,
      bu_payload_encoding_size = 0, bu_timestamp = timestamp, bu_number = number,
      bu_prev_block_hash = prev_block_hash, bu_virtual_blocks = virtual_blocks, bu_protocol_version = v\<rparr>"

definition extend_from_fictive_transaction ::
    "VmExecutionResultAndLogs \<Rightarrow> BlockGasCount \<Rightarrow> VmExecutionMetrics \<Rightarrow> 'c L2BlockUpdates \<Rightarrow> 'c L2BlockUpdates" where
  "extend_from_fictive_transaction result l1_gas metrics b = b
     \<lparr>bu_events := bu_events b @ vl_events (vr_logs result),
      bu_storage_logs := bu_storage_logs b @ vl_storage_logs (vr_logs result),
      bu_user_l2_to_l1_logs := bu_user_l2_to_l1_logs b @ vl_user_l2_to_l1_logs (vr_logs result),
      bu_system_l2_to_l1_logs := bu_system_l2_to_l1_logs b @ vl_system_l2_to_l1_logs (vr_logs result),
      bu_l1_gas_count := gas_count_add (bu_l1_gas_count b) l1_gas,
      bu_block_execution_metrics := vm_metrics_add (bu_block_execution_metrics b) metrics\<rparr>"

definition extend_from_executed_transaction ::
    "KeeperParams \<Rightarrow> Transaction \<Rightarrow> VmExecutionResultAndLogs \<Rightarrow> BlockGasCount \<Rightarrow> VmExecutionMetrics \<Rightarrow>
     CompressedBytecodeInfo list \<Rightarrow> 'c list \<Rightarrow> 'c L2BlockUpdates \<Rightarrow> 'c L2BlockUpdates option" where
  "extend_from_executed_transaction P tx result tx_l1_gas metrics bytecodes traces b =
     do { let saved_factory_deps = extract_bytecodes_marked_as_known (vl_events (vr_logs result));
          let status = (if exec_is_failed (vr_result result) then TxFailure else TxSuccess);
          revert_reason \<leftarrow> (case vr_result result of
              ExecSuccess _ \<Rightarrow> Some None
            | ExecRevert output \<Rightarrow> Some (Some (display_revert_reason (kp_hex P) output))
            | ExecHalt _ \<Rightarrow> None);
          tx_factory_deps \<leftarrow> those (map (\<lambda>dep. map_option (\<lambda>h. (h, dep)) (hash_bytecode (vp_code_hash (kp_vm P)) dep))
            (Execute.factory_deps (execute tx)));
          known_bytecodes \<leftarrow> those (map (\<lambda>h. map_option (Pair h) (map_of (rev tx_factory_deps) h)) saved_factory_deps);
          size \<leftarrow> bootloader_encoding_size (kp_vm P) (kp_rlp_val_at P) tx;
          hash \<leftarrow> tx_hash tx;
          Some (b
            \<lparr>bu_events := bu_events b @ vl_events (vr_logs result),
             bu_user_l2_to_l1_logs := bu_user_l2_to_l1_logs b @ vl_user_l2_to_l1_logs (vr_logs result),
             bu_system_l2_to_l1_logs := bu_system_l2_to_l1_logs b @ vl_system_l2_to_l1_logs (vr_logs result),
             bu_new_factory_deps := fold (\<lambda>(h, code). fmupd h code) known_bytecodes (bu_new_factory_deps b),
             bu_l1_gas_count := gas_count_add (bu_l1_gas_count b) tx_l1_gas,
             bu_block_execution_metrics := vm_metrics_add (bu_block_execution_metrics b) metrics,
             bu_txs_encoding_size := bu_txs_encoding_size b + size,
             bu_payload_encoding_size := bu_payload_encoding_size b + kp_payload_len P tx,
             bu_storage_logs := bu_storage_logs b @ vl_storage_logs (vr_logs result),
             bu_executed_transactions := bu_executed_transactions b @
               [\<lparr>ter_transaction = tx, ter_hash = hash, ter_execution_info = metrics,
                 ter_execution_status = status, ter_refunded_gas = gas_refunded (vr_refunds result),
                 ter_operator_suggested_refund = operator_suggested_refund (vr_refunds result),
                 ter_compressed_bytecodes = bytecodes, ter_call_traces = traces,
                 ter_revert_reason = revert_reason\<rparr>]\<rparr>) }"

definition updates_l2_block_hash :: "KeeperParams \<Rightarrow> 'c L2BlockUpdates \<Rightarrow> h256" where
  "updates_l2_block_hash P b =
     hasher_finalize (vp_keccak256 (kp_vm P))
       (fold (\<lambda>tx. push_tx_hash (vp_keccak256 (kp_vm P)) (ter_hash tx)) (bu_executed_transactions b)
         (hasher_new (bu_number b) (bu_timestamp b) (bu_prev_block_hash b)))
       (bu_protocol_version b)"

definition updates_get_env :: "'c L2BlockUpdates \<Rightarrow> L2BlockEnv" where
  "updates_get_env b =
     \<lparr>l2_block_env_number = bu_number b, l2_block_env_timestamp = bu_timestamp b,
      l2_block_env_prev_block_hash = bu_prev_block_hash b,
      l2_block_env_max_virtual_blocks_to_create = bu_virtual_blocks b\<rparr>"

record PriorityOpOnchainData =
  od_layer_2_tip_fee :: u256
  od_onchain_data_hash :: h256

text \<open>Of a finished batch the keeper reads the result of the block tip; the other fields are passed on.\<close>

record FinishedL1Batch =
  block_tip_execution_result :: VmExecutionResultAndLogs

record 'c L1BatchUpdates =
  lu_number :: u32
  lu_executed_transactions :: "'c TransactionExecutionResult list"
  lu_priority_ops_onchain_data :: "PriorityOpOnchainData list"
  lu_block_execution_metrics :: VmExecutionMetrics
  lu_l1_gas_count :: BlockGasCount
  lu_txs_encoding_size :: nat
  lu_finished :: "FinishedL1Batch option"

definition l1_batch_updates_new :: "u32 \<Rightarrow> 'c L1BatchUpdates" where
  "l1_batch_updates_new number =
     \<lparr>lu_number = number, lu_executed_transactions = [], lu_priority_ops_onchain_data = [],
      lu_block_execution_metrics = vm_metrics_default, lu_l1_gas_count = new_block_gas_count,
      lu_txs_encoding_size = 0, lu_finished = None\<rparr>"

definition onchain_data_of :: "Transaction \<Rightarrow> PriorityOpOnchainData option" where
  "onchain_data_of tx =
     (case common_data tx of
        L1 d \<Rightarrow> Some \<lparr>od_layer_2_tip_fee = layer_2_tip_fee d, od_onchain_data_hash = canonical_tx_hash d\<rparr>
      | _ \<Rightarrow> None)"

definition extend_from_sealed_l2_block :: "'c L2BlockUpdates \<Rightarrow> 'c L1BatchUpdates \<Rightarrow> 'c L1BatchUpdates" where
  "extend_from_sealed_l2_block b l = l
     \<lparr>lu_priority_ops_onchain_data := lu_priority_ops_onchain_data l @
        List.map_filter (\<lambda>tx. onchain_data_of (ter_transaction tx)) (bu_executed_transactions b),
      lu_executed_transactions := lu_executed_transactions l @ bu_executed_transactions b,
      lu_l1_gas_count := gas_count_add (lu_l1_gas_count l) (bu_l1_gas_count b),
      lu_block_execution_metrics := vm_metrics_add (lu_block_execution_metrics l) (bu_block_execution_metrics b),
      lu_txs_encoding_size := lu_txs_encoding_size l + bu_txs_encoding_size b\<rparr>"

section \<open>Updates manager\<close>

record 'c UpdatesManager =
  um_batch_timestamp :: u64
  um_fee_account_address :: address
  um_batch_fee_input :: BatchFeeInput
  um_base_fee_per_gas :: u64
  um_base_system_contract_hashes :: "h256 \<times> h256"
  um_protocol_version :: ProtocolVersionId
  um_storage_view_cache :: "StorageViewCache option"
  um_l1_batch :: "'c L1BatchUpdates"
  um_l2_block :: "'c L2BlockUpdates"
  um_storage_writes_deduplicator :: StorageWritesDeduplicator

definition updates_manager_new ::
    "L1BatchEnv \<Rightarrow> ProtocolVersionId \<Rightarrow> h256 \<times> h256 \<Rightarrow> 'c UpdatesManager option" where
  "updates_manager_new env v hashes =
     map_option (\<lambda>base_fee.
       \<lparr>um_batch_timestamp = l1_batch_timestamp env, um_fee_account_address = fee_account env,
        um_batch_fee_input = fee_input env, um_base_fee_per_gas = base_fee,
        um_base_system_contract_hashes = hashes, um_protocol_version = v, um_storage_view_cache = None,
        um_l1_batch = l1_batch_updates_new (l1_batch_number env),
        um_l2_block = l2_block_updates_new (l2_block_env_timestamp (first_l2_block env))
          (l2_block_env_number (first_l2_block env)) (l2_block_env_prev_block_hash (first_l2_block env))
          (l2_block_env_max_virtual_blocks_to_create (first_l2_block env)) v,
        um_storage_writes_deduplicator = dedup_new\<rparr>)
     (get_batch_base_fee env (vm_version_of v))"

definition um_extend_from_executed_transaction ::
    "KeeperParams \<Rightarrow> Transaction \<Rightarrow> VmExecutionResultAndLogs \<Rightarrow> CompressedBytecodeInfo list \<Rightarrow> BlockGasCount \<Rightarrow>
     VmExecutionMetrics \<Rightarrow> 'c list \<Rightarrow> 'c UpdatesManager \<Rightarrow> 'c UpdatesManager option" where
  "um_extend_from_executed_transaction P tx result bytecodes tx_l1_gas metrics traces um =
     map_option (\<lambda>b. um
       \<lparr>um_storage_writes_deduplicator :=
          dedup_apply (um_storage_writes_deduplicator um) (vl_storage_logs (vr_logs result)),
        um_l2_block := b\<rparr>)
     (extend_from_executed_transaction P tx result tx_l1_gas metrics bytecodes traces (um_l2_block um))"

definition metrics_for_criteria ::
    "KeeperParams \<Rightarrow> Transaction option \<Rightarrow> VmExecutionResultAndLogs \<Rightarrow> (BlockGasCount \<times> VmExecutionMetrics) option" where
  "metrics_for_criteria P tx result =
     map_option (\<lambda>metrics.
       ((case tx of Some tx \<Rightarrow> gas_count_from_tx_and_metrics tx metrics | None \<Rightarrow> gas_count_from_metrics metrics), metrics))
     (get_execution_metrics (kp_decode_bytes P) result tx)"

definition um_finish_batch :: "KeeperParams \<Rightarrow> FinishedL1Batch \<Rightarrow> 'c UpdatesManager \<Rightarrow> 'c UpdatesManager option" where
  "um_finish_batch P finished um =
     (if lu_finished (um_l1_batch um) \<noteq> None then None
      else do { let result = block_tip_execution_result finished;
                (l1_gas, metrics) \<leftarrow> metrics_for_criteria P None result;
                Some (um
                  \<lparr>um_storage_writes_deduplicator :=
                     dedup_apply (um_storage_writes_deduplicator um) (vl_storage_logs (vr_logs result)),
                   um_l2_block := extend_from_fictive_transaction result l1_gas metrics (um_l2_block um),
                   um_l1_batch := (um_l1_batch um)\<lparr>lu_finished := Some finished\<rparr>\<rparr>) })"

record L2BlockParams =
  bp_timestamp :: u64
  bp_virtual_blocks :: u32

definition um_push_l2_block :: "KeeperParams \<Rightarrow> L2BlockParams \<Rightarrow> 'c UpdatesManager \<Rightarrow> 'c UpdatesManager" where
  "um_push_l2_block P params um = um
     \<lparr>um_l2_block := l2_block_updates_new (bp_timestamp params) (bu_number (um_l2_block um) + 1)
        (updates_l2_block_hash P (um_l2_block um)) (bp_virtual_blocks params) (um_protocol_version um),
      um_l1_batch := extend_from_sealed_l2_block (um_l2_block um) (um_l1_batch um)\<rparr>"

definition pending_executed_transactions_len :: "'c UpdatesManager \<Rightarrow> nat" where
  "pending_executed_transactions_len um =
     length (lu_executed_transactions (um_l1_batch um)) + length (bu_executed_transactions (um_l2_block um))"

definition pending_l1_gas_count :: "'c UpdatesManager \<Rightarrow> BlockGasCount" where
  "pending_l1_gas_count um = gas_count_add (lu_l1_gas_count (um_l1_batch um)) (bu_l1_gas_count (um_l2_block um))"

definition pending_execution_metrics :: "'c UpdatesManager \<Rightarrow> VmExecutionMetrics" where
  "pending_execution_metrics um =
     vm_metrics_add (lu_block_execution_metrics (um_l1_batch um)) (bu_block_execution_metrics (um_l2_block um))"

definition pending_txs_encoding_size :: "'c UpdatesManager \<Rightarrow> nat" where
  "pending_txs_encoding_size um = lu_txs_encoding_size (um_l1_batch um) + bu_txs_encoding_size (um_l2_block um)"

section \<open>Timeouts\<close>

abbreviation (input) millis_since :: "128 word \<Rightarrow> u64 \<Rightarrow> u64" where
  "millis_since now since \<equiv> ucast (now - ucast since * 1000)"

definition should_seal_l1_batch_unconditionally ::
    "StateKeeperConfig \<Rightarrow> 128 word \<Rightarrow> 'c UpdatesManager \<Rightarrow> bool" where
  "should_seal_l1_batch_unconditionally config now um \<longleftrightarrow>
     pending_executed_transactions_len um \<noteq> 0 \<and>
     millis_since now (um_batch_timestamp um) > block_commit_deadline_ms config"

definition io_should_seal_l2_block :: "StateKeeperConfig \<Rightarrow> 128 word \<Rightarrow> 'c UpdatesManager \<Rightarrow> bool" where
  "io_should_seal_l2_block config now um \<longleftrightarrow>
     bu_executed_transactions (um_l2_block um) \<noteq> [] \<and>
       millis_since now (bu_timestamp (um_l2_block um)) > l2_block_commit_deadline_ms config
     \<or> bu_payload_encoding_size (um_l2_block um) \<ge> l2_block_max_payload_size config"

section \<open>Processing a batch\<close>

datatype 'c TxExecutionResult =
    Success VmExecutionResultAndLogs "BlockGasCount \<times> VmExecutionMetrics" "CompressedBytecodeInfo list" "'c list" u32
  | RejectedByVm Halt
  | BootloaderOutOfGasForTx

type_synonym sealer = "nat \<Rightarrow> SealData \<Rightarrow> SealData \<Rightarrow> ProtocolVersionId \<Rightarrow> SealResolution option"

definition process_one_tx ::
    "sealer \<Rightarrow> Transaction \<Rightarrow> 'c TxExecutionResult \<Rightarrow> 'c UpdatesManager \<Rightarrow> (SealResolution \<times> 'c UpdatesManager) option" where
  "process_one_tx resolve tx exec_result um =
     (let is_first_tx = (pending_executed_transactions_len um = 0)
      in case exec_result of
           BootloaderOutOfGasForTx \<Rightarrow>
             Some (if is_first_tx then Unexecutable BootloaderOutOfGas else ExcludeAndSeal, um)
         | RejectedByVm reason \<Rightarrow>
             if reason = NotEnoughGasProvidedHalt
             then Some (if is_first_tx then Unexecutable NotEnoughGasProvided else ExcludeAndSeal, um)
             else Some (Unexecutable (HaltReason reason), um)
         | Success tx_result tx_metrics bytecodes traces gas_remaining \<Rightarrow>
             do { encoding_len \<leftarrow> tx_encoding_len tx;
                  let (tx_l1_gas, tx_execution_metrics) = tx_metrics;
                  let logs = vl_storage_logs (vr_logs tx_result);
                  let v = um_protocol_version um;
                  (block_writes_metrics, dedup) \<leftarrow> apply_and_rollback (um_storage_writes_deduplicator um) logs;
                  let block_writes_l1_gas = gas_count_from_writes block_writes_metrics v;
                  let tx_writes_metrics = apply_on_empty_state logs;
                  let tx_writes_l1_gas = gas_count_from_writes tx_writes_metrics v;
                  let tx_data =
                    \<lparr>sd_execution_metrics = tx_execution_metrics,
                     sd_gas_count = gas_count_add tx_l1_gas tx_writes_l1_gas,
                     sd_cumulative_size = encoding_len, sd_writes_metrics = tx_writes_metrics,
                     sd_gas_remaining = gas_remaining\<rparr>;
                  let block_data =
                    \<lparr>sd_execution_metrics = vm_metrics_add tx_execution_metrics (pending_execution_metrics um),
                     sd_gas_count = gas_count_add (gas_count_add tx_l1_gas block_writes_l1_gas) (pending_l1_gas_count um),
                     sd_cumulative_size = encoding_len + pending_txs_encoding_size um,
                     sd_writes_metrics = block_writes_metrics, sd_gas_remaining = gas_remaining\<rparr>;
                  resolution \<leftarrow> resolve (pending_executed_transactions_len um + 1) block_data tx_data v;
                  Some (resolution, um\<lparr>um_storage_writes_deduplicator := dedup\<rparr>) })"

datatype KeeperError = Canceled | Fatal

datatype 'c keeper_call =
    SealL2Block "'c L2BlockUpdates"
  | StartNextL2Block L2BlockEnv
  | ExecuteTx Transaction "'c TxExecutionResult option"
  | RollbackLastTx
  | IoRollback Transaction
  | IoReject Transaction UnexecutableReason
  | FinishBatch
  | HandleL1Batch

text \<open>The answers of the environment in one iteration of the loop: whether the node is being stopped, the
  clock at the two deadline checks, the results of the calls to the output handler, the I/O layer and the
  batch executor.\<close>

record 'c iteration_input =
  in_canceled :: bool
  in_now_batch :: "128 word"
  in_now_block :: "128 word"
  in_l2_block_handled :: bool
  in_l2_block_params :: "KeeperError + L2BlockParams"
  in_l2_block_started :: bool
  in_next_tx :: "Transaction option option"
  in_exec_result :: "'c TxExecutionResult option"
  in_executor_rolled_back :: bool
  in_io_done :: bool

datatype batch_status = Running | BatchSealed | Stopped KeeperError

type_synonym 'c keeper_state = "'c UpdatesManager \<times> 'c keeper_call list"

definition start_next_l2_block ::
    "KeeperParams \<Rightarrow> L2BlockParams \<Rightarrow> bool \<Rightarrow> 'c keeper_state \<Rightarrow> KeeperError option \<times> 'c keeper_state" where
  "start_next_l2_block P params started st =
     (let um = um_push_l2_block P params (fst st)
      in (if started then None else Some Fatal, um, snd st @ [StartNextL2Block (updates_get_env (um_l2_block um))]))"

definition seal_and_start_l2_block ::
    "KeeperParams \<Rightarrow> 'c iteration_input \<Rightarrow> 'c keeper_state \<Rightarrow> KeeperError option \<times> 'c keeper_state" where
  "seal_and_start_l2_block P i st =
     (let (um, calls) = st; calls = calls @ [SealL2Block (um_l2_block um)]
      in if \<not> in_l2_block_handled i then (Some Fatal, um, calls)
         else case in_l2_block_params i of
                Inl e \<Rightarrow> (Some e, um, calls)
              | Inr params \<Rightarrow> start_next_l2_block P params (in_l2_block_started i) (um, calls))"

definition apply_resolution ::
    "KeeperParams \<Rightarrow> 'c iteration_input \<Rightarrow> Transaction \<Rightarrow> 'c TxExecutionResult \<Rightarrow> SealResolution \<Rightarrow> 'c keeper_state \<Rightarrow>
     (batch_status \<times> 'c keeper_state) option" where
  "apply_resolution P i tx exec_result resolution st =
     (let (um, calls) = st; ended = (if resolution_should_seal resolution then BatchSealed else Running)
      in case resolution of
           ExcludeAndSeal \<Rightarrow>
             if \<not> in_executor_rolled_back i then Some (Stopped Fatal, um, calls @ [RollbackLastTx])
             else Some (if in_io_done i then ended else Stopped Fatal, um, calls @ [RollbackLastTx, IoRollback tx])
         | Unexecutable reason \<Rightarrow>
             if \<not> in_executor_rolled_back i then Some (Stopped Fatal, um, calls @ [RollbackLastTx])
             else Some (if in_io_done i then ended else Stopped Fatal, um, calls @ [RollbackLastTx, IoReject tx reason])
         | _ \<Rightarrow>
             (case exec_result of
                Success tx_result tx_metrics bytecodes traces _ \<Rightarrow>
                  map_option (\<lambda>um. (ended, um, calls))
                    (um_extend_from_executed_transaction P tx tx_result bytecodes (fst tx_metrics) (snd tx_metrics) traces um)
              | _ \<Rightarrow> None))"

definition execute_next_tx ::
    "KeeperParams \<Rightarrow> sealer \<Rightarrow> 'c iteration_input \<Rightarrow> 'c keeper_state \<Rightarrow> (batch_status \<times> 'c keeper_state) option" where
  "execute_next_tx P resolve i st =
     (case in_next_tx i of
        None \<Rightarrow> Some (Stopped Fatal, st)
      | Some None \<Rightarrow> Some (Running, st)
      | Some (Some tx) \<Rightarrow>
          (case in_exec_result i of
             None \<Rightarrow> Some (Stopped Fatal, fst st, snd st @ [ExecuteTx tx None])
           | Some exec_result \<Rightarrow>
               do { (resolution, um) \<leftarrow> process_one_tx resolve tx exec_result (fst st);
                    apply_resolution P i tx exec_result resolution (um, snd st @ [ExecuteTx tx (Some exec_result)]) }))"

definition process_iteration ::
    "KeeperParams \<Rightarrow> sealer \<Rightarrow> StateKeeperConfig \<Rightarrow> 'c iteration_input \<Rightarrow> 'c keeper_state \<Rightarrow>
     (batch_status \<times> 'c keeper_state) option" where
  "process_iteration P resolve config i st =
     (if should_seal_l1_batch_unconditionally config (in_now_batch i) (fst st) then Some (BatchSealed, st)
      else if io_should_seal_l2_block config (in_now_block i) (fst st)
      then (case seal_and_start_l2_block P i st of
              (Some e, st') \<Rightarrow> Some (Stopped e, st')
            | (None, st') \<Rightarrow> execute_next_tx P resolve i st')
      else execute_next_tx P resolve i st)"

text \<open>The loop, over the iterations whose input has arrived.\<close>

fun process_l1_batch_loop ::
    "KeeperParams \<Rightarrow> sealer \<Rightarrow> StateKeeperConfig \<Rightarrow> 'c iteration_input list \<Rightarrow> 'c keeper_state \<Rightarrow>
     (batch_status \<times> 'c keeper_state) option" where
  "process_l1_batch_loop P resolve config [] st = Some (Running, st)"
| "process_l1_batch_loop P resolve config (i # inputs) st =
     (if in_canceled i then Some (Stopped Canceled, st)
      else do { (status, st') \<leftarrow> process_iteration P resolve config i st;
                if status = Running then process_l1_batch_loop P resolve config inputs st' else Some (status, st') })"

definition process_upgrade_tx ::
    "KeeperParams \<Rightarrow> sealer \<Rightarrow> Transaction \<Rightarrow> 'c TxExecutionResult option \<Rightarrow> 'c keeper_state \<Rightarrow>
     (KeeperError option \<times> 'c keeper_state) option" where
  "process_upgrade_tx P resolve tx exec_result st =
     (let calls = snd st @ [ExecuteTx tx exec_result]
      in if pending_executed_transactions_len (fst st) \<noteq> 0 then None
         else case exec_result of
                None \<Rightarrow> Some (Some Fatal, fst st, calls)
              | Some exec_result \<Rightarrow>
                  do { (resolution, um) \<leftarrow> process_one_tx resolve tx exec_result (fst st);
                       if resolution = NoSeal \<or> resolution = IncludeAndSeal
                       then case exec_result of
                              Success tx_result tx_metrics bytecodes traces _ \<Rightarrow>
                                if exec_is_failed (vr_result tx_result) then Some (Some Fatal, um, calls)
                                else map_option (\<lambda>um. (None, um, calls))
                                  (um_extend_from_executed_transaction P tx tx_result bytecodes
                                     (fst tx_metrics) (snd tx_metrics) [] um)
                            | _ \<Rightarrow> Some (Some Fatal, um, calls)
                       else Some (Some Fatal, um, calls) })"

text \<open>The upgrade transaction comes with the answer of the batch executor to it.\<close>

definition process_l1_batch ::
    "KeeperParams \<Rightarrow> sealer \<Rightarrow> StateKeeperConfig \<Rightarrow> (Transaction \<times> 'c TxExecutionResult option) option \<Rightarrow>
     'c iteration_input list \<Rightarrow> 'c keeper_state \<Rightarrow> (batch_status \<times> 'c keeper_state) option" where
  "process_l1_batch P resolve config protocol_upgrade_tx inputs st =
     (case protocol_upgrade_tx of
        None \<Rightarrow> process_l1_batch_loop P resolve config inputs st
      | Some (tx, exec_result) \<Rightarrow>
          do { (err, st) \<leftarrow> process_upgrade_tx P resolve tx exec_result st;
               case err of Some e \<Rightarrow> Some (Stopped e, st) | None \<Rightarrow> process_l1_batch_loop P resolve config inputs st })"

section \<open>Lemmas\<close>

lemma strictest_NoSeal_iff: "strictest rs = NoSeal \<longleftrightarrow> (\<forall>r \<in> set rs. r = NoSeal)"
proof
  assume none: "strictest rs = NoSeal"
  then have "IncludeAndSeal \<notin> set rs"
    by (auto simp: strictest_def find_Some_iff split: option.splits if_splits)
  then show "\<forall>r \<in> set rs. r = NoSeal" using strictest_accepts [of rs] none by blast
next
  assume all: "\<forall>r \<in> set rs. r = NoSeal"
  then have "find is_unexecutable rs = None" by (auto simp: find_None_iff)
  with all show "strictest rs = NoSeal" by (auto simp: strictest_def)
qed

text \<open>What acceptance by the sealer of the main node guarantees.\<close>

lemma accepted_within_limits:
  assumes "should_seal_l1_batch hw (sequencer_sealer_new config) n b t v = Some r"
    "r = NoSeal \<or> r = IncludeAndSeal"
  shows "transaction_slots config \<le> get_bootloader_max_txs_in_batch (vm_version_of v)"
    "r = NoSeal \<Longrightarrow> n < transaction_slots config"
    "\<not> any_field_greater_than (sd_gas_count b) (max_single_tx_gas config)"
    "vm_metrics_size (sd_execution_metrics b) + metrics_size (sd_writes_metrics b) v
       + of_nat (execution_metrics_bootloader_batch_tip_overhead (vm_version_of v)) \<le> max_pubdata_per_batch config"
    "sd_cumulative_size b \<le> unat (get_bootloader_encoding_space hw (vm_version_of v))"
proof -
  obtain rs where those: "those (map (\<lambda>c. criterion_should_seal hw c config n b t v) (default_sealers config)) = Some rs"
    and r: "r = strictest rs"
    using assms(1) by (auto simp: should_seal_l1_batch_strictest)
  obtain slots circuits where v: "slots_criterion config n v = Some slots"
    "circuits_criterion config b t v = Some circuits"
    "rs = [slots, gas_criterion config b t, pubdata_bytes_criterion (max_pubdata_per_batch config) config b t v,
       circuits, tx_encoding_size_criterion hw config b t v, gas_for_batch_tip_criterion n t v]"
    using those by (auto simp: default_sealers_def split: option.splits)
  have ok: "x = NoSeal \<or> x = IncludeAndSeal" if "x \<in> set rs" for x
    by (rule strictest_accepts [OF assms(2) [unfolded r] that])
  show "transaction_slots config \<le> get_bootloader_max_txs_in_batch (vm_version_of v)"
    using v(1) by (simp add: slots_criterion_def Let_def split: if_splits)
  show "n < transaction_slots config" if "r = NoSeal"
  proof -
    have "slots = NoSeal" using that by (simp add: r strictest_NoSeal_iff v(3))
    then show ?thesis using v(1) by (simp add: slots_criterion_def Let_def split: if_splits)
  qed
  show "\<not> any_field_greater_than (sd_gas_count b) (max_single_tx_gas config)"
    using ok [of "gas_criterion config b t"] by (auto simp: v(3) gas_criterion_def Let_def split: if_splits)
  show "vm_metrics_size (sd_execution_metrics b) + metrics_size (sd_writes_metrics b) v
       + of_nat (execution_metrics_bootloader_batch_tip_overhead (vm_version_of v)) \<le> max_pubdata_per_batch config"
    using ok [of "pubdata_bytes_criterion (max_pubdata_per_batch config) config b t v"]
    by (auto simp: v(3) pubdata_bytes_criterion_def Let_def not_less split: if_splits)
  show "sd_cumulative_size b \<le> unat (get_bootloader_encoding_space hw (vm_version_of v))"
    using ok [of "tx_encoding_size_criterion hw config b t v"]
    by (auto simp: v(3) tx_encoding_size_criterion_def Let_def not_less split: if_splits)
qed

lemma gas_count_add_assoc: "gas_count_add (gas_count_add a b) c = gas_count_add a (gas_count_add b c)"
  by (simp add: gas_count_add_def add.assoc)

lemma gas_count_add_commute: "gas_count_add a b = gas_count_add b a"
  by (simp add: gas_count_add_def add.commute)

lemma gas_count_add_default [simp]: "gas_count_add a gas_count_default = a"
  by (simp add: gas_count_add_def)

lemma vm_metrics_size_add [simp]: "vm_metrics_size (vm_metrics_add a b) = vm_metrics_size a + vm_metrics_size b"
  by (simp add: vm_metrics_size_def vm_metrics_add_def algebra_simps)

lemma vm_metrics_size_default [simp]: "vm_metrics_size vm_metrics_default = 0"
  by (simp add: vm_metrics_size_def)

lemmas pending_defs = pending_executed_transactions_len_def pending_l1_gas_count_def
  pending_execution_metrics_def pending_txs_encoding_size_def

text \<open>Cutting the batch into L2 blocks does not change what is pending.\<close>

lemma push_l2_block_pending [simp]:
  "pending_executed_transactions_len (um_push_l2_block P params um) = pending_executed_transactions_len um"
  "pending_l1_gas_count (um_push_l2_block P params um) = pending_l1_gas_count um"
  "pending_txs_encoding_size (um_push_l2_block P params um) = pending_txs_encoding_size um"
  "vm_metrics_size (pending_execution_metrics (um_push_l2_block P params um)) =
   vm_metrics_size (pending_execution_metrics um)"
  "um_storage_writes_deduplicator (um_push_l2_block P params um) = um_storage_writes_deduplicator um"
  "um_protocol_version (um_push_l2_block P params um) = um_protocol_version um"
  by (simp_all add: um_push_l2_block_def pending_defs extend_from_sealed_l2_block_def l2_block_updates_new_def)

text \<open>The limits of a batch, for everything that is accumulated exactly.\<close>

definition within_limits :: "nat \<Rightarrow> StateKeeperConfig \<Rightarrow> 'c UpdatesManager \<Rightarrow> bool" where
  "within_limits hw config um \<longleftrightarrow>
     (let v = um_protocol_version um; writes = dedup_metrics (um_storage_writes_deduplicator um)
      in transaction_slots config \<le> get_bootloader_max_txs_in_batch (vm_version_of v) \<and>
         pending_txs_encoding_size um \<le> unat (get_bootloader_encoding_space hw (vm_version_of v)) \<and>
         vm_metrics_size (pending_execution_metrics um) + metrics_size writes v
           + of_nat (execution_metrics_bootloader_batch_tip_overhead (vm_version_of v)) \<le> max_pubdata_per_batch config \<and>
         \<not> any_field_greater_than (gas_count_add (pending_l1_gas_count um) (gas_count_from_writes writes v))
             (max_single_tx_gas config))"

lemma within_limits_push [simp]: "within_limits hw config (um_push_l2_block P params um) \<longleftrightarrow> within_limits hw config um"
  by (simp add: within_limits_def)

lemma process_one_tx_accepts:
  assumes "process_one_tx resolve tx exec_result um = Some (r, um')" "r = NoSeal \<or> r = IncludeAndSeal"
  obtains result gas metrics bytecodes traces remaining len b t where
    "exec_result = Success result (gas, metrics) bytecodes traces remaining"
    "tx_encoding_len tx = Some len"
    "resolve (pending_executed_transactions_len um + 1) b t (um_protocol_version um) = Some r"
    "sd_execution_metrics b = vm_metrics_add metrics (pending_execution_metrics um)"
    "sd_gas_count b = gas_count_add (gas_count_add gas (gas_count_from_writes (sd_writes_metrics b) (um_protocol_version um)))
       (pending_l1_gas_count um)"
    "sd_cumulative_size b = len + pending_txs_encoding_size um"
    "apply_and_rollback (um_storage_writes_deduplicator um) (vl_storage_logs (vr_logs result)) =
       Some (sd_writes_metrics b, um_storage_writes_deduplicator um')"
    "um' = um\<lparr>um_storage_writes_deduplicator := um_storage_writes_deduplicator um'\<rparr>"
proof (cases exec_result)
  case (Success result tx_metrics bytecodes traces remaining)
  obtain gas metrics where m: "tx_metrics = (gas, metrics)" by fastforce
  show ?thesis
    using assms(1) by (auto simp: process_one_tx_def Success m bind_eq_Some_conv Let_def intro!: that)
qed (use assms in \<open>auto simp: process_one_tx_def Let_def split: if_splits\<close>)

lemma um_extend_pending:
  assumes "um_extend_from_executed_transaction P tx result bytecodes gas metrics traces um = Some um'"
  obtains size where "bootloader_encoding_size (kp_vm P) (kp_rlp_val_at P) tx = Some size"
    "pending_executed_transactions_len um' = pending_executed_transactions_len um + 1"
    "pending_l1_gas_count um' = gas_count_add (pending_l1_gas_count um) gas"
    "pending_txs_encoding_size um' = pending_txs_encoding_size um + size"
    "vm_metrics_size (pending_execution_metrics um') = vm_metrics_size (pending_execution_metrics um) + vm_metrics_size metrics"
    "um_storage_writes_deduplicator um' =
       dedup_apply (um_storage_writes_deduplicator um) (vl_storage_logs (vr_logs result))"
    "um_protocol_version um' = um_protocol_version um"
proof -
  obtain b where b: "extend_from_executed_transaction P tx result gas metrics bytecodes traces (um_l2_block um) = Some b"
    and um': "um' = um\<lparr>um_storage_writes_deduplicator :=
          dedup_apply (um_storage_writes_deduplicator um) (vl_storage_logs (vr_logs result)), um_l2_block := b\<rparr>"
    using assms by (auto simp: um_extend_from_executed_transaction_def)
  obtain size where "bootloader_encoding_size (kp_vm P) (kp_rlp_val_at P) tx = Some size"
    "length (bu_executed_transactions b) = length (bu_executed_transactions (um_l2_block um)) + 1"
    "bu_l1_gas_count b = gas_count_add (bu_l1_gas_count (um_l2_block um)) gas"
    "bu_block_execution_metrics b = vm_metrics_add (bu_block_execution_metrics (um_l2_block um)) metrics"
    "bu_txs_encoding_size b = bu_txs_encoding_size (um_l2_block um) + size"
    using b by (auto simp: extend_from_executed_transaction_def Let_def bind_eq_Some_conv)
  then show ?thesis
    by (intro that [of size]) (simp_all add: um' pending_defs gas_count_add_assoc add.assoc)
qed

text \<open>A transaction whose announced length is the one of its encoding is accepted only if the batch stays
  within its limits.\<close>

lemma accept_keeps_limits:
  assumes "process_one_tx (should_seal_l1_batch hw (sequencer_sealer_new config)) tx exec_result um = Some (r, um1)"
    "r = NoSeal \<or> r = IncludeAndSeal"
    "exec_result = Success result (gas, metrics) bytecodes traces remaining"
    "um_extend_from_executed_transaction P tx result bytecodes gas metrics calls um1 = Some um'"
    "bootloader_encoding_size (kp_vm P) (kp_rlp_val_at P) tx = tx_encoding_len tx"
  shows "within_limits hw config um'" "pending_executed_transactions_len um' = pending_executed_transactions_len um + 1"
    "r = NoSeal \<Longrightarrow> pending_executed_transactions_len um' < transaction_slots config"
proof -
  obtain result' gas' metrics' bytecodes' traces' remaining' len b t where
    e: "exec_result = Success result' (gas', metrics') bytecodes' traces' remaining'"
    and one': "tx_encoding_len tx = Some len"
    "should_seal_l1_batch hw (sequencer_sealer_new config) (pending_executed_transactions_len um + 1) b t
       (um_protocol_version um) = Some r"
    "sd_execution_metrics b = vm_metrics_add metrics' (pending_execution_metrics um)"
    "sd_gas_count b = gas_count_add (gas_count_add gas' (gas_count_from_writes (sd_writes_metrics b) (um_protocol_version um)))
       (pending_l1_gas_count um)"
    "sd_cumulative_size b = len + pending_txs_encoding_size um"
    "apply_and_rollback (um_storage_writes_deduplicator um) (vl_storage_logs (vr_logs result')) =
       Some (sd_writes_metrics b, um_storage_writes_deduplicator um1)"
    "um1 = um\<lparr>um_storage_writes_deduplicator := um_storage_writes_deduplicator um1\<rparr>"
    by (rule process_one_tx_accepts [OF assms(1,2)])
  have "result' = result" "gas' = gas" "metrics' = metrics" using e assms(3) by simp_all
  note one = one' [unfolded this]
  have pending1: "pending_executed_transactions_len um1 = pending_executed_transactions_len um"
    "pending_l1_gas_count um1 = pending_l1_gas_count um" "pending_txs_encoding_size um1 = pending_txs_encoding_size um"
    "pending_execution_metrics um1 = pending_execution_metrics um" "um_protocol_version um1 = um_protocol_version um"
    by (subst one(7), simp add: pending_defs)+
  obtain size where ext: "bootloader_encoding_size (kp_vm P) (kp_rlp_val_at P) tx = Some size"
    "pending_executed_transactions_len um' = pending_executed_transactions_len um1 + 1"
    "pending_l1_gas_count um' = gas_count_add (pending_l1_gas_count um1) gas"
    "pending_txs_encoding_size um' = pending_txs_encoding_size um1 + size"
    "vm_metrics_size (pending_execution_metrics um') = vm_metrics_size (pending_execution_metrics um1) + vm_metrics_size metrics"
    "um_storage_writes_deduplicator um' =
       dedup_apply (um_storage_writes_deduplicator um1) (vl_storage_logs (vr_logs result))"
    "um_protocol_version um' = um_protocol_version um1"
    by (rule um_extend_pending [OF assms(4)])
  have writes: "dedup_metrics (um_storage_writes_deduplicator um') = sd_writes_metrics b"
    unfolding ext(6) by (rule apply_after_rollback [OF one(6)])
  have gas: "gas_count_add (pending_l1_gas_count um') (gas_count_from_writes (sd_writes_metrics b) (um_protocol_version um))
      = sd_gas_count b"
    unfolding ext(3) pending1 one(4) by (metis gas_count_add_assoc gas_count_add_commute)
  have enc: "pending_txs_encoding_size um' = sd_cumulative_size b"
    using assms(5) ext(1) one(1) by (simp add: ext(4) pending1 one(5))
  have size: "vm_metrics_size (pending_execution_metrics um') = vm_metrics_size (sd_execution_metrics b)"
    by (simp add: ext(5) pending1 one(3))
  note limits = accepted_within_limits [OF one(2) assms(2)]
  show "within_limits hw config um'"
    unfolding within_limits_def Let_def writes ext(7) pending1 gas enc size
    using limits(1,3-5) by blast
  show "pending_executed_transactions_len um' = pending_executed_transactions_len um + 1"
    by (simp add: ext(2) pending1)
  then show "r = NoSeal \<Longrightarrow> pending_executed_transactions_len um' < transaction_slots config"
    using limits(2) by simp
qed

text \<open>The invariant of a running batch, and what remains of it when the batch is closed, for a bound on the
  number of transactions.\<close>

definition batch_running :: "nat \<Rightarrow> StateKeeperConfig \<Rightarrow> nat \<Rightarrow> 'c UpdatesManager \<Rightarrow> bool" where
  "batch_running hw config n um \<longleftrightarrow> pending_executed_transactions_len um = 0 \<or>
     within_limits hw config um \<and> pending_executed_transactions_len um < n"

definition batch_closed :: "nat \<Rightarrow> StateKeeperConfig \<Rightarrow> nat \<Rightarrow> 'c UpdatesManager \<Rightarrow> bool" where
  "batch_closed hw config n um \<longleftrightarrow> pending_executed_transactions_len um = 0 \<or>
     within_limits hw config um \<and> pending_executed_transactions_len um \<le> n"

lemma batch_running_closed: "batch_running hw config n um \<Longrightarrow> batch_closed hw config n um"
  by (auto simp: batch_running_def batch_closed_def)

definition exact_encoding :: "KeeperParams \<Rightarrow> 'c iteration_input \<Rightarrow> bool" where
  "exact_encoding P i \<longleftrightarrow>
     (\<forall>tx. in_next_tx i = Some (Some tx) \<longrightarrow> bootloader_encoding_size (kp_vm P) (kp_rlp_val_at P) tx = tx_encoding_len tx)"

lemma seal_and_start_running:
  "seal_and_start_l2_block P i st = (err, st') \<Longrightarrow>
   batch_running hw config n (fst st') \<longleftrightarrow> batch_running hw config n (fst st)"
  by (cases st) (auto simp: seal_and_start_l2_block_def start_next_l2_block_def Let_def batch_running_def split: if_splits sum.splits)

lemma process_one_tx_state:
  assumes "process_one_tx resolve tx exec_result um = Some (r, um1)"
  shows "\<exists>dedup. um1 = um\<lparr>um_storage_writes_deduplicator := dedup\<rparr> \<and>
    dedup_metrics dedup = dedup_metrics (um_storage_writes_deduplicator um)"
proof (cases exec_result)
  case (Success result tx_metrics bytecodes traces remaining)
  obtain m dedup where "apply_and_rollback (um_storage_writes_deduplicator um) (vl_storage_logs (vr_logs result)) = Some (m, dedup)"
    "um1 = um\<lparr>um_storage_writes_deduplicator := dedup\<rparr>"
    using assms by (cases tx_metrics) (auto simp: process_one_tx_def Success Let_def bind_eq_Some_conv)
  then show ?thesis
    by (intro exI [of _ dedup]) (auto dest!: apply_and_rollback_state(1))
qed (use assms in \<open>auto simp: process_one_tx_def Let_def split: if_splits intro!: exI [of _ "um_storage_writes_deduplicator um"]\<close>)

lemma process_one_tx_running:
  assumes "process_one_tx resolve tx exec_result um = Some (r, um1)"
  shows "batch_running hw config n um1 \<longleftrightarrow> batch_running hw config n um"
  using process_one_tx_state [OF assms] by (auto simp: batch_running_def within_limits_def pending_defs)

lemma apply_resolution_keeps:
  assumes "apply_resolution P i tx exec_result r (um1, calls) = Some (status, um', calls')"
    "process_one_tx (should_seal_l1_batch hw (sequencer_sealer_new config)) tx exec_result um = Some (r, um1)"
    "bootloader_encoding_size (kp_vm P) (kp_rlp_val_at P) tx = tx_encoding_len tx" "batch_running hw config n um"
    "max 1 (transaction_slots config) \<le> n"
  shows "if status = Running then batch_running hw config n um' else batch_closed hw config n um'"
proof (cases "r = NoSeal \<or> r = IncludeAndSeal")
  case True
  obtain result gas metrics bytecodes traces remaining where e:
    "exec_result = Success result (gas, metrics) bytecodes traces remaining"
    by (rule process_one_tx_accepts [OF assms(2) True])
  have um': "um_extend_from_executed_transaction P tx result bytecodes gas metrics traces um1 = Some um'"
    "status = (if resolution_should_seal r then BatchSealed else Running)"
    using assms(1) True by (auto simp: apply_resolution_def Let_def e)
  note keeps = accept_keeps_limits [OF assms(2) True e um'(1) assms(3)]
  show ?thesis
  proof (cases "r = NoSeal")
    case True
    then show ?thesis
      using keeps um'(2) assms(5) by (auto simp: batch_running_def)
  next
    case False
    have "pending_executed_transactions_len um < n"
      using assms(4,5) by (auto simp: batch_running_def)
    then show ?thesis
      using keeps(1,2) um'(2) True False by (auto simp: batch_closed_def)
  qed
next
  case False
  then have "um' = um1"
    using assms(1) by (auto simp: apply_resolution_def Let_def split: SealResolution.splits if_splits)
  then have "batch_running hw config n um'"
    using assms(4) process_one_tx_running [OF assms(2)] by simp
  then show ?thesis by (simp add: batch_running_closed)
qed

text \<open>The rule for the loop: an invariant of the running batch, and what holds when the loop is left.\<close>

lemma process_iteration_rule:
  assumes "process_iteration P resolve config i st = Some (status, st')" "Inv st"
    "\<And>status st. Inv st \<Longrightarrow> Final status st"
    "\<And>err st'. seal_and_start_l2_block P i st = (err, st') \<Longrightarrow>
       case err of None \<Rightarrow> Inv st' | Some e \<Rightarrow> Final (Stopped e) st'"
    "\<And>st status st'. Inv st \<Longrightarrow> execute_next_tx P resolve i st = Some (status, st') \<Longrightarrow>
       if status = Running then Inv st' else Final status st'"
  shows "if status = Running then Inv st' else Final status st'"
proof (cases "should_seal_l1_batch_unconditionally config (in_now_batch i) (fst st)")
  case False
  show ?thesis
  proof (cases "io_should_seal_l2_block config (in_now_block i) (fst st)")
    case True
    obtain err st1 where block: "seal_and_start_l2_block P i st = (err, st1)" by (rule prod.exhaust)
    show ?thesis
    proof (cases err)
      case None
      with assms(4) [OF block] have "Inv st1" by simp
      from assms(5) [OF this] show ?thesis
        using assms(1) False True by (simp add: process_iteration_def block None)
    next
      case (Some e)
      then show ?thesis
        using assms(1) assms(4) [OF block] False True by (auto simp: process_iteration_def block)
    qed
  qed (use assms(1) assms(5) [OF assms(2)] False in \<open>simp add: process_iteration_def\<close>)
qed (use assms(1) assms(3) [OF assms(2)] in \<open>auto simp: process_iteration_def\<close>)

lemma process_l1_batch_loop_rule:
  assumes "process_l1_batch_loop P resolve config inputs st = Some (status, st')" "Inv st"
    "\<And>status st. Inv st \<Longrightarrow> Final status st"
    "\<And>i st err st'. i \<in> set inputs \<Longrightarrow> Inv st \<Longrightarrow> seal_and_start_l2_block P i st = (err, st') \<Longrightarrow>
       case err of None \<Rightarrow> Inv st' | Some e \<Rightarrow> Final (Stopped e) st'"
    "\<And>i st status st'. i \<in> set inputs \<Longrightarrow> Inv st \<Longrightarrow> execute_next_tx P resolve i st = Some (status, st') \<Longrightarrow>
       if status = Running then Inv st' else Final status st'"
  shows "Final status st'"
  using assms(1,2,4,5)
proof (induction inputs arbitrary: st)
  case Nil
  then show ?case using assms(3) by simp
next
  case (Cons i inputs)
  show ?case
  proof (cases "in_canceled i")
    case True
    then show ?thesis using Cons.prems(1,2) assms(3) by auto
  next
    case False
    obtain status1 st1 where one: "process_iteration P resolve config i st = Some (status1, st1)"
      and rest: "(if status1 = Running then process_l1_batch_loop P resolve config inputs st1 else Some (status1, st1))
        = Some (status, st')"
      using Cons.prems(1) False by (auto simp: bind_eq_Some_conv)
    have step: "if status1 = Running then Inv st1 else Final status1 st1"
    proof (rule process_iteration_rule [OF one, where Inv = Inv and Final = Final])
      show "Inv st" by (rule Cons.prems(2))
      show "Final status st" if "Inv st" for status st using that by (rule assms(3))
      show "case err of None \<Rightarrow> Inv st' | Some e \<Rightarrow> Final (Stopped e) st'"
        if "seal_and_start_l2_block P i st = (err, st')" for err st'
        by (rule Cons.prems(3) [OF _ Cons.prems(2) that]) simp
      show "if status = Running then Inv st' else Final status st'"
        if "Inv st" "execute_next_tx P resolve i st = Some (status, st')" for st status st'
        by (rule Cons.prems(4) [OF _ that]) simp
    qed
    show ?thesis
    proof (cases "status1 = Running")
      case True
      then have "process_l1_batch_loop P resolve config inputs st1 = Some (status, st')" "Inv st1"
        using step rest by simp_all
      then show ?thesis
      proof (rule Cons.IH)
        show "case err of None \<Rightarrow> Inv st' | Some e \<Rightarrow> Final (Stopped e) st'"
          if "i \<in> set inputs" "Inv st" "seal_and_start_l2_block P i st = (err, st')" for i st err st'
          by (rule Cons.prems(3) [OF _ that(2,3)]) (simp add: that(1))
        show "if status = Running then Inv st' else Final status st'"
          if "i \<in> set inputs" "Inv st" "execute_next_tx P resolve i st = Some (status, st')" for i st status st'
          by (rule Cons.prems(4) [OF _ that(2,3)]) (simp add: that(1))
      qed
    qed (use step rest in auto)
  qed
qed

lemma execute_next_tx_keeps:
  assumes "execute_next_tx P (should_seal_l1_batch hw (sequencer_sealer_new config)) i st = Some (status, st')"
    "exact_encoding P i" "batch_running hw config n (fst st)" "max 1 (transaction_slots config) \<le> n"
  shows "if status = Running then batch_running hw config n (fst st') else batch_closed hw config n (fst st')"
proof (cases "\<exists>tx exec_result. in_next_tx i = Some (Some tx) \<and> in_exec_result i = Some exec_result")
  case True
  then obtain tx exec_result where tx: "in_next_tx i = Some (Some tx)" "in_exec_result i = Some exec_result" by blast
  obtain r um1 um' calls' where "process_one_tx (should_seal_l1_batch hw (sequencer_sealer_new config)) tx exec_result (fst st) = Some (r, um1)"
    "apply_resolution P i tx exec_result r (um1, snd st @ [ExecuteTx tx (Some exec_result)]) = Some (status, um', calls')" "st' = (um', calls')"
    using assms(1) by (cases st') (auto simp: execute_next_tx_def tx bind_eq_Some_conv)
  then show ?thesis
    using apply_resolution_keeps assms(2-4) tx(1) unfolding exact_encoding_def by fastforce
next
  case False
  then have "fst st' = fst st"
    using assms(1) by (auto simp: execute_next_tx_def split: option.splits)
  then show ?thesis using assms(3) by (simp add: batch_running_closed)
qed

lemma process_l1_batch_loop_limits:
  assumes "process_l1_batch_loop P (should_seal_l1_batch hw (sequencer_sealer_new config)) config inputs st = Some (status, st')"
    "\<forall>i \<in> set inputs. exact_encoding P i" "batch_running hw config n (fst st)"
    "max 1 (transaction_slots config) \<le> n"
  shows "batch_closed hw config n (fst st')"
proof (rule process_l1_batch_loop_rule [OF assms(1), where Inv = "\<lambda>st. batch_running hw config n (fst st)" and
    Final = "\<lambda>_ st. batch_closed hw config n (fst st)"])
  show "batch_running hw config n (fst st)" by (rule assms(3))
  show "batch_closed hw config n (fst st)" if "batch_running hw config n (fst st)" for st :: "'a keeper_state"
    using that by (rule batch_running_closed)
  show "case err of None \<Rightarrow> batch_running hw config n (fst st') | Some e \<Rightarrow> batch_closed hw config n (fst st')"
    if "batch_running hw config n (fst st)" "seal_and_start_l2_block P i st = (err, st')"
    for i err and st st' :: "'a keeper_state"
    using seal_and_start_running [OF that(2)] that(1) by (simp add: batch_running_closed split: option.split)
  show "if status = Running then batch_running hw config n (fst st') else batch_closed hw config n (fst st')"
    if "i \<in> set inputs" "batch_running hw config n (fst st)"
      "execute_next_tx P (should_seal_l1_batch hw (sequencer_sealer_new config)) i st = Some (status, st')"
    for i status and st st' :: "'a keeper_state"
    using that assms(2,4) by (intro execute_next_tx_keeps) auto
qed

text \<open>The upgrade transaction: it is accepted, or the state keeper stops and nothing was accepted.\<close>

lemma process_upgrade_tx_accepts:
  assumes "process_upgrade_tx P resolve tx exec_result st = Some (None, st')"
  obtains result gas metrics bytecodes traces remaining r um1 where
    "exec_result = Some (Success result (gas, metrics) bytecodes traces remaining)"
    "process_one_tx resolve tx (Success result (gas, metrics) bytecodes traces remaining) (fst st) = Some (r, um1)"
    "r = NoSeal \<or> r = IncludeAndSeal" "pending_executed_transactions_len (fst st) = 0"
    "um_extend_from_executed_transaction P tx result bytecodes gas metrics [] um1 = Some (fst st')"
    "snd st' = snd st @ [ExecuteTx tx exec_result]"
  using assms
  by (auto simp: process_upgrade_tx_def Let_def bind_eq_Some_conv split: if_splits option.splits TxExecutionResult.splits)

lemma process_upgrade_tx_stops:
  assumes "process_upgrade_tx P resolve tx exec_result st = Some (Some e, st')"
  shows "pending_executed_transactions_len (fst st') = 0"
proof -
  have "pending_executed_transactions_len (fst st) = 0" "fst st' = fst st \<or>
      (\<exists>x r. process_one_tx resolve tx x (fst st) = Some (r, fst st'))"
    using assms
    by (auto simp: process_upgrade_tx_def Let_def bind_eq_Some_conv split: if_splits option.splits TxExecutionResult.splits)
  then show ?thesis
    by (auto dest!: process_one_tx_state simp: pending_defs)
qed

lemma process_l1_batch_limits:
  assumes "process_l1_batch P (should_seal_l1_batch hw (sequencer_sealer_new config)) config upgrade inputs st = Some (status, st')"
    "\<forall>i \<in> set inputs. exact_encoding P i" "pending_executed_transactions_len (fst st) = 0"
    "\<forall>tx x. upgrade = Some (tx, x) \<longrightarrow> bootloader_encoding_size (kp_vm P) (kp_rlp_val_at P) tx = tx_encoding_len tx"
    "n = max (if upgrade = None then 1 else 2) (transaction_slots config)"
  shows "batch_closed hw config n (fst st')"
proof (cases upgrade)
  case None
  then show ?thesis
    using assms process_l1_batch_loop_limits [of P hw config inputs st status st' n]
    by (simp add: process_l1_batch_def batch_running_def)
next
  case (Some u)
  obtain tx x where u: "u = (tx, x)" by (rule prod.exhaust)
  let ?resolve = "should_seal_l1_batch hw (sequencer_sealer_new config)"
  obtain err st1 where up: "process_upgrade_tx P ?resolve tx x st = Some (err, st1)"
    and rest: "(case err of Some e \<Rightarrow> Some (Stopped e, st1) | None \<Rightarrow> process_l1_batch_loop P ?resolve config inputs st1)
      = Some (status, st')"
    using assms(1) by (auto simp: process_l1_batch_def Some u bind_eq_Some_conv)
  have slots: "max 1 (transaction_slots config) \<le> n" using assms(5) by auto
  show ?thesis
  proof (cases err)
    case None
    obtain result gas metrics bytecodes traces remaining r um1 where
      one: "process_one_tx ?resolve tx (Success result (gas, metrics) bytecodes traces remaining) (fst st) = Some (r, um1)"
        "r = NoSeal \<or> r = IncludeAndSeal"
      and ext: "um_extend_from_executed_transaction P tx result bytecodes gas metrics [] um1 = Some (fst st1)"
      by (rule process_upgrade_tx_accepts [OF up [unfolded None]])
    have "bootloader_encoding_size (kp_vm P) (kp_rlp_val_at P) tx = tx_encoding_len tx"
      using assms(4) Some u by simp
    note keeps = accept_keeps_limits [OF one refl ext this]
    have "batch_running hw config n (fst st1)"
      using keeps(1,2) assms(3,5) Some by (auto simp: batch_running_def)
    then show ?thesis
      using process_l1_batch_loop_limits [OF rest [unfolded None option.case] assms(2)] slots by blast
  next
    case (Some e)
    then show ?thesis
      using rest process_upgrade_tx_stops [OF up [unfolded Some]] by (simp add: batch_closed_def)
  qed
qed

text \<open>An invariant of the pair of state keeper and executor: it is kept when a transaction is accepted, when
  one is executed and rolled back, and when the next L2 block is opened. It holds whenever the loop is running or the
  batch is closed.\<close>

locale batch_invariant =
  fixes P :: KeeperParams and Inv :: "'c keeper_state \<Rightarrow> bool"
  assumes next_block: "Inv st \<Longrightarrow> seal_and_start_l2_block P i st = (None, st') \<Longrightarrow> Inv st'"
    and accept: "Inv (um, calls) \<Longrightarrow>
      um_extend_from_executed_transaction P tx result bytecodes gas metrics traces (um\<lparr>um_storage_writes_deduplicator := d\<rparr>) = Some um' \<Longrightarrow>
      Inv (um', calls @ [ExecuteTx tx (Some (Success result (gas, metrics) bytecodes traces remaining))])"
    and undo: "Inv (um, calls) \<Longrightarrow> c = IoRollback tx \<or> (\<exists>reason. c = IoReject tx reason) \<Longrightarrow>
      Inv (um\<lparr>um_storage_writes_deduplicator := d\<rparr>, ((calls @ [ExecuteTx tx answer]) @ [RollbackLastTx]) @ [c])"
begin

lemma apply_resolution_inv:
  assumes "apply_resolution P i tx exec_result r (um\<lparr>um_storage_writes_deduplicator := d\<rparr>, calls @ [ExecuteTx tx (Some exec_result)])
      = Some (status, st')" "Inv (um, calls)" "\<forall>e. status \<noteq> Stopped e"
  shows "Inv st'"
proof (cases "r = NoSeal \<or> r = IncludeAndSeal")
  case True
  then obtain result gas metrics bytecodes traces remaining um' where
    "um_extend_from_executed_transaction P tx result bytecodes gas metrics traces (um\<lparr>um_storage_writes_deduplicator := d\<rparr>) = Some um'"
    "exec_result = Success result (gas, metrics) bytecodes traces remaining" "st' = (um', calls @ [ExecuteTx tx (Some exec_result)])"
    using assms(1) by (auto simp: apply_resolution_def Let_def split: TxExecutionResult.splits)
  with accept [OF assms(2)] show ?thesis by simp
next
  case False
  then obtain c where "st' = (um\<lparr>um_storage_writes_deduplicator := d\<rparr>, ((calls @ [ExecuteTx tx (Some exec_result)]) @ [RollbackLastTx]) @ [c])"
    "c = IoRollback tx \<or> (\<exists>reason. c = IoReject tx reason)"
    using assms(1,3) by (auto simp: apply_resolution_def Let_def split: SealResolution.splits if_splits)
  with undo [OF assms(2)] show ?thesis by simp
qed

lemma execute_next_tx_inv:
  assumes "execute_next_tx P resolve i st = Some (status, st')" "Inv st" "\<forall>e. status \<noteq> Stopped e"
  shows "Inv st'"
proof (cases "\<exists>tx exec_result. in_next_tx i = Some (Some tx) \<and> in_exec_result i = Some exec_result")
  case True
  then obtain tx exec_result where tx: "in_next_tx i = Some (Some tx)" "in_exec_result i = Some exec_result" by blast
  obtain r um1 where one: "process_one_tx resolve tx exec_result (fst st) = Some (r, um1)"
    and res: "apply_resolution P i tx exec_result r (um1, snd st @ [ExecuteTx tx (Some exec_result)]) = Some (status, st')"
    using assms(1) by (auto simp: execute_next_tx_def tx bind_eq_Some_conv)
  from process_one_tx_state [OF one] obtain d where "um1 = (fst st)\<lparr>um_storage_writes_deduplicator := d\<rparr>" by blast
  from apply_resolution_inv [OF res [unfolded this]] assms(2,3) show ?thesis by simp
next
  case False
  then show ?thesis
    using assms by (auto simp: execute_next_tx_def split: option.splits)
qed

lemma loop_inv:
  assumes "process_l1_batch_loop P resolve config inputs st = Some (status, st')" "Inv st" "\<forall>e. status \<noteq> Stopped e"
  shows "Inv st'"
proof -
  have "(\<forall>e. status \<noteq> Stopped e) \<longrightarrow> Inv st'"
  proof (rule process_l1_batch_loop_rule [OF assms(1), where Inv = Inv and
        Final = "\<lambda>status st. (\<forall>e. status \<noteq> Stopped e) \<longrightarrow> Inv st"])
    show "Inv st" by (rule assms(2))
    show "case err of None \<Rightarrow> Inv st' | Some e \<Rightarrow> (\<forall>e'. Stopped e \<noteq> Stopped e') \<longrightarrow> Inv st'"
      if "Inv st" "seal_and_start_l2_block P i st = (err, st')" for i err st st'
      using that by (auto split: option.split intro: next_block)
    show "if status = Running then Inv st' else (\<forall>e. status \<noteq> Stopped e) \<longrightarrow> Inv st'"
      if "Inv st" "execute_next_tx P resolve i st = Some (status, st')" for i status st st'
      using execute_next_tx_inv [OF that(2,1)] by auto
  qed simp
  then show ?thesis using assms(3) by blast
qed

end

section \<open>L2 blocks and the executor\<close>

text \<open>The L2 blocks handed to the output handler, and the transactions the executor has executed and not
  rolled back.\<close>

fun sealed_blocks :: "'c keeper_call list \<Rightarrow> 'c L2BlockUpdates list" where
  "sealed_blocks [] = []"
| "sealed_blocks (SealL2Block b # calls) = b # sealed_blocks calls"
| "sealed_blocks (_ # calls) = sealed_blocks calls"

definition executor_step ::
    "'c keeper_call \<Rightarrow> (Transaction \<times> 'c TxExecutionResult option) list \<Rightarrow> (Transaction \<times> 'c TxExecutionResult option) list" where
  "executor_step call log =
     (case call of ExecuteTx tx answer \<Rightarrow> log @ [(tx, answer)] | RollbackLastTx \<Rightarrow> butlast log | _ \<Rightarrow> log)"

definition executor_log :: "'c keeper_call list \<Rightarrow> (Transaction \<times> 'c TxExecutionResult option) list" where
  "executor_log calls = fold executor_step calls []"

definition executor_txs :: "'c keeper_call list \<Rightarrow> Transaction list" where
  "executor_txs calls = map fst (executor_log calls)"

lemma sealed_blocks_append [simp]: "sealed_blocks (xs @ ys) = sealed_blocks xs @ sealed_blocks ys"
  by (induction xs rule: sealed_blocks.induct) auto

lemma map_filter_append: "List.map_filter f (xs @ ys) = List.map_filter f xs @ List.map_filter f ys"
  by (simp add: List.map_filter_def)

lemma executor_log_Nil [simp]: "executor_log [] = []"
  by (simp add: executor_log_def)

lemma executor_log_snoc [simp]:
  "executor_log (calls @ [ExecuteTx tx answer]) = executor_log calls @ [(tx, answer)]"
  "executor_log (calls @ [RollbackLastTx]) = butlast (executor_log calls)"
  "executor_log (calls @ [SealL2Block b]) = executor_log calls"
  "executor_log (calls @ [StartNextL2Block e]) = executor_log calls"
  "executor_log (calls @ [IoRollback tx]) = executor_log calls"
  "executor_log (calls @ [IoReject tx reason]) = executor_log calls"
  "executor_log (calls @ [FinishBatch]) = executor_log calls"
  "executor_log (calls @ [HandleL1Batch]) = executor_log calls"
  by (simp_all add: executor_log_def executor_step_def)

text \<open>Consecutive blocks are linked by number and hash.\<close>

definition linked :: "KeeperParams \<Rightarrow> 'c L2BlockUpdates \<Rightarrow> 'c L2BlockUpdates \<Rightarrow> bool" where
  "linked P a b \<longleftrightarrow> bu_number b = bu_number a + 1 \<and> bu_prev_block_hash b = updates_l2_block_hash P a"

definition in_sync :: "KeeperParams \<Rightarrow> 'c keeper_state \<Rightarrow> bool" where
  "in_sync P st \<longleftrightarrow>
     (let (um, calls) = st; blocks = sealed_blocks calls @ [um_l2_block um]
      in successively (linked P) blocks \<and>
         lu_executed_transactions (um_l1_batch um) = concat (map bu_executed_transactions (sealed_blocks calls)) \<and>
         lu_priority_ops_onchain_data (um_l1_batch um) =
           List.map_filter (\<lambda>tx. onchain_data_of (ter_transaction tx)) (lu_executed_transactions (um_l1_batch um)) \<and>
         executor_txs calls = map ter_transaction (concat (map bu_executed_transactions blocks)))"

lemma linked_same_header:
  assumes "bu_number b = bu_number b'" "bu_prev_block_hash b = bu_prev_block_hash b'"
  shows "successively (linked P) (bs @ [b]) \<longleftrightarrow> successively (linked P) (bs @ [b'])"
  using assms by (simp add: successively_append_iff linked_def)

lemma seal_and_start_in_sync:
  assumes "seal_and_start_l2_block P i st = (None, st')" "in_sync P st"
  shows "in_sync P st'"
proof -
  obtain um calls where st: "st = (um, calls)" by fastforce
  obtain params where st': "st' = (um_push_l2_block P params um, (calls @ [SealL2Block (um_l2_block um)])
      @ [StartNextL2Block (updates_get_env (um_l2_block (um_push_l2_block P params um)))])"
    using assms(1) by (auto simp: st seal_and_start_l2_block_def start_next_l2_block_def Let_def split: if_splits sum.splits)
  have block: "um_l2_block (um_push_l2_block P params um) = l2_block_updates_new (bp_timestamp params)
      (bu_number (um_l2_block um) + 1) (updates_l2_block_hash P (um_l2_block um)) (bp_virtual_blocks params) (um_protocol_version um)"
    "um_l1_batch (um_push_l2_block P params um) = extend_from_sealed_l2_block (um_l2_block um) (um_l1_batch um)"
    by (simp_all add: um_push_l2_block_def)
  have "linked P (um_l2_block um) (um_l2_block (um_push_l2_block P params um))"
    by (simp add: block linked_def l2_block_updates_new_def)
  then show ?thesis
    using assms(2)
    by (simp add: st st' in_sync_def successively_append_iff executor_txs_def block
        extend_from_sealed_l2_block_def l2_block_updates_new_def map_filter_append del: append_assoc)
qed

lemma um_extend_blocks:
  assumes "um_extend_from_executed_transaction P tx result bytecodes gas metrics traces um = Some um'"
  shows "\<exists>entry. ter_transaction entry = tx \<and>
      bu_executed_transactions (um_l2_block um') = bu_executed_transactions (um_l2_block um) @ [entry]"
    "bu_number (um_l2_block um') = bu_number (um_l2_block um)"
    "bu_prev_block_hash (um_l2_block um') = bu_prev_block_hash (um_l2_block um)"
    "um_l1_batch um' = um_l1_batch um"
  using assms
  by (auto simp: um_extend_from_executed_transaction_def extend_from_executed_transaction_def Let_def bind_eq_Some_conv)

lemma accepted_in_sync:
  assumes "um_extend_from_executed_transaction P tx result bytecodes gas metrics traces um1 = Some um'"
    "um1 = um\<lparr>um_storage_writes_deduplicator := dedup\<rparr>" "in_sync P (um, calls)"
  shows "in_sync P (um', calls @ [ExecuteTx tx answer])"
proof -
  note ext = um_extend_blocks [OF assms(1)]
  from ext(1) obtain entry where "ter_transaction entry = tx"
    "bu_executed_transactions (um_l2_block um') = bu_executed_transactions (um_l2_block um) @ [entry]"
    using assms(2) by auto
  moreover have "successively (linked P) (sealed_blocks calls @ [um_l2_block um'])
      \<longleftrightarrow> successively (linked P) (sealed_blocks calls @ [um_l2_block um])"
    by (rule linked_same_header) (simp_all add: ext(2,3) assms(2))
  ultimately show ?thesis
    using assms(3) ext(4) by (simp add: in_sync_def executor_txs_def assms(2))
qed

interpretation sync: batch_invariant P "in_sync P" for P
proof
  show "in_sync P st'" if "in_sync P st" "seal_and_start_l2_block P i st = (None, st')" for st st' :: "'a keeper_state" and i
    by (rule seal_and_start_in_sync [OF that(2,1)])
  show "in_sync P (um', calls @ [ExecuteTx tx (Some (Success result (gas, metrics) bytecodes traces remaining))])"
    if "in_sync P (um, calls)"
      "um_extend_from_executed_transaction P tx result bytecodes gas metrics traces (um\<lparr>um_storage_writes_deduplicator := d\<rparr>) = Some um'"
    for um um' and calls :: "'a keeper_call list" and tx result bytecodes gas metrics traces d remaining
    by (rule accepted_in_sync [OF that(2) refl that(1)])
  show "in_sync P (um\<lparr>um_storage_writes_deduplicator := d\<rparr>, ((calls @ [ExecuteTx tx answer]) @ [RollbackLastTx]) @ [c])"
    if "in_sync P (um, calls)" "c = IoRollback tx \<or> (\<exists>reason. c = IoReject tx reason)"
    for um and calls :: "'a keeper_call list" and tx answer c d
    using that by (auto simp: in_sync_def executor_txs_def simp del: append_assoc)
qed

lemma process_l1_batch_in_sync:
  assumes "process_l1_batch P resolve config upgrade inputs st = Some (status, st')" "in_sync P st"
    "\<forall>e. status \<noteq> Stopped e"
  shows "in_sync P st'"
proof (cases upgrade)
  case None
  then show ?thesis
    using assms sync.loop_inv by (simp add: process_l1_batch_def)
next
  case (Some u)
  obtain tx x where u: "u = (tx, x)" by (rule prod.exhaust)
  obtain err st1 where upgrade: "process_upgrade_tx P resolve tx x st = Some (err, st1)"
    and loop: "(case err of Some e \<Rightarrow> Some (Stopped e, st1) | None \<Rightarrow> process_l1_batch_loop P resolve config inputs st1)
      = Some (status, st')"
    using assms(1) by (auto simp: process_l1_batch_def Some u bind_eq_Some_conv)
  have "err = None" using loop assms(3) by (cases err) auto
  note up = upgrade [unfolded this] and rest = loop [unfolded this, simplified]
  obtain result gas metrics bytecodes traces remaining r um1 where
    one: "process_one_tx resolve tx (Success result (gas, metrics) bytecodes traces remaining) (fst st) = Some (r, um1)"
    and ext: "um_extend_from_executed_transaction P tx result bytecodes gas metrics [] um1 = Some (fst st1)"
      "snd st1 = snd st @ [ExecuteTx tx x]"
    by (rule process_upgrade_tx_accepts [OF up])
  obtain dedup where "um1 = (fst st)\<lparr>um_storage_writes_deduplicator := dedup\<rparr>"
    using process_one_tx_state [OF one] by blast
  from accepted_in_sync [OF ext(1) this, of "snd st" x] assms(2) have "in_sync P st1"
    by (simp add: ext(2) [symmetric])
  with sync.loop_inv [OF rest] assms(3) show ?thesis by blast
qed

section \<open>Properties\<close>

text \<open>A transaction whose bytecodes can be hashed and whose byte strings are shorter than 4 GiB.\<close>

definition ordinary_tx :: "KeeperParams \<Rightarrow> Transaction \<Rightarrow> bool" where
  "ordinary_tx P tx \<longleftrightarrow>
     (let td = transaction_data_from (kp_rlp_val_at P) tx
      in (\<forall>dep \<in> set (Execute.factory_deps (execute tx)). hash_bytecode (vp_code_hash (kp_vm P)) dep \<noteq> None) \<and>
         length (td_data td) < 2 ^ 32 \<and> length (td_signature td) < 2 ^ 32 \<and>
         length (td_factory_deps td) < 2 ^ 32 \<and> length (td_paymaster_input td) < 2 ^ 32)"

lemma ordinary_tx_exact:
  assumes "abi_length_law (vp_encode (kp_vm P))" "ordinary_tx P tx"
  shows "bootloader_encoding_size (kp_vm P) (kp_rlp_val_at P) tx = tx_encoding_len tx"
  using into_tokens_length [OF assms(1) refl, of tx "vp_code_hash (kp_vm P)" "kp_rlp_val_at P"] assms(2)
  by (auto simp: ordinary_tx_def Let_def bootloader_encoding_size_def)

lemma updates_manager_new_fresh:
  assumes "updates_manager_new env v hashes = Some um"
  shows "pending_executed_transactions_len um = 0" "in_sync P (um, [])"
  using assms
  by (auto simp: updates_manager_new_def pending_executed_transactions_len_def l1_batch_updates_new_def
      l2_block_updates_new_def in_sync_def executor_txs_def)

text \<open>C2. A batch never exceeds the limits that the L1 contracts, the bootloader and the configuration put on it.
  Let the main node process a fresh batch, with or without a protocol upgrade transaction, with an ABI encoder that
  respects the sizes of the contract ABI, whatever the clock, the VM and the I/O layer answer. Whenever and
  however this ends, either no transaction was accepted, or the length of the encodings in the
  bootloader memory, the pubdata including the part reserved for the end of the batch, and the L1 gas
  are within the limits, and so is the number of transactions, except that one transaction is
  always possible, and a second one after an upgrade transaction.\<close>
theorem batch_within_limits:
  assumes "updates_manager_new env v hashes = Some um0" "abi_length_law (vp_encode (kp_vm P))"
    "\<forall>i \<in> set inputs. \<forall>tx. in_next_tx i = Some (Some tx) \<longrightarrow> ordinary_tx P tx"
    "\<forall>tx x. upgrade = Some (tx, x) \<longrightarrow> ordinary_tx P tx"
    "process_l1_batch P (should_seal_l1_batch (kp_heap_words P) (sequencer_sealer_new config)) config upgrade inputs (um0, [])
       = Some (status, um, calls)"
  shows "pending_executed_transactions_len um = 0 \<or>
    within_limits (kp_heap_words P) config um \<and>
    pending_executed_transactions_len um \<le> max (if upgrade = None then 1 else 2) (transaction_slots config)"
proof -
  have "\<forall>i \<in> set inputs. exact_encoding P i"
    using assms(2,3) by (simp add: exact_encoding_def ordinary_tx_exact)
  moreover have "\<forall>tx x. upgrade = Some (tx, x) \<longrightarrow>
      bootloader_encoding_size (kp_vm P) (kp_rlp_val_at P) tx = tx_encoding_len tx"
    using assms(2,4) by (simp add: ordinary_tx_exact)
  ultimately show ?thesis
    using process_l1_batch_limits [OF assms(5) _ _ _ refl] updates_manager_new_fresh(1) [OF assms(1)]
    by (simp add: batch_closed_def)
qed

text \<open>C4. The state keeper and the batch executor agree. While a batch is being processed and when it is
  closed, the transactions that the executor has executed and not rolled back are exactly those of the
  L2 blocks of the batch, in order; the sealed L2 blocks and the open one have consecutive numbers, and
  each refers to the hash of the one before.\<close>
theorem batch_in_sync:
  assumes "updates_manager_new env v hashes = Some um0"
    "process_l1_batch P resolve config upgrade inputs (um0, []) = Some (status, um, calls)"
    "status = Running \<or> status = BatchSealed" "blocks = sealed_blocks calls @ [um_l2_block um]"
  shows "executor_txs calls = map ter_transaction (concat (map bu_executed_transactions blocks)) \<and>
    pending_executed_transactions_len um = length (executor_txs calls) \<and>
    successively (\<lambda>a b. bu_number b = bu_number a + 1 \<and> bu_prev_block_hash b = updates_l2_block_hash P a) blocks"
proof -
  have "in_sync P (um, calls)"
    using process_l1_batch_in_sync [OF assms(2) updates_manager_new_fresh(2) [OF assms(1)]] assms(3) by auto
  then show ?thesis
    using assms(4) by (simp add: in_sync_def pending_executed_transactions_len_def linked_def [abs_def])
qed

text \<open>A run of two iterations: a transaction is accepted, then the deadline of the batch has passed.\<close>

definition batch_tx :: Transaction where
  "batch_tx = \<lparr>
     common_data = L2 \<lparr>l2_nonce = 5,
       l2_fee = \<lparr>gas_limit = 100000, max_fee_per_gas = 7, max_priority_fee_per_gas = 0, gas_per_pubdata_limit = 800\<rparr>,
       initiator_address = 3, signature = [], transaction_type = EIP712Transaction,
       input = Some \<lparr>input_hash = 77, input_bytes = []\<rparr>,
       paymaster_params = \<lparr>paymaster = 4, paymaster_input = []\<rparr>\<rparr>,
     execute = \<lparr>contract_address = 9, calldata = [], execute_value = 11, factory_deps = []\<rparr>,
     received_timestamp_ms = 0, raw_bytes = None\<rparr>"

definition keeper_example :: KeeperParams where
  "keeper_example =
     \<lparr>kp_vm = \<lparr>vp_keccak256 = \<lambda>_. 0, vp_code_hash = \<lambda>_. Some 7, vp_encode = abi_spec, vp_request_hash = \<lambda>_ _. Some 1\<rparr>,
      kp_rlp_val_at = \<lambda>_ _. None, kp_decode_bytes = \<lambda>_. None, kp_hex = \<lambda>_. [], kp_payload_len = \<lambda>_. 100,
      kp_heap_words = 0\<rparr>"

definition example_result :: VmExecutionResultAndLogs where
  "example_result =
     \<lparr>vr_result = ExecSuccess [],
      vr_logs = \<lparr>vl_storage_logs = [], vl_events = [], vl_user_l2_to_l1_logs = [], vl_system_l2_to_l1_logs = [],
        vl_total_log_queries_count = 0\<rparr>,
      vr_statistics = \<lparr>vs_contracts_used = 0, vs_cycles_used = 0, vs_gas_used = 0, vs_gas_remaining = 0,
        vs_computational_gas_used = 0, vs_total_log_queries = 0, vs_pubdata_published = 0,
        vs_circuit_statistic = circuit_default\<rparr>,
      vr_refunds = \<lparr>gas_refunded = 0, operator_suggested_refund = 0\<rparr>\<rparr>"

abbreviation example_execution :: "unit TxExecutionResult" where
  "example_execution \<equiv> Success example_result (gas_count_default, vm_metrics_default) [] [] 1000000000"

definition example_input :: "128 word \<Rightarrow> unit iteration_input" where
  "example_input now =
     \<lparr>in_canceled = False, in_now_batch = now, in_now_block = now, in_l2_block_handled = True,
      in_l2_block_params = Inr \<lparr>bp_timestamp = 2, bp_virtual_blocks = 1\<rparr>, in_l2_block_started = True, in_next_tx = Some (Some batch_tx),
      in_exec_result = Some example_execution,
      in_executor_rolled_back = True, in_io_done = True\<rparr>"

definition example_env :: L1BatchEnv where
  "example_env =
     \<lparr>previous_batch_hash = None, l1_batch_number = 1, l1_batch_timestamp = 0,
      fee_input = L1Pegged \<lparr>pegged_fair_l2_gas_price = 0, pegged_l1_gas_price = 0\<rparr>, fee_account = 0,
      enforced_base_fee = Some 100,
      first_l2_block = \<lparr>l2_block_env_number = 1, l2_block_env_timestamp = 0, l2_block_env_prev_block_hash = 0,
        l2_block_env_max_virtual_blocks_to_create = 1\<rparr>\<rparr>"

definition example_manager :: "unit UpdatesManager" where
  "example_manager =
     \<lparr>um_batch_timestamp = 0, um_fee_account_address = 0, um_batch_fee_input = fee_input example_env,
      um_base_fee_per_gas = 100, um_base_system_contract_hashes = (0, 0), um_protocol_version = Version24,
      um_storage_view_cache = None, um_l1_batch = l1_batch_updates_new 1,
      um_l2_block = l2_block_updates_new 0 1 0 1 Version24, um_storage_writes_deduplicator = dedup_new\<rparr>"

abbreviation example_sealer :: sealer where
  "example_sealer \<equiv> should_seal_l1_batch (kp_heap_words keeper_example) (sequencer_sealer_new full_config)"

lemma batch_tx_encoding: "tx_encoding_len batch_tx = Some 25"
  by code_simp

lemma batch_tx_ordinary: "ordinary_tx keeper_example batch_tx"
  by (simp add: ordinary_tx_def batch_tx_def keeper_example_def transaction_data_from_def td_of_l2_def Let_def)

lemma example_sealer_accepts:
  assumes "sd_execution_metrics b = vm_metrics_default" "sd_execution_metrics t = vm_metrics_default"
    "sd_gas_count b = new_block_gas_count" "sd_gas_count t = gas_count_default"
    "sd_cumulative_size b = 25" "sd_cumulative_size t = 25"
    "sd_writes_metrics b = dedup_metrics dedup_new" "sd_writes_metrics t = dedup_metrics dedup_new" "sd_gas_remaining t = 1000000000"
  shows "should_seal_l1_batch hw (sequencer_sealer_new full_config) 1 b t Version24 = Some NoSeal"
  by (simp add: should_seal_l1_batch_strictest default_sealers_def strictest_NoSeal_iff
     slots_criterion_def gas_criterion_def circuits_criterion_def gas_for_batch_tip_criterion_def pubdata_bytes_criterion_def
      tx_encoding_size_criterion_def Let_def full_config_def assms any_field_greater_than_def
      gas_count_add_def new_block_gas_count_def circuit_total_def f32_ceil_to_usize_def
      get_bootloader_tx_encoding_space_def vm_latest_used_bootloader_memory_words_def
      vm_latest_used_bootloader_memory_bytes.simps layout_defs dedup_new_def metrics_size_def is_pre_boojum_def less_eq_ProtocolVersionId_def)

lemma example_manager_new: "updates_manager_new example_env Version24 (0, 0) = Some example_manager"
  by (simp add: updates_manager_new_def example_manager_def example_env_def vm_latest_get_batch_base_fee_def)

lemma keeper_run_resolution:
  "process_one_tx example_sealer batch_tx example_execution
     example_manager = Some (NoSeal, example_manager)"
proof -
  have zero: "circuit_add circuit_default (circuit_add circuit_default circuit_default) = circuit_default"
    by (simp add: circuit_add_def f32_add_def f32_round_def)
  have "apply_and_rollback dedup_new [] = Some (dedup_metrics dedup_new, dedup_new)"
    by (simp add: apply_and_rollback_def process_storage_logs_def dedup_rollback_def)
  then show ?thesis
    by (simp add: process_one_tx_def batch_tx_encoding Let_def example_result_def example_manager_def pending_defs
        l1_batch_updates_new_def l2_block_updates_new_def example_sealer_accepts [unfolded One_nat_def] vm_metrics_add_def zero
        gas_count_add_def gas_count_from_writes_def apply_on_empty_state_def dedup_apply_def process_storage_logs_def
        dedup_new_def new_block_gas_count_def metrics_size_def is_pre_boojum_def less_eq_ProtocolVersionId_def)
qed

lemma keeper_run_accepts:
  "\<exists>um. um_extend_from_executed_transaction keeper_example batch_tx example_result [] gas_count_default vm_metrics_default []
     example_manager = Some um \<and> pending_executed_transactions_len um = 1 \<and> um_batch_timestamp um = 0 \<and>
     um_l1_batch um = l1_batch_updates_new 1 \<and> bu_timestamp (um_l2_block um) = 0 \<and>
     map ter_transaction (bu_executed_transactions (um_l2_block um)) = [batch_tx]"
proof -
  have "bootloader_encoding_size (kp_vm keeper_example) (kp_rlp_val_at keeper_example) batch_tx = Some 25"
    using ordinary_tx_exact [OF _ batch_tx_ordinary] abi_spec_length
    by (simp add: batch_tx_encoding keeper_example_def)
  then show ?thesis
    by (simp add: um_extend_from_executed_transaction_def extend_from_executed_transaction_def Let_def example_result_def
        extract_bytecodes_marked_as_known_def batch_tx_def tx_hash_def l2_hash_def pending_executed_transactions_len_def
        example_manager_def l1_batch_updates_new_def l2_block_updates_new_def)
qed

lemma keeper_run_first:
  obtains um where "process_iteration keeper_example example_sealer full_config (example_input 1000) (example_manager, [])
      = Some (Running, um, [ExecuteTx batch_tx (Some example_execution)])"
    "pending_executed_transactions_len um = 1" "um_batch_timestamp um = 0" "um_l1_batch um = l1_batch_updates_new 1"
    "bu_timestamp (um_l2_block um) = 0" "map ter_transaction (bu_executed_transactions (um_l2_block um)) = [batch_tx]"
proof -
  obtain um where um: "um_extend_from_executed_transaction keeper_example batch_tx example_result [] gas_count_default vm_metrics_default []
     example_manager = Some um" "pending_executed_transactions_len um = 1" "um_batch_timestamp um = 0"
    "um_l1_batch um = l1_batch_updates_new 1" "bu_timestamp (um_l2_block um) = 0"
    "map ter_transaction (bu_executed_transactions (um_l2_block um)) = [batch_tx]"
    using keeper_run_accepts by (elim exE conjE) (rule that)
  have "process_iteration keeper_example example_sealer full_config (example_input 1000) (example_manager, [])
      = Some (Running, um, [ExecuteTx batch_tx (Some example_execution)])"
    using um(1) keeper_run_resolution
    by (simp add: process_iteration_def should_seal_l1_batch_unconditionally_def io_should_seal_l2_block_def
        execute_next_tx_def apply_resolution_def Let_def example_input_def full_config_def)
      (simp add: example_manager_def l1_batch_updates_new_def l2_block_updates_new_def pending_executed_transactions_len_def)
  from that [OF this um(2-6)] show thesis .
qed

lemma keeper_run:
  "\<exists>um. process_l1_batch keeper_example example_sealer full_config None [example_input 1000, example_input 5000] (example_manager, [])
     = Some (BatchSealed, um, [ExecuteTx batch_tx (Some example_execution)]) \<and> pending_executed_transactions_len um = 1 \<and>
     um_l1_batch um = l1_batch_updates_new 1 \<and> bu_executed_transactions (um_l2_block um) \<noteq> []"
proof -
  obtain um where um: "process_iteration keeper_example example_sealer full_config (example_input 1000) (example_manager, [])
      = Some (Running, um, [ExecuteTx batch_tx (Some example_execution)])"
    "pending_executed_transactions_len um = 1" "um_batch_timestamp um = 0" "um_l1_batch um = l1_batch_updates_new 1"
    "bu_timestamp (um_l2_block um) = 0" "map ter_transaction (bu_executed_transactions (um_l2_block um)) = [batch_tx]"
    by (rule keeper_run_first)
  have "process_iteration keeper_example example_sealer full_config (example_input 5000) (um, [ExecuteTx batch_tx (Some example_execution)])
      = Some (BatchSealed, um, [ExecuteTx batch_tx (Some example_execution)])"
    using um(2,3)
    by (simp add: process_iteration_def should_seal_l1_batch_unconditionally_def example_input_def full_config_def)
  with um show ?thesis by (auto simp: process_l1_batch_def example_input_def)
qed

theorem batch_within_limits_witness:
  "\<exists>um calls. process_l1_batch keeper_example example_sealer full_config None [example_input 1000, example_input 5000] (example_manager, [])
     = Some (BatchSealed, um, calls) \<and> pending_executed_transactions_len um = 1 \<and> within_limits 0 full_config um"
proof -
  obtain um where um: "process_l1_batch keeper_example example_sealer full_config None [example_input 1000, example_input 5000] (example_manager, [])
     = Some (BatchSealed, um, [ExecuteTx batch_tx (Some example_execution)])" "pending_executed_transactions_len um = 1"
    using keeper_run by (elim exE conjE) (rule that)
  have "abi_length_law (vp_encode (kp_vm keeper_example))" by (simp add: keeper_example_def abi_spec_length)
  moreover have "\<forall>i \<in> set [example_input 1000, example_input 5000]. \<forall>tx. in_next_tx i = Some (Some tx) \<longrightarrow> ordinary_tx keeper_example tx"
    by (simp add: example_input_def batch_tx_ordinary)
  ultimately have "within_limits (kp_heap_words keeper_example) full_config um"
    using batch_within_limits [OF example_manager_new _ _ _ um(1)] um(2) by simp
  then show ?thesis using um by (intro exI [of _ um] exI [of _ "[ExecuteTx batch_tx (Some example_execution)]"]) (simp add: keeper_example_def)
qed

theorem batch_in_sync_witness:
  "\<exists>um calls. process_l1_batch keeper_example example_sealer full_config None [example_input 1000, example_input 5000] (example_manager, [])
     = Some (BatchSealed, um, calls) \<and> executor_txs calls = [batch_tx] \<and>
     map ter_transaction (bu_executed_transactions (um_l2_block um)) = [batch_tx]"
proof -
  obtain um where um: "process_l1_batch keeper_example example_sealer full_config None [example_input 1000, example_input 5000] (example_manager, [])
     = Some (BatchSealed, um, [ExecuteTx batch_tx (Some example_execution)])"
    using keeper_run by (elim exE conjE) (rule that)
  have "executor_txs [ExecuteTx batch_tx (Some example_execution)] = [batch_tx]"
    using executor_log_snoc(1) [of "[]" batch_tx "Some example_execution"] by (simp add: executor_txs_def)
  moreover from this have "map ter_transaction (bu_executed_transactions (um_l2_block um)) = [batch_tx]"
    using batch_in_sync [OF example_manager_new um _ refl] by simp
  ultimately show ?thesis using um by (intro exI [of _ um] exI [of _ "[ExecuteTx batch_tx (Some example_execution)]"]) simp
qed

end
