(* ===== verification/Keeper_Restart.thy ===== *)
theory Keeper_Restart
  imports State_Keeper "HOL-Library.Sublist"
begin

text \<open>
  The ends of a batch in the state keeper (\<^verbatim>\<open>core/node/state_keeper/src/keeper.rs\<close>): \<open>restore_state\<close>, which
  re-executes the sealed L2 blocks of an unfinished batch after a restart, and the part of
  \<open>run_inner\<close> that finishes a batch. The batch executor is a function of the calls it has had. The
  properties compose these with the processing of a batch: a finished batch holds exactly what was
  executed, and a restart brings the batch back.
\<close>

section \<open>Restoring a batch\<close>

record L2BlockExecutionData =
  xd_number :: u32
  xd_timestamp :: u64
  xd_prev_block_hash :: h256
  xd_virtual_blocks :: u32
  xd_txs :: "Transaction list"

text \<open>The answer of the batch executor to a transaction, after the calls it has had.\<close>

type_synonym 'c executor = "'c keeper_call list \<Rightarrow> Transaction \<Rightarrow> 'c TxExecutionResult option"

fun restore_txs ::
    "KeeperParams \<Rightarrow> 'c executor \<Rightarrow> Transaction list \<Rightarrow> 'c keeper_state \<Rightarrow> (KeeperError option \<times> 'c keeper_state) option" where
  "restore_txs P exec [] st = Some (None, st)"
| "restore_txs P exec (tx # txs) st =
     (let answer = exec (snd st) tx; calls = snd st @ [ExecuteTx tx answer]
      in case answer of
           Some (Success tx_result tx_metrics bytecodes traces _) \<Rightarrow>
             do { um \<leftarrow> um_extend_from_executed_transaction P tx tx_result bytecodes (fst tx_metrics) (snd tx_metrics) traces (fst st);
                  restore_txs P exec txs (um, calls) }
         | _ \<Rightarrow> Some (Some Fatal, fst st, calls))"

fun restore_blocks ::
    "KeeperParams \<Rightarrow> 'c executor \<Rightarrow> ('c keeper_call list \<Rightarrow> bool) \<Rightarrow> nat \<Rightarrow> L2BlockExecutionData list \<Rightarrow> 'c keeper_state \<Rightarrow>
     (KeeperError option \<times> 'c keeper_state) option" where
  "restore_blocks P exec started index [] st = Some (None, st)"
| "restore_blocks P exec started index (b # bs) st =
     (case (if index > 0
            then start_next_l2_block P \<lparr>bp_timestamp = xd_timestamp b, bp_virtual_blocks = xd_virtual_blocks b\<rparr> (started (snd st)) st
            else (None, st)) of
        (Some e, st) \<Rightarrow> Some (Some e, st)
      | (None, st) \<Rightarrow>
          do { (err, st) \<leftarrow> restore_txs P exec (xd_txs b) st;
               case err of
                 Some e \<Rightarrow> Some (Some e, st)
               | None \<Rightarrow> restore_blocks P exec started (index + 1) bs st })"

definition restore_state ::
    "KeeperParams \<Rightarrow> 'c executor \<Rightarrow> ('c keeper_call list \<Rightarrow> bool) \<Rightarrow> KeeperError + L2BlockParams \<Rightarrow> L2BlockExecutionData list \<Rightarrow>
     'c keeper_state \<Rightarrow> (KeeperError option \<times> 'c keeper_state) option" where
  "restore_state P exec started new_params blocks st =
     (if blocks = [] then Some (None, st)
      else do { (err, st) \<leftarrow> restore_blocks P exec started 0 blocks st;
                case err of
                  Some e \<Rightarrow> Some (Some e, st)
                | None \<Rightarrow>
                    (case new_params of
                       Inl e \<Rightarrow> Some (Some e, st)
                     | Inr params \<Rightarrow> Some (start_next_l2_block P params (started (snd st)) st)) })"

section \<open>Finishing a batch\<close>

text \<open>The answers of the environment: those for sealing the open L2 block, the batch of the executor, and
  whether the output handler has stored it.\<close>

definition finish_l1_batch ::
    "KeeperParams \<Rightarrow> 'c iteration_input \<Rightarrow> FinishedL1Batch option \<Rightarrow> bool \<Rightarrow> 'c keeper_state \<Rightarrow>
     (KeeperError option \<times> 'c keeper_state) option" where
  "finish_l1_batch P i finished handled st =
     (case (if bu_executed_transactions (um_l2_block (fst st)) \<noteq> [] then seal_and_start_l2_block P i st else (None, st)) of
        (Some e, st) \<Rightarrow> Some (Some e, st)
      | (None, st) \<Rightarrow>
          (case finished of
             None \<Rightarrow> Some (Some Fatal, fst st, snd st @ [FinishBatch])
           | Some batch \<Rightarrow>
               do { um \<leftarrow> um_finish_batch P batch (fst st);
                    Some (if handled then None else Some Fatal, um, (snd st @ [FinishBatch]) @ [HandleL1Batch]) }))"

section \<open>Lemmas\<close>

lemma um_finish_batch_blocks:
  assumes "um_finish_batch P batch um = Some um'"
  shows "bu_executed_transactions (um_l2_block um') = bu_executed_transactions (um_l2_block um)"
    "bu_number (um_l2_block um') = bu_number (um_l2_block um)"
    "bu_prev_block_hash (um_l2_block um') = bu_prev_block_hash (um_l2_block um)"
    "um_l1_batch um' = (um_l1_batch um)\<lparr>lu_finished := Some batch\<rparr>"
  using assms
  by (auto simp: um_finish_batch_def extend_from_fictive_transaction_def Let_def bind_eq_Some_conv split: if_splits)

lemma seal_and_start_opens_empty:
  "seal_and_start_l2_block P i st = (None, st') \<Longrightarrow> bu_executed_transactions (um_l2_block (fst st')) = []"
  by (cases st) (auto simp: seal_and_start_l2_block_def start_next_l2_block_def um_push_l2_block_def
      l2_block_updates_new_def Let_def split: if_splits sum.splits)

lemma finish_l1_batch_complete:
  assumes "finish_l1_batch P i finished handled st = Some (None, um, calls)" "in_sync P st"
  shows "in_sync P (um, calls)" "bu_executed_transactions (um_l2_block um) = []" "lu_finished (um_l1_batch um) = finished"
proof -
  obtain batch um1 calls1 where closed: "(if bu_executed_transactions (um_l2_block (fst st)) \<noteq> []
      then seal_and_start_l2_block P i st else (None, st)) = (None, um1, calls1)"
    and fin: "finished = Some batch" "um_finish_batch P batch um1 = Some um" "calls = (calls1 @ [FinishBatch]) @ [HandleL1Batch]"
    using assms(1)
    by (auto simp: finish_l1_batch_def bind_eq_Some_conv split: prod.splits option.splits if_splits)
  have sync: "in_sync P (um1, calls1)" and empty: "bu_executed_transactions (um_l2_block um1) = []"
    using closed assms(2) seal_and_start_in_sync [of P i st "(um1, calls1)"]
      seal_and_start_opens_empty [of P i st "(um1, calls1)"] by (auto split: if_splits)
  note blocks = um_finish_batch_blocks [OF fin(2)]
  have "successively (linked P) (sealed_blocks calls1 @ [um_l2_block um]) \<longleftrightarrow>
      successively (linked P) (sealed_blocks calls1 @ [um_l2_block um1])"
    by (rule linked_same_header) (simp_all add: blocks(2,3))
  then show "in_sync P (um, calls)"
    using sync by (simp add: in_sync_def fin(3) executor_txs_def blocks(1,4) del: append_assoc)
  show "bu_executed_transactions (um_l2_block um) = []" "lu_finished (um_l1_batch um) = finished"
    by (simp_all add: blocks empty fin(1))
qed

text \<open>The block data that a restart re-executes, and an executor that answers as it did in a logged run.\<close>

definition execution_data :: "'c L2BlockUpdates \<Rightarrow> L2BlockExecutionData" where
  "execution_data b =
     \<lparr>xd_number = bu_number b, xd_timestamp = bu_timestamp b, xd_prev_block_hash = bu_prev_block_hash b,
      xd_virtual_blocks = bu_virtual_blocks b, xd_txs = map ter_transaction (bu_executed_transactions b)\<rparr>"

definition answers_as_logged :: "'c executor \<Rightarrow> (Transaction \<times> 'c TxExecutionResult option) list \<Rightarrow> bool" where
  "answers_as_logged exec log \<longleftrightarrow>
     (\<forall>calls tx answer. prefix (executor_log calls @ [(tx, answer)]) log \<longrightarrow> exec calls tx = answer)"

abbreviation restores ::
    "KeeperParams \<Rightarrow> 'c executor \<Rightarrow> L2BlockExecutionData list \<Rightarrow> 'c keeper_state \<Rightarrow> 'c keeper_state \<Rightarrow> bool" where
  "restores P exec blocks st st' \<equiv> restore_blocks P exec (\<lambda>_. True) 0 blocks st = Some (None, st')"

lemma answers_as_logged_prefix: "answers_as_logged exec (log @ log') \<Longrightarrow> answers_as_logged exec log"
  by (auto simp: answers_as_logged_def)

lemma restore_txs_append:
  assumes "restore_txs P exec txs st = Some (None, st1)"
  shows "restore_txs P exec (txs @ txs') st = restore_txs P exec txs' st1"
  using assms
  by (induction txs arbitrary: st) (auto simp: Let_def bind_eq_Some_conv split: option.splits TxExecutionResult.splits)

lemma restore_blocks_append:
  assumes "restore_blocks P exec started index bs st = Some (None, st1)"
  shows "restore_blocks P exec started index (bs @ bs') st = restore_blocks P exec started (index + length bs) bs' st1"
  using assms
  by (induction bs arbitrary: index st) (auto simp: bind_eq_Some_conv split: prod.splits option.splits if_splits)

lemma restore_last_block_more:
  assumes "restore_blocks P exec started index (bs @ [b]) st = Some (None, st1)"
  shows "restore_blocks P exec started index (bs @ [b\<lparr>xd_txs := xd_txs b @ txs\<rparr>]) st = restore_txs P exec txs st1"
  using assms
proof (induction bs arbitrary: index st)
  case Nil
  have whole: "do { (err, st) \<leftarrow> r; case err of Some e \<Rightarrow> Some (Some e, st) | None \<Rightarrow> restore_blocks P exec started k [] st } = r"
    for k r
    by (cases r) (auto split: option.split)
  from Nil show ?case
    by (auto simp: bind_eq_Some_conv restore_txs_append whole split: prod.splits option.splits if_splits)
qed (auto simp: bind_eq_Some_conv split: prod.splits option.splits if_splits)

text \<open>Two managers that differ only in their deduplicators treat transactions and blocks alike.\<close>

definition same_batch :: "'c UpdatesManager \<Rightarrow> 'c UpdatesManager \<Rightarrow> bool" where
  "same_batch a b \<longleftrightarrow> a\<lparr>um_storage_writes_deduplicator := um_storage_writes_deduplicator b\<rparr> = b"

lemma same_batch_upd [simp]:
  "same_batch a (b\<lparr>um_storage_writes_deduplicator := d\<rparr>) \<longleftrightarrow> same_batch a b"
  by (cases a; cases b) (simp add: same_batch_def)

lemma same_batch_fields:
  assumes "same_batch a b"
  shows "um_l2_block a = um_l2_block b" "um_l1_batch a = um_l1_batch b" "um_protocol_version a = um_protocol_version b"
  using assms by (cases a; cases b; simp add: same_batch_def)+

lemma same_batch_push:
  "same_batch a b \<Longrightarrow> same_batch (um_push_l2_block P params a) (um_push_l2_block P params b)"
  by (cases a; cases b) (simp add: same_batch_def um_push_l2_block_def)

lemma same_batch_extend:
  assumes "um_extend_from_executed_transaction P tx result bytecodes gas metrics traces b = Some b'" "same_batch a b"
  shows "\<exists>a'. um_extend_from_executed_transaction P tx result bytecodes gas metrics traces a = Some a' \<and> same_batch a' b'"
  using assms by (cases a; cases b) (auto simp: same_batch_def um_extend_from_executed_transaction_def)

lemma execution_data_extend:
  assumes "um_extend_from_executed_transaction P tx result bytecodes gas metrics traces um = Some um'"
  shows "execution_data (um_l2_block um') =
    (execution_data (um_l2_block um))\<lparr>xd_txs := xd_txs (execution_data (um_l2_block um)) @ [tx]\<rparr>"
  using assms
  by (auto simp: execution_data_def um_extend_from_executed_transaction_def extend_from_executed_transaction_def
      Let_def bind_eq_Some_conv)

text \<open>The invariant: re-executing the blocks of the batch, the open one included, gives the batch.\<close>

definition restorable :: "KeeperParams \<Rightarrow> 'c UpdatesManager \<Rightarrow> 'c keeper_state \<Rightarrow> bool" where
  "restorable P um0 st \<longleftrightarrow>
     (\<forall>exec. answers_as_logged exec (executor_log (snd st)) \<longrightarrow>
        (\<exists>um calls. restores P exec (map execution_data (sealed_blocks (snd st) @ [um_l2_block (fst st)])) (um0, []) (um, calls) \<and>
           same_batch um (fst st) \<and> executor_log calls = executor_log (snd st)))"

lemma restorable_same:
  assumes "restorable P um0 (um, calls)" "executor_log calls' = executor_log calls" "sealed_blocks calls' = sealed_blocks calls"
    "um' = um\<lparr>um_storage_writes_deduplicator := d\<rparr>"
  shows "restorable P um0 (um', calls')"
  using assms by (simp add: restorable_def)

lemma restorable_accept:
  assumes "restorable P um0 (um, calls)"
    "um_extend_from_executed_transaction P tx result bytecodes gas metrics traces um1 = Some um'"
    "um1 = um\<lparr>um_storage_writes_deduplicator := d\<rparr>"
    "answer = Some (Success result (gas, metrics) bytecodes traces remaining)"
  shows "restorable P um0 (um', calls @ [ExecuteTx tx answer])"
  unfolding restorable_def
proof (intro allI impI)
  fix exec assume "answers_as_logged exec (executor_log (snd (um', calls @ [ExecuteTx tx answer])))"
  then have exec: "answers_as_logged exec (executor_log calls @ [(tx, answer)])" by simp
  obtain umr callsr where r: "restores P exec (map execution_data (sealed_blocks calls) @ [execution_data (um_l2_block um)]) (um0, []) (umr, callsr)"
    "same_batch umr um" "executor_log callsr = executor_log calls"
    using assms(1) answers_as_logged_prefix [OF exec] by (auto simp: restorable_def)
  obtain umr' where umr': "um_extend_from_executed_transaction P tx result bytecodes gas metrics traces umr = Some umr'" "same_batch umr' um'"
    using same_batch_extend [OF assms(2)] r(2) assms(3) by auto
  have "exec callsr tx = answer" using exec r(3) by (simp add: answers_as_logged_def)
  then have "restore_txs P exec [tx] (umr, callsr) = Some (None, umr', callsr @ [ExecuteTx tx answer])"
    using umr'(1) by (simp add: assms(4))
  then have "restores P exec (map execution_data (sealed_blocks calls) @ [execution_data (um_l2_block um')]) (um0, [])
      (umr', callsr @ [ExecuteTx tx answer])"
    using restore_last_block_more [OF r(1), of "[tx]"] execution_data_extend [OF assms(2)] assms(3) by simp
  then show "\<exists>um calls'. restores P exec (map execution_data (sealed_blocks (snd (um', calls @ [ExecuteTx tx answer])) @
        [um_l2_block (fst (um', calls @ [ExecuteTx tx answer]))])) (um0, []) (um, calls') \<and>
      same_batch um (fst (um', calls @ [ExecuteTx tx answer])) \<and>
      executor_log calls' = executor_log (snd (um', calls @ [ExecuteTx tx answer]))"
    using umr'(2) r(3) by (intro exI [of _ umr'] exI [of _ "callsr @ [ExecuteTx tx answer]"]) simp
qed

lemma restorable_next_block:
  assumes "restorable P um0 st" "seal_and_start_l2_block P i st = (None, st')"
  shows "restorable P um0 st'"
proof -
  obtain um calls where st: "st = (um, calls)" by (rule prod.exhaust)
  obtain params where st': "st' = (um_push_l2_block P params um, (calls @ [SealL2Block (um_l2_block um)])
      @ [StartNextL2Block (updates_get_env (um_l2_block (um_push_l2_block P params um)))])"
    using assms(2) by (auto simp: st seal_and_start_l2_block_def start_next_l2_block_def Let_def split: if_splits sum.splits)
  have data: "execution_data (um_l2_block (um_push_l2_block P params um)) =
      \<lparr>xd_number = bu_number (um_l2_block um) + 1, xd_timestamp = bp_timestamp params,
       xd_prev_block_hash = updates_l2_block_hash P (um_l2_block um), xd_virtual_blocks = bp_virtual_blocks params, xd_txs = []\<rparr>"
    by (simp add: execution_data_def um_push_l2_block_def l2_block_updates_new_def)
  show ?thesis
    unfolding restorable_def
  proof (intro allI impI)
    fix exec assume "answers_as_logged exec (executor_log (snd st'))"
    then obtain umr callsr where r: "restores P exec (map execution_data (sealed_blocks calls @ [um_l2_block um])) (um0, []) (umr, callsr)"
      "same_batch umr um" "executor_log callsr = executor_log calls"
      using assms(1) by (auto simp: restorable_def st st' simp del: append_assoc)
    let ?umr = "um_push_l2_block P params umr"
    have params: "\<lparr>bp_timestamp = bp_timestamp params, bp_virtual_blocks = bp_virtual_blocks params\<rparr> = params" by simp
    have "restores P exec (map execution_data (sealed_blocks calls @ [um_l2_block um]) @
        [execution_data (um_l2_block (um_push_l2_block P params um))]) (um0, [])
        (?umr, callsr @ [StartNextL2Block (updates_get_env (um_l2_block ?umr))])"
      unfolding restore_blocks_append [OF r(1)] by (simp add: data params start_next_l2_block_def Let_def)
    then show "\<exists>um calls. restores P exec (map execution_data (sealed_blocks (snd st') @ [um_l2_block (fst st')])) (um0, []) (um, calls) \<and>
        same_batch um (fst st') \<and> executor_log calls = executor_log (snd st')"
      using same_batch_push [OF r(2), of P params] r(3)
      by (intro exI [of _ ?umr] exI [of _ "callsr @ [StartNextL2Block (updates_get_env (um_l2_block ?umr))]"])
        (simp add: st' del: append_assoc)
  qed
qed

interpretation restart: batch_invariant P "restorable P um0" for P um0
proof
  show "restorable P um0 st'" if "restorable P um0 st" "seal_and_start_l2_block P i st = (None, st')"
    for st st' :: "'a keeper_state" and i
    using that by (rule restorable_next_block)
  show "restorable P um0 (um', calls @ [ExecuteTx tx (Some (Success result (gas, metrics) bytecodes traces remaining))])"
    if "restorable P um0 (um, calls)"
      "um_extend_from_executed_transaction P tx result bytecodes gas metrics traces (um\<lparr>um_storage_writes_deduplicator := d\<rparr>) = Some um'"
    for um um' and calls :: "'a keeper_call list" and tx result bytecodes gas metrics traces d remaining
    using that by (rule restorable_accept [OF _ _ refl refl])
  show "restorable P um0 (um\<lparr>um_storage_writes_deduplicator := d\<rparr>, ((calls @ [ExecuteTx tx answer]) @ [RollbackLastTx]) @ [c])"
    if "restorable P um0 (um, calls)" "c = IoRollback tx \<or> (\<exists>reason. c = IoReject tx reason)"
    for um and calls :: "'a keeper_call list" and tx answer c d
    using that by (intro restorable_same [OF that(1)]) (auto simp del: append_assoc)
qed

lemma restorable_fresh: "updates_manager_new env v hashes = Some um0 \<Longrightarrow> restorable P um0 (um0, [])"
  by (auto simp: restorable_def execution_data_def updates_manager_new_def l2_block_updates_new_def same_batch_def)

lemma restore_txs_keeps:
  assumes "restore_txs P exec txs st = Some (None, st')"
  shows "um_l1_batch (fst st') = um_l1_batch (fst st)" "bu_number (um_l2_block (fst st')) = bu_number (um_l2_block (fst st))"
    "bu_prev_block_hash (um_l2_block (fst st')) = bu_prev_block_hash (um_l2_block (fst st))"
    "executor_txs (snd st') = executor_txs (snd st) @ txs"
  using assms
  by (induction txs arbitrary: st)
    (auto simp: Let_def bind_eq_Some_conv um_extend_blocks executor_txs_def split: option.splits TxExecutionResult.splits)

lemma restore_blocks_executes:
  assumes "restore_blocks P exec started index bs st = Some (None, st')"
  shows "executor_txs (snd st') = executor_txs (snd st) @ concat (map xd_txs bs)"
  using assms
proof (induction bs arbitrary: index st)
  case (Cons b bs)
  let ?opened = "if index > 0
      then start_next_l2_block P \<lparr>bp_timestamp = xd_timestamp b, bp_virtual_blocks = xd_virtual_blocks b\<rparr> (started (snd st)) st
      else (None, st)"
  obtain err st1 where opened: "?opened = (err, st1)" by (rule prod.exhaust)
  have "executor_txs (snd st1) = executor_txs (snd st)"
    using opened by (auto simp: start_next_l2_block_def Let_def executor_txs_def split: if_splits)
  moreover obtain st2 where "restore_txs P exec (xd_txs b) st1 = Some (None, st2)"
    "restore_blocks P exec started (index + 1) bs st2 = Some (None, st')"
    using Cons.prems unfolding restore_blocks.simps opened
    by (cases err) (auto simp: bind_eq_Some_conv split: option.splits)
  ultimately show ?case using restore_txs_keeps(4) Cons.IH by fastforce
qed simp

lemma restore_blocks_prefix:
  "restore_blocks P exec started index (bs @ bs') st = Some (None, st') \<Longrightarrow>
   \<exists>st1. restore_blocks P exec started index bs st = Some (None, st1)"
  by (induction bs arbitrary: index st) (auto simp: bind_eq_Some_conv split: prod.splits option.splits if_splits)

text \<open>What is restored when the open L2 block is left out and another one is opened in its place.\<close>

lemma restore_state_reopens:
  assumes "restores P exec (bs @ [b]) (um0, []) (umr, callsr)" "bs \<noteq> []"
  shows "\<exists>um calls. restore_state P exec (\<lambda>_. True) (Inr params) bs (um0, []) = Some (None, um, calls) \<and>
    um_l1_batch um = um_l1_batch umr \<and>
    bu_number (um_l2_block um) = bu_number (um_l2_block umr) \<and>
    bu_prev_block_hash (um_l2_block um) = bu_prev_block_hash (um_l2_block umr) \<and>
    bu_executed_transactions (um_l2_block um) = [] \<and> executor_txs calls = concat (map xd_txs bs)"
proof -
  obtain st1 where st1: "restores P exec bs (um0, []) st1" using restore_blocks_prefix [OF assms(1)] by blast
  let ?params = "\<lparr>bp_timestamp = xd_timestamp b, bp_virtual_blocks = xd_virtual_blocks b\<rparr>"
  let ?st2 = "snd (start_next_l2_block P ?params True st1)"
  have "restore_txs P exec (xd_txs b) ?st2 = Some (None, umr, callsr)"
    using assms restore_blocks_append [OF st1, of "[b]"]
    by (auto simp: start_next_l2_block_def Let_def bind_eq_Some_conv split: option.splits)
  note kept = restore_txs_keeps [OF this]
  have "restore_state P exec (\<lambda>_. True) (Inr params) bs (um0, []) = Some (start_next_l2_block P params True st1)"
    using assms(2) by (simp add: restore_state_def st1)
  moreover have "executor_txs (snd st1) = concat (map xd_txs bs)"
    using restore_blocks_executes [OF st1] by (simp add: executor_txs_def)
  ultimately show ?thesis
    using kept(1,2,3)
    by (auto simp: start_next_l2_block_def Let_def um_push_l2_block_def l2_block_updates_new_def executor_txs_def)
qed

section \<open>Properties\<close>

text \<open>C10. A finished batch holds exactly what was executed. When a fresh batch is processed until it is sealed and
  then finished, its transactions are those that the executor has executed and not rolled back, in
  order. They are also those of the L2 blocks handed to the output handler, the open block is empty,
  and the priority operations of the batch are those of its L1 transactions, in order.\<close>
theorem sealed_batch_complete:
  assumes "updates_manager_new env v hashes = Some um0"
    "process_l1_batch P resolve config upgrade inputs (um0, []) = Some (BatchSealed, st)"
    "finish_l1_batch P i finished handled st = Some (None, um, calls)"
  shows "map ter_transaction (lu_executed_transactions (um_l1_batch um)) = executor_txs calls \<and>
    lu_executed_transactions (um_l1_batch um) = concat (map bu_executed_transactions (sealed_blocks calls)) \<and>
    bu_executed_transactions (um_l2_block um) = [] \<and>
    lu_priority_ops_onchain_data (um_l1_batch um) = List.map_filter onchain_data_of (executor_txs calls) \<and>
    lu_finished (um_l1_batch um) = finished"
proof -
  have "in_sync P st"
    using process_l1_batch_in_sync [OF assms(2) updates_manager_new_fresh(2) [OF assms(1)]] by simp
  note fin = finish_l1_batch_complete [OF assms(3) this]
  then have txs: "map ter_transaction (lu_executed_transactions (um_l1_batch um)) = executor_txs calls"
    by (simp add: in_sync_def)
  moreover have "List.map_filter (\<lambda>tx. onchain_data_of (ter_transaction tx)) (lu_executed_transactions (um_l1_batch um)) =
      List.map_filter onchain_data_of (executor_txs calls)"
    by (simp add: txs [symmetric] List.map_filter_def filter_map o_def)
  ultimately show ?thesis using fin by (simp add: in_sync_def)
qed


text \<open>The run of the theory \<open>State_Keeper\<close>, finished; and a run in which the second iteration seals the L2 block and finds
  no transaction.\<close>

abbreviation example_idle :: "128 word \<Rightarrow> unit iteration_input" where
  "example_idle now \<equiv> (example_input now)\<lparr>in_next_tx := Some None\<rparr>"

theorem sealed_batch_complete_witness:
  "\<exists>st um calls. process_l1_batch keeper_example example_sealer full_config None [example_input 1000, example_input 5000] (example_manager, [])
      = Some (BatchSealed, st) \<and>
    finish_l1_batch keeper_example (example_input 5000) (Some \<lparr>block_tip_execution_result = example_result\<rparr>) True st
      = Some (None, um, calls) \<and>
    map ter_transaction (lu_executed_transactions (um_l1_batch um)) = executor_txs calls \<and> executor_txs calls = [batch_tx]"
proof -
  obtain um where run: "process_l1_batch keeper_example example_sealer full_config None [example_input 1000, example_input 5000] (example_manager, [])
     = Some (BatchSealed, um, [ExecuteTx batch_tx (Some example_execution)])"
    and um: "um_l1_batch um = l1_batch_updates_new 1" "bu_executed_transactions (um_l2_block um) \<noteq> []"
    using keeper_run by (elim exE conjE) (rule that)
  let ?log = "(([] @ [ExecuteTx batch_tx (Some example_execution)]) @ [SealL2Block (um_l2_block um)])"
  obtain um' e where fin: "finish_l1_batch keeper_example (example_input 5000) (Some \<lparr>block_tip_execution_result = example_result\<rparr>) True
      (um, [ExecuteTx batch_tx (Some example_execution)]) = Some (None, um', ((?log @ [StartNextL2Block e]) @ [FinishBatch]) @ [HandleL1Batch])"
    using um
    by (auto simp: finish_l1_batch_def seal_and_start_l2_block_def start_next_l2_block_def example_input_def Let_def
        um_finish_batch_def um_push_l2_block_def extend_from_sealed_l2_block_def l1_batch_updates_new_def
        metrics_for_criteria_def get_execution_metrics_def example_result_def extract_long_l2_to_l1_messages_def
        extract_published_bytecodes_def)
  have "executor_txs (((?log @ [StartNextL2Block e]) @ [FinishBatch]) @ [HandleL1Batch]) = [batch_tx]"
    unfolding executor_txs_def executor_log_snoc by simp
  then show ?thesis
    using sealed_batch_complete [OF example_manager_new run fin] run fin by blast
qed


end
